(* ===== verification/Dtp_Prelude.thy ===== *)
theory Dtp_Prelude
  imports Main "HOL-Library.Word"
begin

text \<open>
  Shared vocabulary of the development: the machine integers of the C sources, the failures a
  C statement can end in (as values of a sum type, with their sequencing combinator), and the
  generic facts on words and lists that the component theories use.
\<close>

section \<open>Machine integers\<close>

type_synonym u8 = "8 word"
type_synonym u16 = "16 word"
type_synonym u32 = "32 word"
type_synonym u64 = "64 word"

text \<open>\<open>UINT32_MAX\<close> of \<open>stdint.h\<close>.\<close>

abbreviation (input) UINT32_MAX :: u32 where
  "UINT32_MAX \<equiv> 0xFFFFFFFF"

section \<open>Failures of C statements\<close>

text \<open>
  A run of a C function ends either normally or in one of these situations, none of which the
  sources handle: they are undefined behaviour (or a hardware trap, or a loop that never ends).
\<close>

datatype c_error =
    Null_Deref         \<comment> \<open>a NULL pointer is dereferenced\<close>
  | Use_After_Free     \<comment> \<open>an object outside its lifetime is accessed\<close>
  | Bad_Free           \<comment> \<open>\<open>free\<close> of something \<open>malloc\<close> did not return, or a second time\<close>
  | Div_By_Zero        \<comment> \<open>integer division or remainder by zero\<close>
  | Out_Of_Bounds      \<comment> \<open>an array access outside the array\<close>
  | Indeterminate      \<comment> \<open>a value the C standard leaves indeterminate is used\<close>
  | Diverges           \<comment> \<open>the loop never ends\<close>

type_synonym 'a c_result = "c_error + 'a"

definition c_bind :: "'a c_result \<Rightarrow> ('a \<Rightarrow> 'b c_result) \<Rightarrow> 'b c_result" where
  "c_bind m f = (case m of Inl e \<Rightarrow> Inl e | Inr x \<Rightarrow> f x)"

definition c_assert :: "bool \<Rightarrow> c_error \<Rightarrow> unit c_result" where
  "c_assert b e = (if b then Inr () else Inl e)"

text \<open>Integer division as the hardware does it: a zero divisor traps.\<close>

definition c_div :: "('w::len) word \<Rightarrow> 'w word \<Rightarrow> 'w word c_result" where
  "c_div a b = (if b = 0 then Inl Div_By_Zero else Inr (a div b))"

definition c_mod :: "('w::len) word \<Rightarrow> 'w word \<Rightarrow> 'w word c_result" where
  "c_mod a b = (if b = 0 then Inl Div_By_Zero else Inr (a mod b))"

text \<open>Reading an array of known length.\<close>

definition c_index :: "'a list \<Rightarrow> nat \<Rightarrow> 'a c_result" where
  "c_index xs i = (if i < length xs then Inr (xs ! i) else Inl Out_Of_Bounds)"

text \<open>A loop over the elements of a list whose body can fail.\<close>

fun fold_c :: "('s \<Rightarrow> 'a \<Rightarrow> 's c_result) \<Rightarrow> 's \<Rightarrow> 'a list \<Rightarrow> 's c_result" where
  "fold_c f s [] = Inr s"
| "fold_c f s (x # xs) = c_bind (f s x) (\<lambda>s1. fold_c f s1 xs)"

text \<open>\<open>memcpy\<close> to and from a position in an array of bytes.\<close>

definition memcpy_at :: "u8 list \<Rightarrow> nat \<Rightarrow> u8 list \<Rightarrow> u8 list c_result" where
  "memcpy_at out pos xs = (if pos + length xs \<le> length out
     then Inr (take pos out @ xs @ drop (pos + length xs) out) else Inl Out_Of_Bounds)"

definition memcpy_from :: "u8 list \<Rightarrow> nat \<Rightarrow> nat \<Rightarrow> u8 list c_result" where
  "memcpy_from src pos n = (if pos + n \<le> length src then Inr (take n (drop pos src)) else Inl Out_Of_Bounds)"

section \<open>Simplification rules for failures\<close>

named_theorems c_simps \<open>evaluation of fallible C expressions\<close>

lemma c_bind_Inl [simp, c_simps]: "c_bind (Inl e) f = Inl e"
  by (simp add: c_bind_def)

lemma c_bind_Inr [simp, c_simps]: "c_bind (Inr x) f = f x"
  by (simp add: c_bind_def)

lemma c_bind_return [simp, c_simps]: "c_bind m Inr = m"
  by (cases m) simp_all

lemma c_bind_eq_Inr: "c_bind m f = Inr y \<longleftrightarrow> (\<exists>x. m = Inr x \<and> f x = Inr y)"
  by (cases m) auto

lemma c_bind_eq_Inl: "c_bind m f = Inl e \<longleftrightarrow> m = Inl e \<or> (\<exists>x. m = Inr x \<and> f x = Inl e)"
  by (cases m) auto

lemma c_bind_assoc: "c_bind (c_bind m f) g = c_bind m (\<lambda>x. c_bind (f x) g)"
  by (cases m) auto

lemma c_bind_cong [fundef_cong]:
  "m = m' \<Longrightarrow> (\<And>x. m' = Inr x \<Longrightarrow> f x = f' x) \<Longrightarrow> c_bind m f = c_bind m' f'"
  by (cases m') auto

lemma fold_c_append: "fold_c f s (xs @ ys) = c_bind (fold_c f s xs) (\<lambda>s1. fold_c f s1 ys)"
  by (induction xs arbitrary: s) (simp_all add: c_bind_assoc)

lemma c_div_nonzero [simp, c_simps]: "b \<noteq> 0 \<Longrightarrow> c_div a b = Inr (a div b)"
  by (simp add: c_div_def)

lemma c_div_zero [simp, c_simps]: "c_div a 0 = Inl Div_By_Zero"
  by (simp add: c_div_def)

lemma c_mod_nonzero [simp, c_simps]: "b \<noteq> 0 \<Longrightarrow> c_mod a b = Inr (a mod b)"
  by (simp add: c_mod_def)

lemma c_index_in [simp, c_simps]: "i < length xs \<Longrightarrow> c_index xs i = Inr (xs ! i)"
  by (simp add: c_index_def)

lemma c_index_out [simp, c_simps]: "length xs \<le> i \<Longrightarrow> c_index xs i = Inl Out_Of_Bounds"
  by (simp add: c_index_def)

lemma c_assert_True [simp, c_simps]: "c_assert True e = Inr ()"
  by (simp add: c_assert_def)

lemma c_assert_False [simp, c_simps]: "c_assert False e = Inl e"
  by (simp add: c_assert_def)

section \<open>Words\<close>

text \<open>
  Unsigned 32-bit arithmetic read as natural numbers, with the wrap-around written out. The
  collection \<open>u32_nat\<close> moves a goal about words to one about \<open>nat\<close>.
\<close>

named_theorems u32_nat \<open>comparison of words as comparison of natural numbers\<close>

lemmas [u32_nat] = word_le_nat_alt word_less_nat_alt word_unat_eq_iff

lemma unat_lt_u32: "unat (x::u32) < 4294967296"
  using unsigned_less [where 'a = nat, of x] by simp

lemma unat_lt_u16: "unat (x::u16) < 65536"
  using unsigned_less [where 'a = nat, of x] by simp

lemma unat_lt_u8: "unat (x::u8) < 256"
  using unsigned_less [where 'a = nat, of x] by simp

lemma unat_add1_u32: "x \<noteq> UINT32_MAX \<Longrightarrow> unat (x + 1) = Suc (unat x)" for x :: u32
  using unat_lt_u32 [of x] by (simp add: unat_word_ariths word_unat_eq_iff)

lemma unat_add_u32:
  "unat a + unat b < 4294967296 \<Longrightarrow> unat (a + b) = unat a + unat b" for a b :: u32
  by (simp add: unat_word_ariths)

lemma unat_sub_u32: "b \<le> a \<Longrightarrow> unat (a - b) = unat a - unat b" for a b :: u32
  by (simp add: unat_sub_if_size word_le_nat_alt)

lemma unat_sub1_u32: "0 < a \<Longrightarrow> unat (a - 1) = unat a - 1" for a :: u32
  by (simp add: unat_sub_u32 u32_nat)

lemma unat_mult_u32:
  "unat a * unat b < 4294967296 \<Longrightarrow> unat (a * b) = unat a * unat b" for a b :: u32
  by (simp add: unat_word_ariths)

lemma unat_div_u32: "unat (a div b) = unat a div unat b" for a b :: u32
  by (rule unat_div)

lemma unat_of_nat_u32: "n < 4294967296 \<Longrightarrow> unat (of_nat n :: u32) = n"
  by (simp add: unat_of_nat)

lemma unat_of_nat_u16: "n < 65536 \<Longrightarrow> unat (of_nat n :: u16) = n"
  by (simp add: unat_of_nat)

lemma u32_le_max [simp]: "(x::u32) \<le> UINT32_MAX"
  using unat_lt_u32 [of x] by (simp add: u32_nat)

lemma u32_less_not_max: "x < y \<Longrightarrow> x \<noteq> UINT32_MAX" for x y :: u32
  using u32_le_max [of y] by (metis not_le)

lemma u32_add1_cases:
  fixes x :: u32
  obtains "x = UINT32_MAX" and "x + 1 = 0"
  | "x \<noteq> UINT32_MAX" and "unat (x + 1) = Suc (unat x)"
  by (cases "x = UINT32_MAX") (auto dest: unat_add1_u32)

section \<open>Closed intervals of words\<close>

lemma atLeastAtMost_u32_iff: "x \<in> {a..b} \<longleftrightarrow> unat a \<le> unat x \<and> unat x \<le> unat b" for x :: u32
  by (simp add: u32_nat)

end
