(* ===== verification/Segments_Spec.thy ===== *)
theory Segments_Spec
  imports Dtp_Prelude
begin

text \<open>
  Abstract specification of the bookkeeping of received packets. A segment is a closed interval
  of packet numbers, the closed segments are a list of them, and the segment being extended is
  optional. The operations below say what the linked-list code of
  \<open>src/dtp_client_posix_segments_utils.c\<close> computes, without pointers; the theory \<open>Segments\<close> holds
  the code itself and the proof that it refines this specification. The lemmas show which
  packet numbers the result stands for (\<open>covered\<close>) and in which shape (\<open>ordered\<close>).
\<close>

section \<open>Segments and what they stand for\<close>

type_synonym seg = "u32 \<times> u32"

definition seg_set :: "seg \<Rightarrow> u32 set" where
  "seg_set c = {fst c..snd c}"

definition covered :: "seg list \<Rightarrow> u32 set" where
  "covered xs = (\<Union>c\<in>set xs. seg_set c)"

text \<open>The closed segments together with the open one.\<close>

definition all_segs :: "seg list \<times> seg option \<Rightarrow> seg list" where
  "all_segs st = fst st @ (case snd st of None \<Rightarrow> [] | Some c \<Rightarrow> [c])"

text \<open>
  Normal form: non-empty intervals, in increasing order, with at least one missing packet
  between two neighbours, and none ending at the largest packet number.
\<close>

fun ordered :: "seg list \<Rightarrow> bool" where
  "ordered [] \<longleftrightarrow> True"
| "ordered [c] \<longleftrightarrow> fst c \<le> snd c \<and> snd c \<noteq> UINT32_MAX"
| "ordered (c # d # xs) \<longleftrightarrow>
     fst c \<le> snd c \<and> snd c \<noteq> UINT32_MAX \<and> snd c + 1 < fst d \<and> ordered (d # xs)"

section \<open>Operations\<close>

fun append_spec :: "seg list \<Rightarrow> seg \<Rightarrow> seg list" where
  "append_spec [] c = [c]"
| "append_spec (r # rs) c =
     (if fst r \<le> fst c \<and> fst c \<le> snd r then
        (if snd r \<le> snd c then (fst r, snd c) # rs else r # append_spec rs c)
      else if fst c \<le> fst r \<and> fst r \<le> snd c then (fst c, snd r) # rs
      else r # append_spec rs c)"

definition range_spec :: "seg list \<times> seg option \<Rightarrow> seg \<Rightarrow> seg list \<times> seg option" where
  "range_spec st c =
     (case snd st of
        None \<Rightarrow> (fst st, Some c)
      | Some d \<Rightarrow>
          if fst c \<le> snd d + 1 then
            (if snd c \<le> snd d then st else (fst st, Some (fst d, snd c)))
          else (append_spec (fst st) d, Some c))"

definition close_spec :: "seg list \<times> seg option \<Rightarrow> seg list" where
  "close_spec st = (case snd st of None \<Rightarrow> fst st | Some d \<Rightarrow> append_spec (fst st) d)"

text \<open>The pass of \<open>get_complement_segment\<close> over the list: (segment start, segment end, result).\<close>

fun compl_scan :: "u32 \<Rightarrow> u32 \<Rightarrow> seg list \<Rightarrow> u32 \<times> u32 \<times> seg list \<Rightarrow> u32 \<times> u32 \<times> seg list" where
  "compl_scan lo hi [] acc = acc"
| "compl_scan lo hi (r # rs) (ss, se, out) =
     (if fst r = lo \<and> snd r + 1 < hi then compl_scan lo hi rs (snd r + 1, se, out)
      else if 0 < fst r \<and> ss \<le> fst r - 1 then
        compl_scan lo hi rs (snd r + 1, fst r - 1, append_spec out (ss, fst r - 1))
      else compl_scan lo hi rs (ss, se, out))"

definition compl_spec :: "seg list \<Rightarrow> u32 \<Rightarrow> u32 \<Rightarrow> seg list" where
  "compl_spec xs lo hi =
     (case compl_scan lo hi xs (0, 0, []) of
        (ss, se, out) \<Rightarrow> if ss < hi \<and> se < ss then append_spec out (ss, hi) else out)"

fun merge_order :: "seg list \<Rightarrow> seg list \<Rightarrow> seg list" where
  "merge_order [] ys = ys"
| "merge_order xs [] = xs"
| "merge_order (x # xs) (y # ys) =
     (if fst x < fst y then x # merge_order xs (y # ys) else y # merge_order (x # xs) ys)"

definition merge_spec :: "seg list \<Rightarrow> seg list \<Rightarrow> seg list" where
  "merge_spec xs ys = close_spec (foldl range_spec ([], None) (merge_order xs ys))"

section \<open>Coverage\<close>

lemma covered_Nil [simp]: "covered [] = {}"
  by (simp add: covered_def)

lemma covered_Cons [simp]: "covered (c # xs) = seg_set c \<union> covered xs"
  by (simp add: covered_def)

lemma covered_append [simp]: "covered (xs @ ys) = covered xs \<union> covered ys"
  by (simp add: covered_def)

lemma seg_set_iff [simp]: "x \<in> seg_set c \<longleftrightarrow> fst c \<le> x \<and> x \<le> snd c"
  by (simp add: seg_set_def)

lemma all_segs_simps [simp]:
  "all_segs (xs, None) = xs" "all_segs (xs, Some c) = xs @ [c]"
  by (simp_all add: all_segs_def)

text \<open>Merging into the list never invents a packet.\<close>

lemma append_spec_sound: "covered (append_spec xs c) \<subseteq> covered xs \<union> seg_set c"
  by (induction xs c rule: append_spec.induct) auto

lemma append_spec_keeps: "covered xs \<subseteq> covered (append_spec xs c)"
  by (induction xs c rule: append_spec.induct) auto

lemma range_spec_sound:
  "covered (all_segs (range_spec st c)) \<subseteq> covered (all_segs st) \<union> seg_set c"
proof (cases "snd st")
  case None
  then show ?thesis by (cases st) (auto simp: range_spec_def)
next
  case (Some d)
  obtain xs where st: "st = (xs, Some d)" using Some by (cases st) simp
  show ?thesis
  proof (cases "fst c \<le> snd d + 1")
    case True
    show ?thesis
      using True by (auto simp: st range_spec_def)
        (metis (no_types, lifting) add.commute inc_le le_less_trans linorder_not_le order.trans)
  next
    case False
    then show ?thesis
      using append_spec_sound [of xs d] by (auto simp: st range_spec_def)
  qed
qed

lemma close_spec_sound: "covered (close_spec st) \<subseteq> covered (all_segs st)"
  by (cases st; cases "snd st")
    (use append_spec_sound in \<open>auto simp: close_spec_def\<close>)

section \<open>The normal form\<close>

lemma ordered_Cons:
  "ordered (c # xs) \<longleftrightarrow>
     fst c \<le> snd c \<and> snd c \<noteq> UINT32_MAX \<and> (xs = [] \<or> snd c + 1 < fst (hd xs)) \<and> ordered xs"
  by (cases xs) auto

lemma ordered_snoc:
  "ordered (xs @ [c]) \<longleftrightarrow>
     ordered xs \<and> fst c \<le> snd c \<and> snd c \<noteq> UINT32_MAX \<and> (xs = [] \<or> snd (last xs) + 1 < fst c)"
  by (induction xs) (auto simp: ordered_Cons hd_append)

lemma less_of_succ_less: "a \<noteq> UINT32_MAX \<Longrightarrow> a + 1 < b \<Longrightarrow> a < b" for a b :: u32
  using unat_add1_u32 [of a] by (simp add: u32_nat)

lemma ordered_below:
  "ordered (xs @ [c]) \<Longrightarrow> d \<in> set xs \<Longrightarrow> snd d < fst c"
proof (induction xs arbitrary: d)
  case (Cons x xs)
  show ?case
  proof (cases "d = x")
    case True
    from Cons.prems have x: "snd x \<noteq> UINT32_MAX" "snd x + 1 < fst (hd (xs @ [c]))" "ordered (xs @ [c])"
      by (auto simp: ordered_Cons)
    show ?thesis
    proof (cases xs)
      case Nil
      with x True show ?thesis by (simp add: less_of_succ_less)
    next
      case (Cons y ys)
      with x have "snd x < fst y" by (simp add: less_of_succ_less)
      moreover have "fst y \<le> snd y" using x(3) Cons by (auto simp: ordered_Cons)
      moreover have "snd y < fst c" using Cons.IH [of y] x(3) \<open>xs = y # ys\<close> by simp
      ultimately show ?thesis using True by (meson le_less_trans less_trans)
    qed
  next
    case False
    with Cons show ?thesis by (auto simp: ordered_Cons)
  qed
qed simp

lemma ordered_valid: "ordered xs \<Longrightarrow> d \<in> set xs \<Longrightarrow> fst d \<le> snd d \<and> snd d \<noteq> UINT32_MAX"
  by (induction xs) (auto simp: ordered_Cons)

lemma append_spec_above:
  "(\<And>d. d \<in> set xs \<Longrightarrow> fst d \<le> snd d \<and> snd d < fst c) \<Longrightarrow> append_spec xs c = xs @ [c]"
proof (induction xs)
  case (Cons r rs)
  then have "fst r \<le> snd r" "snd r < fst c" by auto
  then have "\<not> fst c \<le> snd r" "\<not> fst c \<le> fst r"
    by (simp_all add: not_le le_less_trans)
  with Cons show ?case by auto
qed simp

lemma append_spec_ordered: "ordered (xs @ [c]) \<Longrightarrow> append_spec xs c = xs @ [c]"
  by (rule append_spec_above) (meson ordered_below ordered_snoc ordered_valid)

lemma close_spec_ordered: "ordered (all_segs st) \<Longrightarrow> close_spec st = all_segs st"
  by (cases st; cases "snd st") (auto simp: close_spec_def append_spec_ordered)

text \<open>
  A range that starts at or after the open segment is recorded exactly, and the normal form is
  kept. This is the case of packets that arrive in the order they were sent.
\<close>

lemma succ_le_u32: "b \<noteq> UINT32_MAX \<Longrightarrow> a \<le> b + 1 \<longleftrightarrow> a \<le> b \<or> a = b + 1" for a b :: u32
  using unat_add1_u32 [of b] by (auto simp: u32_nat)

lemma seg_set_extend:
  assumes "fst d \<le> fst c" "fst c \<le> snd d + 1" "snd d < snd c" "snd d \<noteq> UINT32_MAX"
  shows "seg_set (fst d, snd c) = seg_set d \<union> seg_set c"
  using assms unat_add1_u32 [of "snd d"]
  by (auto simp: seg_set_def u32_nat)

lemma range_spec_in_order:
  assumes "ordered (xs @ [d])" and "fst d \<le> fst c" and "fst c \<le> snd c" and "snd c \<noteq> UINT32_MAX"
  shows "\<exists>ys d'. range_spec (xs, Some d) c = (ys, Some d') \<and> ordered (ys @ [d']) \<and>
           fst d' \<le> fst c \<and> covered (ys @ [d']) = covered (xs @ [d]) \<union> seg_set c"
proof (cases "fst c \<le> snd d + 1")
  case near: True
  have d: "snd d \<noteq> UINT32_MAX" "fst d \<le> snd d" using assms(1) by (auto simp: ordered_snoc)
  show ?thesis
  proof (cases "snd c \<le> snd d")
    case True
    with near assms show ?thesis
      by (auto simp: range_spec_def ordered_snoc intro: order_trans)
  next
    case False
    then have "seg_set (fst d, snd c) = seg_set d \<union> seg_set c"
      using seg_set_extend near assms(2) d by (simp add: not_le)
    moreover have "fst d \<le> snd c" using assms by (meson order_trans)
    ultimately show ?thesis using near False assms by (auto simp: range_spec_def ordered_snoc)
  qed
next
  case False
  then have "range_spec (xs, Some d) c = (xs @ [d], Some c)"
    using assms(1) by (simp add: range_spec_def append_spec_ordered)
  moreover have "ordered ((xs @ [d]) @ [c])"
    unfolding ordered_snoc [of "xs @ [d]"] using assms False by (simp add: not_le)
  ultimately show ?thesis by auto
qed

lemma foldl_range_in_order:
  assumes "ordered (xs @ [d])"
    and "sorted_wrt (\<lambda>a b. fst a \<le> fst b) (d # cs)"
    and "\<And>c. c \<in> set cs \<Longrightarrow> fst c \<le> snd c \<and> snd c \<noteq> UINT32_MAX"
  shows "\<exists>ys d'. foldl range_spec (xs, Some d) cs = (ys, Some d') \<and> ordered (ys @ [d']) \<and>
           covered (ys @ [d']) = covered (xs @ [d]) \<union> covered cs"
  using assms
proof (induction cs arbitrary: xs d)
  case (Cons c cs)
  then obtain ys d' where step: "range_spec (xs, Some d) c = (ys, Some d')" "ordered (ys @ [d'])"
      "fst d' \<le> fst c" "covered (ys @ [d']) = covered (xs @ [d]) \<union> seg_set c"
    using range_spec_in_order [of xs d c] by auto
  have "sorted_wrt (\<lambda>a b. fst a \<le> fst b) (d' # cs)"
    using Cons.prems(2) step(3) by (auto intro: order_trans)
  from Cons.IH [OF step(2) this] Cons.prems(3) obtain zs e where
    "foldl range_spec (ys, Some d') cs = (zs, Some e)" "ordered (zs @ [e])"
    "covered (zs @ [e]) = covered (ys @ [d']) \<union> covered cs" by auto
  with step show ?case by (auto simp: Un_assoc)
qed simp

theorem foldl_range_exact:
  assumes "sorted_wrt (\<lambda>a b. fst a \<le> fst b) cs"
    and "\<And>c. c \<in> set cs \<Longrightarrow> fst c \<le> snd c \<and> snd c \<noteq> UINT32_MAX"
  shows "ordered (close_spec (foldl range_spec ([], None) cs))"
    and "covered (close_spec (foldl range_spec ([], None) cs)) = covered cs"
proof -
  have *: "ordered (close_spec (foldl range_spec ([], None) cs)) \<and>
        covered (close_spec (foldl range_spec ([], None) cs)) = covered cs"
  proof (cases cs)
    case (Cons c ds)
    then have "ordered ([] @ [c])" using assms(2) by simp
    from foldl_range_in_order [OF this, of ds] assms Cons show ?thesis
      by (auto simp: range_spec_def close_spec_ordered)
  qed (simp add: close_spec_def)
  then show "ordered (close_spec (foldl range_spec ([], None) cs))"
    "covered (close_spec (foldl range_spec ([], None) cs)) = covered cs" by simp_all
qed

section \<open>Merging two lists\<close>

lemma merge_order_Nil2 [simp]: "merge_order xs [] = xs"
  by (cases xs) simp_all

lemma set_merge_order [simp]: "set (merge_order xs ys) = set xs \<union> set ys"
  by (induction xs ys rule: merge_order.induct) auto

lemma covered_merge_order [simp]: "covered (merge_order xs ys) = covered xs \<union> covered ys"
  by (auto simp: covered_def)

lemma merge_order_sorted:
  "sorted_wrt (\<lambda>a b. fst a \<le> fst b) xs \<Longrightarrow> sorted_wrt (\<lambda>a b. fst a \<le> fst b) ys \<Longrightarrow>
   sorted_wrt (\<lambda>a b. fst a \<le> fst b) (merge_order xs ys)"
  by (induction xs ys rule: merge_order.induct) (auto intro: order_trans less_imp_le)

lemma ordered_imp_sorted: "ordered xs \<Longrightarrow> sorted_wrt (\<lambda>a b. fst a \<le> fst b) xs"
proof (induction xs rule: rev_induct)
  case (snoc c xs)
  have "fst d \<le> fst c" if "d \<in> set xs" for d
    using ordered_below [OF snoc.prems that] ordered_valid [OF snoc.prems, of d] that by auto
  with snoc show ?case by (auto simp: sorted_wrt_append ordered_snoc)
qed simp

theorem merge_spec_exact:
  assumes "ordered xs" and "ordered ys"
  shows "ordered (merge_spec xs ys)" and "covered (merge_spec xs ys) = covered xs \<union> covered ys"
proof -
  have srt: "sorted_wrt (\<lambda>a b. fst a \<le> fst b) (merge_order xs ys)"
    by (intro merge_order_sorted ordered_imp_sorted assms)
  have val: "fst c \<le> snd c \<and> snd c \<noteq> UINT32_MAX" if "c \<in> set (merge_order xs ys)" for c
    using that assms ordered_valid [of xs c] ordered_valid [of ys c] by auto
  show "ordered (merge_spec xs ys)"
    unfolding merge_spec_def using srt val by (rule foldl_range_exact(1))
  show "covered (merge_spec xs ys) = covered xs \<union> covered ys"
    unfolding merge_spec_def using foldl_range_exact(2) [OF srt val] by simp
qed

section \<open>Complement\<close>

text \<open>
  The gaps between the segments of a list in normal form, starting at \<open>ss\<close>. The scan of
  \<open>get_complement_segment\<close> emits exactly these once it is past the first segment.
\<close>

fun gaps :: "u32 \<Rightarrow> seg list \<Rightarrow> seg list" where
  "gaps ss [] = []"
| "gaps ss (r # rs) = (ss, fst r - 1) # gaps (snd r + 1) rs"

lemma succ_less_iff: "a \<noteq> UINT32_MAX \<Longrightarrow> a + 1 < b \<longleftrightarrow> unat a + 1 < unat b" for a b :: u32
  using unat_add1_u32 [of a] by (simp add: u32_nat)

lemma compl_scan_gaps:
  assumes "ordered (d # rs)" and "se < snd d + 1"
    and "\<And>c. c \<in> set out \<Longrightarrow> fst c \<le> snd c \<and> snd c < snd d + 1"
  shows "\<exists>se'. compl_scan 0 hi rs (snd d + 1, se, out) =
           (snd (last (d # rs)) + 1, se', out @ gaps (snd d + 1) rs) \<and>
           se' < snd (last (d # rs)) + 1 \<and>
           (\<forall>c\<in>set (out @ gaps (snd d + 1) rs). fst c \<le> snd c \<and> snd c < snd (last (d # rs)) + 1)"
  using assms
proof (induction rs arbitrary: d se out)
  case (Cons r rs)
  have d: "snd d \<noteq> UINT32_MAX" "unat (snd d) + 1 < unat (fst r)"
    and r: "fst r \<le> snd r" "snd r \<noteq> UINT32_MAX" "ordered (r # rs)"
    using Cons.prems(1) by (auto simp: ordered_Cons succ_less_iff)
  have n: "unat (snd d + 1) = Suc (unat (snd d))" "unat (snd r + 1) = Suc (unat (snd r))"
      "unat (fst r - 1) = unat (fst r) - 1"
    using d r unat_add1_u32 unat_sub1_u32 [of "fst r"] by (auto simp: u32_nat)
  have gap: "snd d + 1 \<le> fst r - 1" "fst r - 1 < snd r + 1" "0 < fst r" "fst r \<noteq> 0"
    using d r(1) n by (auto simp: u32_nat)
  have out: "append_spec out (snd d + 1, fst r - 1) = out @ [(snd d + 1, fst r - 1)]"
    using Cons.prems(3) by (intro append_spec_above) auto
  have below: "fst c \<le> snd c \<and> snd c < snd r + 1"
    if "c \<in> set (out @ [(snd d + 1, fst r - 1)])" for c
    using that Cons.prems(3) [of c] gap by (auto intro: order_less_trans)
  obtain se' where IH: "compl_scan 0 hi rs (snd r + 1, fst r - 1, out @ [(snd d + 1, fst r - 1)]) =
      (snd (last (r # rs)) + 1, se', (out @ [(snd d + 1, fst r - 1)]) @ gaps (snd r + 1) rs)"
      "se' < snd (last (r # rs)) + 1"
      "\<forall>c\<in>set ((out @ [(snd d + 1, fst r - 1)]) @ gaps (snd r + 1) rs).
         fst c \<le> snd c \<and> snd c < snd (last (r # rs)) + 1"
    using Cons.IH [OF r(3) gap(2), of "out @ [(snd d + 1, fst r - 1)]"] below by blast
  have "compl_scan 0 hi (r # rs) (snd d + 1, se, out) =
      compl_scan 0 hi rs (snd r + 1, fst r - 1, out @ [(snd d + 1, fst r - 1)])"
    using gap out by simp
  with IH show ?case by simp
qed simp

lemma ordered_Cons_above: "ordered (r # rs) \<Longrightarrow> c \<in> set rs \<Longrightarrow> snd r < fst c"
proof (induction rs arbitrary: r)
  case (Cons y ys)
  then have "snd r < fst y" "fst y \<le> snd y"
    by (auto simp: ordered_Cons intro: less_of_succ_less)
  moreover have "snd y < fst c" if "c \<noteq> y"
    using Cons that by (auto simp: ordered_Cons [of r])
  ultimately show ?case by (cases "c = y") auto
qed simp

lemma succ_le_iff_u32: "a \<noteq> UINT32_MAX \<Longrightarrow> a + 1 \<le> b \<longleftrightarrow> a < b" for a b :: u32
  using unat_add1_u32 [of a] by (auto simp: u32_nat)

lemma le_pred_iff_u32: "0 < b \<Longrightarrow> a \<le> b - 1 \<longleftrightarrow> a < b" for a b :: u32
  using unat_sub1_u32 [of b] by (auto simp: u32_nat)

lemma ordered_last_ge: "ordered (r # rs) \<Longrightarrow> snd r \<le> snd (last (r # rs))"
  using ordered_Cons_above [of r rs "last rs"] ordered_valid [of rs "last rs"]
  by (cases "rs = []") (auto simp: ordered_Cons)

lemma ordered_covered_le: "ordered (r # rs) \<Longrightarrow> x \<in> covered rs \<Longrightarrow> x \<le> snd (last (r # rs))"
proof (induction rs arbitrary: r)
  case (Cons y ys)
  then have "ordered (y # ys)" by (auto simp: ordered_Cons)
  with Cons.IH [of y] Cons.prems(2) ordered_last_ge [of y ys] show ?case by auto
qed simp

lemma covered_gaps:
  "ordered (d # rs) \<Longrightarrow>
   x \<in> covered (gaps (snd d + 1) rs) \<longleftrightarrow>
     snd d < x \<and> x \<le> snd (last (d # rs)) \<and> x \<notin> covered rs"
proof (induction rs arbitrary: d)
  case (Cons r rs)
  have d: "snd d \<noteq> UINT32_MAX" "snd d < fst r"
    and r: "fst r \<le> snd r" "snd r \<noteq> UINT32_MAX" "ordered (r # rs)"
    using Cons.prems by (auto simp: ordered_Cons intro: less_of_succ_less)
  have "0 < fst r" using d(2) by (simp add: u32_nat)
  then have gap: "snd d + 1 \<le> x \<and> x \<le> fst r - 1 \<longleftrightarrow> snd d < x \<and> x < fst r"
    using d by (simp add: succ_le_iff_u32 le_pred_iff_u32)
  have above: "snd r < x" if "x \<in> covered rs"
    using that ordered_Cons_above [OF r(3)] by (auto simp: covered_def intro: order.strict_trans2)
  have last: "snd r \<le> snd (last (r # rs))"
    using r(3) by (rule ordered_last_ge)
  show ?case
    unfolding gaps.simps covered_Cons Un_iff seg_set_iff fst_conv snd_conv gap Cons.IH [OF r(3)]
    using d(2) r(1) above last by (auto simp: not_le)
qed auto

text \<open>
  What the complement of a non-empty list in normal form stands for: the missing packets up to
  \<open>hi\<close>, except that \<open>hi\<close> itself is left out when the last segment ends right before it.
\<close>

lemma compl_spec_Cons:
  assumes "ordered (r # rs)" and "fst r = 0 \<Longrightarrow> snd r + 1 < hi"
  shows "compl_spec (r # rs) 0 hi =
    ((if fst r = 0 then [] else [(0, fst r - 1)]) @ gaps (snd r + 1) rs @
     (if snd (last (r # rs)) + 1 < hi then [(snd (last (r # rs)) + 1, hi)] else []))"
proof -
  let ?out = "if fst r = 0 then [] else [(0, fst r - 1)]"
  let ?se = "if fst r = 0 then 0 else fst r - 1"
  have r: "fst r \<le> snd r" "snd r \<noteq> UINT32_MAX" using assms(1) by (auto simp: ordered_Cons)
  have n: "unat (snd r + 1) = Suc (unat (snd r))" using r unat_add1_u32 by blast
  have pred: "fst r - 1 < snd r + 1" if "fst r \<noteq> 0"
    using r n unat_sub1_u32 [of "fst r"] that by (auto simp: u32_nat)
  have se: "?se < snd r + 1" using n pred by (auto simp: u32_nat)
  have out: "fst c \<le> snd c \<and> snd c < snd r + 1" if "c \<in> set ?out" for c
    using that pred by (auto split: if_splits)
  obtain se' where scan: "compl_scan 0 hi rs (snd r + 1, ?se, ?out) =
      (snd (last (r # rs)) + 1, se', ?out @ gaps (snd r + 1) rs)" "se' < snd (last (r # rs)) + 1"
    and above: "\<forall>c\<in>set (?out @ gaps (snd r + 1) rs). fst c \<le> snd c \<and> snd c < snd (last (r # rs)) + 1"
    using compl_scan_gaps [OF assms(1) se out] by blast
  have first: "compl_scan 0 hi (r # rs) (0, 0, []) = compl_scan 0 hi rs (snd r + 1, ?se, ?out)"
    using assms(2) by (auto simp: word_gt_0)
  have app: "append_spec (?out @ gaps (snd r + 1) rs) (snd (last (r # rs)) + 1, hi) =
      (?out @ gaps (snd r + 1) rs) @ [(snd (last (r # rs)) + 1, hi)]"
    using above by (intro append_spec_above) (simp only: fst_conv)
  show ?thesis
    unfolding compl_spec_def first scan(1) prod.case app using scan(2) by simp
qed

lemma first_reaches_end:
  assumes "ordered (r # rs)" and "snd (last (r # rs)) \<le> hi" and "fst r = 0" and "\<not> snd r + 1 < hi"
  shows "rs = []"
proof (rule ccontr)
  assume "rs \<noteq> []"
  then have "snd r + 1 < fst (hd rs)" "fst (hd rs) \<le> snd (hd rs)" "snd (hd rs) \<le> snd (last rs)"
    using assms(1) ordered_last_ge [of "hd rs" "tl rs"] by (cases rs; auto simp: ordered_Cons)+
  with assms(2,4) \<open>rs \<noteq> []\<close> show False by simp
qed

lemma covered_compl_spec:
  assumes "ordered (r # rs)" and "snd (last (r # rs)) \<le> hi"
  shows "covered (compl_spec (r # rs) 0 hi) =
    {0..hi} - covered (r # rs) - (if snd (last (r # rs)) + 1 = hi then {hi} else {})"
proof (cases "fst r = 0 \<longrightarrow> snd r + 1 < hi")
  case True
  let ?l = "snd (last (r # rs))"
  have r: "fst r \<le> snd r" "snd r \<noteq> UINT32_MAX" using assms(1) by (auto simp: ordered_Cons)
  have l: "?l \<noteq> UINT32_MAX" "snd r \<le> ?l"
    using ordered_valid [OF assms(1), of "last (r # rs)"] ordered_last_ge [OF assms(1)] by auto
  have above: "snd r < x" if "x \<in> covered rs" for x
    using that ordered_Cons_above [OF assms(1)] by (auto simp: covered_def intro: order.strict_trans2)
  have last: "x \<le> ?l" if "x \<in> covered rs" for x
    using assms(1) that by (rule ordered_covered_le)
  show ?thesis
  proof (rule set_eqI)
    fix x
    have tail: "?l + 1 < hi \<and> ?l + 1 \<le> x \<and> x \<le> hi \<longleftrightarrow> ?l < x \<and> x \<le> hi \<and> \<not> (?l + 1 = hi \<and> x = hi)"
      using l(1) unat_add1_u32 [of ?l] by (auto simp: u32_nat)
    have head: "fst r \<noteq> 0 \<and> x \<le> fst r - 1 \<longleftrightarrow> x < fst r"
      using le_pred_iff_u32 [of "fst r" x] by (cases "fst r = 0") (auto simp: word_gt_0)
    have "x \<in> covered (compl_spec (r # rs) 0 hi) \<longleftrightarrow>
      (fst r \<noteq> 0 \<and> x \<le> fst r - 1) \<or> x \<in> covered (gaps (snd r + 1) rs) \<or>
      (?l + 1 < hi \<and> ?l + 1 \<le> x \<and> x \<le> hi)"
      using compl_spec_Cons [OF assms(1), of hi] True by auto
    then have "x \<in> covered (compl_spec (r # rs) 0 hi) \<longleftrightarrow>
      x < fst r \<or> (snd r < x \<and> x \<le> ?l \<and> x \<notin> covered rs) \<or>
      (?l < x \<and> x \<le> hi \<and> \<not> (?l + 1 = hi \<and> x = hi))"
      unfolding head tail covered_gaps [OF assms(1)] .
    also have "\<dots> \<longleftrightarrow> x \<in> {0..hi} - covered (r # rs) - (if ?l + 1 = hi then {hi} else {})"
      using r(1) l above [of x] last [of x] assms(2) unat_add1_u32 [OF l(1)] by (auto simp: u32_nat)
    finally show "x \<in> covered (compl_spec (r # rs) 0 hi) \<longleftrightarrow>
       x \<in> {0..hi} - covered (r # rs) - (if ?l + 1 = hi then {hi} else {})" .
  qed
next
  case False
  then have f: "fst r = 0" "\<not> snd r + 1 < hi" by auto
  have r: "snd r \<noteq> UINT32_MAX" using assms(1) by (auto simp: ordered_Cons)
  have "rs = []" using first_reaches_end [OF assms f] .
  then show ?thesis
    using f assms(2) r unat_add1_u32 [of "snd r"]
    by (auto simp: compl_spec_def seg_set_def u32_nat)
qed

text \<open>The missing ranges follow each other in increasing order.\<close>

definition rising :: "seg list \<Rightarrow> bool" where
  "rising cs \<longleftrightarrow> (\<forall>c \<in> set cs. fst c \<le> snd c) \<and> sorted_wrt (\<lambda>a b. snd a < fst b) cs"

lemma rising_simps [simp]:
  "rising []" "rising (c # cs) \<longleftrightarrow> fst c \<le> snd c \<and> (\<forall>d \<in> set cs. snd c < fst d) \<and> rising cs"
  by (auto simp: rising_def)

lemma rising_append: "rising (xs @ ys) \<longleftrightarrow> rising xs \<and> rising ys \<and> (\<forall>x \<in> set xs. \<forall>y \<in> set ys. snd x < fst y)"
  by (auto simp: rising_def sorted_wrt_append)

lemma rising_gaps:
  "ordered (d # rs) \<Longrightarrow> rising (gaps (snd d + 1) rs) \<and>
     (\<forall>c \<in> set (gaps (snd d + 1) rs). snd d < fst c \<and> snd c < snd (last (d # rs)))"
proof (induction rs arbitrary: d)
  case (Cons r rs)
  have d: "snd d \<noteq> UINT32_MAX" "unat (snd d) + 1 < unat (fst r)"
    and r: "fst r \<le> snd r" "snd r \<noteq> UINT32_MAX" "ordered (r # rs)"
    using Cons.prems by (auto simp: ordered_Cons succ_less_iff)
  have gap: "snd d + 1 \<le> fst r - 1" "snd d < snd d + 1" "fst r - 1 < snd r" "snd d < snd r"
    using d r(1) unat_add1_u32 [OF d(1)] unat_sub1_u32 [of "fst r"] by (auto simp: u32_nat)
  have l: "snd r \<le> snd (last (r # rs))" using r(3) by (rule ordered_last_ge)
  note IH = Cons.IH [OF r(3)]
  have "fst r - 1 < fst c \<and> snd d < fst c" if "c \<in> set (gaps (snd r + 1) rs)" for c
    using IH gap that by (auto intro: less_trans)
  moreover have "fst r - 1 < snd (last (r # rs))" using gap(3) l by (rule less_le_trans)
  ultimately show ?case using IH gap(1,2) by simp
qed simp

lemma rising_compl_spec:
  assumes "ordered (r # rs)" and "fst r = 0 \<longrightarrow> snd r + 1 < hi"
  shows "rising (compl_spec (r # rs) 0 hi)"
proof -
  let ?l = "snd (last (r # rs))"
  have r: "fst r \<le> snd r" using assms(1) by (auto simp: ordered_Cons)
  have l: "?l \<noteq> UINT32_MAX" using ordered_valid [OF assms(1), of "last (r # rs)"] by auto
  then have l1: "?l < ?l + 1" using unat_add1_u32 [of ?l] by (simp add: u32_nat)
  have f: "fst r - 1 < snd r \<or> fst r = 0" using r unat_sub1_u32 [of "fst r"] by (cases "fst r = 0") (auto simp: u32_nat)
  have le: "snd r \<le> ?l" using assms(1) by (rule ordered_last_ge)
  note g = rising_gaps [OF assms(1)]
  have "fst r - 1 < fst c \<and> snd c < ?l + 1" if "c \<in> set (gaps (snd r + 1) rs)" "fst r \<noteq> 0" for c
    using g f l1 that by (auto intro: less_trans)
  moreover have "snd c < ?l + 1" if "c \<in> set (gaps (snd r + 1) rs)" for c
    using g l1 that by (auto intro: less_trans)
  moreover have "fst r - 1 < ?l + 1" if "fst r \<noteq> 0" using f le l1 that by (auto intro: less_trans less_le_trans)
  moreover have "compl_spec (r # rs) 0 hi = (if fst r = 0 then [] else [(0, fst r - 1)]) @ gaps (snd r + 1) rs @
      (if ?l + 1 < hi then [(?l + 1, hi)] else [])"
    by (rule compl_spec_Cons [OF assms(1)]) (use assms(2) in simp)
  ultimately show ?thesis using g by (simp add: rising_append less_imp_le)
qed

lemma rising_missing:
  assumes "ordered xs" and "xs \<noteq> []" and "snd (last xs) \<le> hi"
  shows "rising (compl_spec xs 0 hi)"
proof -
  obtain r rs where xs: "xs = r # rs" using assms(2) by (cases xs) auto
  show ?thesis
  proof (cases "fst r = 0 \<longrightarrow> snd r + 1 < hi")
    case True
    with assms(1) show ?thesis unfolding xs by (rule rising_compl_spec)
  next
    case False
    then have "rs = []" using first_reaches_end [of r rs hi] assms xs by blast
    with False show ?thesis by (simp add: xs compl_spec_def)
  qed
qed

text \<open>The normal form of a record is determined by the numbers it stands for.\<close>

lemma ordered_head:
  assumes "ordered (x # xs)"
  shows "fst x \<in> covered (x # xs)" and "k \<in> covered (x # xs) \<Longrightarrow> fst x \<le> k" and "snd x + 1 \<notin> covered (x # xs)"
    and "covered (x # xs) - seg_set x = covered xs"
proof -
  have x: "fst x \<le> snd x" "snd x \<noteq> UINT32_MAX" using assms by (auto simp: ordered_Cons)
  have ab: "snd x < fst r" if "r \<in> set xs" for r using ordered_Cons_above [OF assms that] .
  show "fst x \<in> covered (x # xs)" using x(1) by simp
  show "k \<in> covered (x # xs) \<Longrightarrow> fst x \<le> k" using x(1) ab by (fastforce simp: covered_def)
  show "covered (x # xs) - seg_set x = covered xs" using ab by (fastforce simp: covered_def)
  have "snd x + 1 \<notin> covered xs"
  proof (cases xs)
    case (Cons y ys)
    have y: "snd x + 1 < fst y" "ordered (y # ys)" using assms Cons by (auto simp: ordered_Cons)
    have "fst y \<le> snd y" using y(2) by (auto simp: ordered_Cons)
    with y(1) ordered_Cons_above [OF y(2)] show ?thesis by (fastforce simp: Cons covered_def)
  qed simp
  moreover have "\<not> snd x + 1 \<le> snd x" using x(2) by (simp add: succ_le_iff_u32)
  ultimately show "snd x + 1 \<notin> covered (x # xs)" by simp
qed

lemma same_start_end:
  fixes a b :: seg
  assumes "fst a = fst b" and "fst a \<le> snd a" and "fst b \<le> snd b" and "snd a \<noteq> UINT32_MAX" and "snd b \<noteq> UINT32_MAX"
    and "snd a + 1 \<notin> seg_set b" and "snd b + 1 \<notin> seg_set a"
  shows "a = b"
proof -
  have "fst b \<le> snd a + 1" "fst a \<le> snd b + 1" using assms(1-5) by (auto simp: succ_le_u32)
  then have "\<not> snd a < snd b" "\<not> snd b < snd a"
    using assms(4-7) by (auto simp: succ_le_iff_u32)
  with assms(1) show ?thesis by (simp add: prod_eq_iff)
qed

lemma ordered_unique: "ordered xs \<Longrightarrow> ordered ys \<Longrightarrow> covered xs = covered ys \<Longrightarrow> xs = ys"
proof (induction xs arbitrary: ys)
  case Nil
  then show ?case using ordered_head(1) [of "hd ys" "tl ys"] by (cases ys) auto
next
  case (Cons x xs)
  have "covered ys \<noteq> {}" using ordered_head(1) [OF Cons.prems(1)] Cons.prems(3) by blast
  then obtain y zs where ys: "ys = y # zs" by (cases ys) auto
  have o: "ordered (y # zs)" "covered (x # xs) = covered (y # zs)" using Cons.prems(2,3) ys by simp_all
  note hx = ordered_head [OF Cons.prems(1)] and hy = ordered_head [OF o(1)]
  have f: "fst x = fst y" using hx(1,2) hy(1,2) unfolding o(2) by (intro antisym)
  have v: "fst x \<le> snd x" "fst y \<le> snd y" "snd x \<noteq> UINT32_MAX" "snd y \<noteq> UINT32_MAX"
    using Cons.prems(1) o(1) by (auto simp: ordered_Cons)
  have "snd x + 1 \<notin> seg_set y" "snd y + 1 \<notin> seg_set x"
    using hx(3) hy(3) o(2) covered_Cons [of x xs] covered_Cons [of y zs] by blast+
  then have "x = y" using same_start_end [OF f v] by blast
  moreover have "ordered xs" "ordered zs" using Cons.prems(1) o(1) by (auto simp: ordered_Cons)
  moreover have "covered xs = covered zs" using hx(4) hy(4) o(2) \<open>x = y\<close> by metis
  ultimately show ?case using Cons.IH ys by blast
qed

end
