(* ===== verification/Segments.thy ===== *)
theory Segments
  imports Segments_Spec
begin

text \<open>
  The linked lists of received segments, \<open>src/dtp_client_posix_segments_utils.c\<close>: an explicit
  heap of list nodes with allocation and release, every function of the file over it, and the
  proof that on well-formed contexts the code implements \<open>Segments_Spec\<close>. A run that dereferences
  NULL, touches a released node or never ends is a \<open>c_error\<close>. A walk over a list is given as many
  steps as addresses were ever handed out: a walk that needs more visits some node twice and so,
  as no walk changes a link it has yet to follow, never ends.
\<close>

section \<open>Nodes, contexts and the heap\<close>

type_synonym ptr = nat

abbreviation (input) NULL :: ptr where
  "NULL \<equiv> 0"

record segment_t =
  seg_start :: u32
  seg_end :: u32
  seg_next :: ptr

record segments_ctx_t =
  segments :: ptr
  cur_segment :: ptr
  nof_segments :: u32
  started :: bool

text \<open>
  \<open>nodes\<close> maps the address of every live node to its contents; \<open>brk\<close> is the next address \<open>malloc\<close>
  hands out (addresses are never reused, so a stale pointer stays recognisable); \<open>malloc_ok\<close> says
  which allocations the platform satisfies.
\<close>

record heap =
  nodes :: "ptr \<Rightarrow> segment_t option"
  brk :: nat
  malloc_ok :: "nat \<Rightarrow> bool"

definition load :: "heap \<Rightarrow> ptr \<Rightarrow> segment_t c_result" where
  "load h p = (if p = NULL then Inl Null_Deref
     else case nodes h p of None \<Rightarrow> Inl Use_After_Free | Some n \<Rightarrow> Inr n)"

definition store :: "heap \<Rightarrow> ptr \<Rightarrow> segment_t \<Rightarrow> heap c_result" where
  "store h p n = c_bind (load h p) (\<lambda>_. Inr (h\<lparr>nodes := (nodes h)(p := Some n)\<rparr>))"

definition malloc :: "heap \<Rightarrow> heap \<times> ptr" where
  "malloc h = (if malloc_ok h (brk h)
     then (h\<lparr>nodes := (nodes h)(brk h := Some \<lparr>seg_start = 0, seg_end = 0, seg_next = NULL\<rparr>),
             brk := Suc (brk h)\<rparr>, brk h)
     else (h\<lparr>brk := Suc (brk h)\<rparr>, NULL))"

definition free :: "heap \<Rightarrow> ptr \<Rightarrow> heap c_result" where
  "free h p = (if p = NULL then Inr h
     else case nodes h p of None \<Rightarrow> Inl Bad_Free | Some _ \<Rightarrow> Inr (h\<lparr>nodes := (nodes h)(p := None)\<rparr>))"

text \<open>The three assignments that follow every allocation of a node.\<close>

definition init_node :: "heap \<Rightarrow> ptr \<Rightarrow> u32 \<Rightarrow> u32 \<Rightarrow> heap c_result" where
  "init_node h p s e = store h p \<lparr>seg_start = s, seg_end = e, seg_next = NULL\<rparr>"

section \<open>Recording received packets\<close>

text \<open>\<open>init_segments_ctx\<close>: a zeroed context.\<close>

definition init_segments_ctx :: segments_ctx_t where
  "init_segments_ctx = \<lparr>segments = NULL, cur_segment = NULL, nof_segments = 0, started = False\<rparr>"

text \<open>\<open>append_segment\<close>: the \<open>while (runner)\<close> loop and the function.\<close>

fun append_loop :: "nat \<Rightarrow> heap \<Rightarrow> segments_ctx_t \<Rightarrow> ptr \<Rightarrow> (heap \<times> segments_ctx_t) c_result" where
  "append_loop 0 h ctx runner = Inl Diverges"
| "append_loop (Suc n) h ctx runner =
     (if runner = NULL then Inr (h, ctx)
      else c_bind (load h (cur_segment ctx)) (\<lambda>cur.
           c_bind (load h runner) (\<lambda>r.
        let go_on = (\<lambda>_::unit.
              if seg_next r = NULL then
                c_bind (store h runner (r\<lparr>seg_next := cur_segment ctx\<rparr>)) (\<lambda>h1.
                Inr (h1, ctx\<lparr>nof_segments := nof_segments ctx + 1\<rparr>))
              else append_loop n h ctx (seg_next r))
        in if seg_start cur \<ge> seg_start r \<and> seg_start cur \<le> seg_end r then
             (if seg_end cur \<ge> seg_end r then
                c_bind (store h runner (r\<lparr>seg_end := seg_end cur\<rparr>)) (\<lambda>h1.
                c_bind (free h1 (cur_segment ctx)) (\<lambda>h2.
                Inr (h2, ctx\<lparr>cur_segment := NULL\<rparr>)))
              else go_on ())
           else if seg_start cur \<le> seg_start r \<and> seg_end cur \<ge> seg_start r then
             c_bind (store h runner (r\<lparr>seg_start := seg_start cur\<rparr>)) (\<lambda>h1.
             c_bind (free h1 (cur_segment ctx)) (\<lambda>h2.
             Inr (h2, ctx\<lparr>cur_segment := NULL\<rparr>)))
           else go_on ())))"

definition append_segment :: "heap \<Rightarrow> segments_ctx_t \<Rightarrow> (heap \<times> segments_ctx_t) c_result" where
  "append_segment h ctx =
     (if segments ctx = NULL then
        Inr (h, ctx\<lparr>segments := cur_segment ctx, nof_segments := nof_segments ctx + 1\<rparr>)
      else append_loop (brk h) h ctx (segments ctx))"

definition update_segments_range ::
    "heap \<Rightarrow> segments_ctx_t \<Rightarrow> u32 \<Rightarrow> u32 \<Rightarrow> (heap \<times> segments_ctx_t \<times> bool) c_result" where
  "update_segments_range h ctx s e =
     (if \<not> started ctx then
        (case malloc h of (h1, p) \<Rightarrow>
           let ctx1 = ctx\<lparr>nof_segments := 0, started := True, cur_segment := p\<rparr>
           in if p = NULL then Inr (h1, ctx1, False)
              else c_bind (init_node h1 p s e) (\<lambda>h2. Inr (h2, ctx1, True)))
      else c_bind (load h (cur_segment ctx)) (\<lambda>cur.
        if seg_end cur + 1 \<ge> s then
          (if seg_end cur \<ge> e then Inr (h, ctx, True)
           else c_bind (store h (cur_segment ctx) (cur\<lparr>seg_end := e\<rparr>)) (\<lambda>h1.
                Inr (h1, ctx, True)))
        else
          c_bind (append_segment h ctx) (\<lambda>(h1, ctx1).
          case malloc h1 of (h2, p) \<Rightarrow>
            let ctx2 = ctx1\<lparr>cur_segment := p\<rparr>
            in if p = NULL then Inr (h2, ctx2, False)
               else c_bind (init_node h2 p s e) (\<lambda>h3. Inr (h3, ctx2, True)))))"

definition update_segments :: "heap \<Rightarrow> segments_ctx_t \<Rightarrow> u32 \<Rightarrow> (heap \<times> segments_ctx_t \<times> bool) c_result" where
  "update_segments h ctx received = update_segments_range h ctx received received"

definition close_segments :: "heap \<Rightarrow> segments_ctx_t \<Rightarrow> (heap \<times> segments_ctx_t) c_result" where
  "close_segments h ctx = (if cur_segment ctx \<noteq> NULL then append_segment h ctx else Inr (h, ctx))"

section \<open>Reading, adding and removing segments\<close>

text \<open>
  \<open>get_complement_segment\<close>: the \<open>while\<close> loop over the received segments (state: the heap, the
  context being built, \<open>seg_start\<close> and \<open>seg_end\<close>), then the segment after the last one. The result of
  \<open>malloc\<close> is written to without a check.
\<close>

definition push_segment :: "heap \<Rightarrow> segments_ctx_t \<Rightarrow> u32 \<Rightarrow> u32 \<Rightarrow> (heap \<times> segments_ctx_t) c_result" where
  "push_segment h ctx s e =
     (case malloc h of (h1, p) \<Rightarrow>
        c_bind (init_node h1 p s e) (\<lambda>h2. append_segment h2 (ctx\<lparr>cur_segment := p\<rparr>)))"

fun complement_loop :: "nat \<Rightarrow> heap \<Rightarrow> u32 \<Rightarrow> u32 \<Rightarrow> ptr \<Rightarrow> segments_ctx_t \<Rightarrow> u32 \<Rightarrow> u32 \<Rightarrow>
    (heap \<times> segments_ctx_t \<times> u32 \<times> u32) c_result" where
  "complement_loop 0 h start stop runner complements ss se = Inl Diverges"
| "complement_loop (Suc n) h start stop runner complements ss se =
     (if runner = NULL then Inr (h, complements, ss, se)
      else c_bind (load h runner) (\<lambda>r.
        if seg_start r = start \<and> seg_end r + 1 < stop then
          complement_loop n h start stop (seg_next r) complements (seg_end r + 1) se
        else if seg_start r > 0 \<and> ss \<le> seg_start r - 1 then
          c_bind (push_segment h complements ss (seg_start r - 1)) (\<lambda>(h1, complements1).
          complement_loop n h1 start stop (seg_next r) complements1 (seg_end r + 1) (seg_start r - 1))
        else complement_loop n h start stop (seg_next r) complements ss se))"

definition get_complement_segment ::
    "heap \<Rightarrow> segments_ctx_t \<Rightarrow> u32 \<Rightarrow> u32 \<Rightarrow> (heap \<times> segments_ctx_t) c_result" where
  "get_complement_segment h ctx start stop =
     c_bind (if segments ctx \<noteq> NULL
             then complement_loop (Suc (brk h)) h start stop (segments ctx) init_segments_ctx 0 0
             else Inr (h, init_segments_ctx, 0, 0))
       (\<lambda>(h1, complements, ss, se).
          if ss < stop \<and> se < ss then push_segment h1 complements ss stop
          else Inr (h1, complements))"

definition get_nof_segments :: "segments_ctx_t \<Rightarrow> u32" where
  "get_nof_segments ctx = nof_segments ctx"

text \<open>
  \<open>for_each_segment\<close>: the callback gets the index and the bounds and threads its own state; a
  false result stops the walk. \<open>print_segments\<close> is the same walk with its lines as the state.
\<close>

fun for_each_loop :: "nat \<Rightarrow> heap \<Rightarrow> ptr \<Rightarrow> u32 \<Rightarrow> (u32 \<Rightarrow> u32 \<Rightarrow> u32 \<Rightarrow> 's \<Rightarrow> ('s \<times> bool) c_result) \<Rightarrow>
    's \<Rightarrow> 's c_result" where
  "for_each_loop 0 h runner idx cb st = Inl Diverges"
| "for_each_loop (Suc n) h runner idx cb st =
     (if runner = NULL then Inr st
      else c_bind (load h runner) (\<lambda>r.
        c_bind (cb idx (seg_start r) (seg_end r) st) (\<lambda>(st1, carry_on).
          if \<not> carry_on then Inr st1
          else for_each_loop n h (seg_next r) (idx + 1) cb st1)))"

definition for_each_segment ::
    "heap \<Rightarrow> segments_ctx_t \<Rightarrow> (u32 \<Rightarrow> u32 \<Rightarrow> u32 \<Rightarrow> 's \<Rightarrow> ('s \<times> bool) c_result) \<Rightarrow> 's \<Rightarrow> 's c_result" where
  "for_each_segment h ctx cb st =
     (if segments ctx \<noteq> NULL then for_each_loop (Suc (brk h)) h (segments ctx) 0 cb st else Inr st)"

definition print_segments :: "heap \<Rightarrow> segments_ctx_t \<Rightarrow> (u32 \<times> u32 \<times> u32) list c_result" where
  "print_segments h ctx =
     for_each_segment h ctx (\<lambda>i s e out. Inr (out @ [(i, s, e)], True)) []"

fun free_loop :: "nat \<Rightarrow> heap \<Rightarrow> ptr \<Rightarrow> heap c_result" where
  "free_loop 0 h runner = Inl Diverges"
| "free_loop (Suc n) h runner =
     (if runner = NULL then Inr h
      else c_bind (load h runner) (\<lambda>r.
        c_bind (free h runner) (\<lambda>h1. free_loop n h1 (seg_next r))))"

text \<open>
  \<open>free_segments\<close> accepts NULL (\<open>None\<close>) as the context. The nodes are in the heap, the context itself is a value, so that
  its own \<open>free\<close> has no counterpart.
\<close>

definition free_segments :: "heap \<Rightarrow> segments_ctx_t option \<Rightarrow> heap c_result" where
  "free_segments h ctx = (case ctx of
       None \<Rightarrow> Inr h
     | Some c \<Rightarrow> if segments c \<noteq> NULL then free_loop (Suc (brk h)) h (segments c) else Inr h)"

fun add_loop :: "nat \<Rightarrow> heap \<Rightarrow> ptr \<Rightarrow> ptr \<Rightarrow> heap c_result" where
  "add_loop 0 h runner s = Inl Diverges"
| "add_loop (Suc n) h runner s =
     (if runner = NULL then Inr h
      else c_bind (load h runner) (\<lambda>r.
        if seg_next r = NULL then store h runner (r\<lparr>seg_next := s\<rparr>)
        else add_loop n h (seg_next r) s))"

definition add_segment :: "heap \<Rightarrow> segments_ctx_t \<Rightarrow> u32 \<Rightarrow> u32 \<Rightarrow> (heap \<times> segments_ctx_t) c_result" where
  "add_segment h ctx s e =
     (case malloc h of (h1, p) \<Rightarrow>
        c_bind (init_node h1 p s e) (\<lambda>h2.
          if segments ctx = NULL then
            Inr (h2, ctx\<lparr>segments := p, nof_segments := nof_segments ctx + 1\<rparr>)
          else c_bind (add_loop (brk h) h2 (segments ctx) p) (\<lambda>h3.
            Inr (h3, ctx\<lparr>nof_segments := nof_segments ctx + 1\<rparr>))))"

text \<open>
  \<open>remove_segment\<close>: the head is unlinked before it is released; for any other node the source
  releases \<open>runner->next\<close> first and then reads \<open>runner->next->next\<close>.
\<close>

fun remove_loop :: "nat \<Rightarrow> heap \<Rightarrow> segments_ctx_t \<Rightarrow> ptr \<Rightarrow> u32 \<Rightarrow> u32 \<Rightarrow> (heap \<times> segments_ctx_t) c_result" where
  "remove_loop 0 h ctx runner s e = Inl Diverges"
| "remove_loop (Suc n) h ctx runner s e =
     c_bind (load h runner) (\<lambda>r.
       if seg_next r = NULL then Inr (h, ctx)
       else c_bind (load h (seg_next r)) (\<lambda>nx.
         if seg_start nx = s \<and> seg_end nx = e then
           c_bind (free h (seg_next r)) (\<lambda>h1.
           c_bind (load h1 (seg_next r)) (\<lambda>nx1.
           c_bind (store h1 runner (r\<lparr>seg_next := seg_next nx1\<rparr>)) (\<lambda>h2.
           Inr (h2, ctx\<lparr>nof_segments := nof_segments ctx - 1\<rparr>))))
         else remove_loop n h ctx (seg_next r) s e))"

definition remove_segment :: "heap \<Rightarrow> segments_ctx_t \<Rightarrow> u32 \<Rightarrow> u32 \<Rightarrow> (heap \<times> segments_ctx_t) c_result" where
  "remove_segment h ctx s e =
     (if segments ctx = NULL then Inr (h, ctx)
      else c_bind (load h (segments ctx)) (\<lambda>r.
        if seg_start r = s \<and> seg_end r = e then
          c_bind (free h (segments ctx)) (\<lambda>h1.
          Inr (h1, ctx\<lparr>segments := seg_next r, nof_segments := nof_segments ctx - 1\<rparr>))
        else remove_loop (brk h) h ctx (segments ctx) s e))"

text \<open>\<open>merge_segments\<close>: the smaller start first, the second list on a tie.\<close>

fun merge_loop :: "nat \<Rightarrow> heap \<Rightarrow> ptr \<Rightarrow> ptr \<Rightarrow> segments_ctx_t \<Rightarrow> (heap \<times> segments_ctx_t) c_result" where
  "merge_loop 0 h iter_a iter_b res = Inl Diverges"
| "merge_loop (Suc n) h iter_a iter_b res =
     (if iter_a = NULL \<and> iter_b = NULL then Inr (h, res)
      else if iter_a \<noteq> NULL \<and> iter_b \<noteq> NULL then
        c_bind (load h iter_a) (\<lambda>a. c_bind (load h iter_b) (\<lambda>b.
          if seg_start a < seg_start b then
            c_bind (update_segments_range h res (seg_start a) (seg_end a)) (\<lambda>(h1, res1, _).
            merge_loop n h1 (seg_next a) iter_b res1)
          else
            c_bind (update_segments_range h res (seg_start b) (seg_end b)) (\<lambda>(h1, res1, _).
            merge_loop n h1 iter_a (seg_next b) res1)))
      else if iter_a \<noteq> NULL then
        c_bind (load h iter_a) (\<lambda>a.
        c_bind (update_segments_range h res (seg_start a) (seg_end a)) (\<lambda>(h1, res1, _).
        merge_loop n h1 (seg_next a) iter_b res1))
      else
        c_bind (load h iter_b) (\<lambda>b.
        c_bind (update_segments_range h res (seg_start b) (seg_end b)) (\<lambda>(h1, res1, _).
        merge_loop n h1 iter_a (seg_next b) res1)))"

definition merge_segments :: "heap \<Rightarrow> segments_ctx_t \<Rightarrow> segments_ctx_t \<Rightarrow> (heap \<times> segments_ctx_t) c_result" where
  "merge_segments h a b =
     c_bind (merge_loop (Suc (2 * brk h)) h (segments a) (segments b) init_segments_ctx) (\<lambda>(h1, res).
     close_segments h1 res)"

section \<open>Representation of the abstract state\<close>

text \<open>\<open>chain h p ns\<close>: from \<open>p\<close> on, the heap holds the NULL-terminated list \<open>ns\<close> of nodes.\<close>

fun chain :: "heap \<Rightarrow> ptr \<Rightarrow> (ptr \<times> seg) list \<Rightarrow> bool" where
  "chain h p [] \<longleftrightarrow> p = NULL"
| "chain h p (n # ns) \<longleftrightarrow> p = fst n \<and> p \<noteq> NULL \<and>
     (\<exists>q. nodes h p = Some \<lparr>seg_start = fst (snd n), seg_end = snd (snd n), seg_next = q\<rparr> \<and> chain h q ns)"

definition addrs :: "(ptr \<times> seg) list \<Rightarrow> ptr set" where
  "addrs ns = set (map fst ns)"

definition list_rep :: "heap \<Rightarrow> segments_ctx_t \<Rightarrow> (ptr \<times> seg) list \<Rightarrow> bool" where
  "list_rep h ctx ns \<longleftrightarrow> chain h (segments ctx) ns \<and> distinct (map fst ns) \<and>
     (\<forall>p\<in>addrs ns. p < brk h) \<and> nof_segments ctx = of_nat (length ns)"

text \<open>A context as \<open>update_segments\<close> finds it: untouched, or with an open segment of its own.\<close>

definition open_rep :: "heap \<Rightarrow> segments_ctx_t \<Rightarrow> (ptr \<times> seg) list \<Rightarrow> seg \<Rightarrow> bool" where
  "open_rep h ctx ns c \<longleftrightarrow> list_rep h ctx ns \<and> cur_segment ctx \<noteq> NULL \<and>
     cur_segment ctx < brk h \<and> cur_segment ctx \<notin> addrs ns \<and>
     nodes h (cur_segment ctx) = Some \<lparr>seg_start = fst c, seg_end = snd c, seg_next = NULL\<rparr>"

definition tracks :: "heap \<Rightarrow> segments_ctx_t \<Rightarrow> (ptr \<times> seg) list \<Rightarrow> seg list \<times> seg option \<Rightarrow> bool" where
  "tracks h ctx ns st \<longleftrightarrow> map snd ns = fst st \<and>
     (case snd st of
        None \<Rightarrow> \<not> started ctx \<and> ns = [] \<and> cur_segment ctx = NULL \<and> list_rep h ctx ns
      | Some c \<Rightarrow> started ctx \<and> open_rep h ctx ns c)"

text \<open>The addresses a context may write to, and that a run leaves everything else alone.\<close>

definition owned :: "segments_ctx_t \<Rightarrow> (ptr \<times> seg) list \<Rightarrow> ptr set" where
  "owned ctx ns = insert (cur_segment ctx) (addrs ns)"

definition same_outside :: "ptr set \<Rightarrow> heap \<Rightarrow> heap \<Rightarrow> bool" where
  "same_outside A h h' \<longleftrightarrow> brk h \<le> brk h' \<and> malloc_ok h' = malloc_ok h \<and>
     (\<forall>q. q < brk h \<and> q \<notin> A \<longrightarrow> nodes h' q = nodes h q)"

text \<open>
  Reading a context back: the closed segments of its list, and the packet numbers it stands for,
  the open segment included.
\<close>

fun read_chain :: "nat \<Rightarrow> heap \<Rightarrow> ptr \<Rightarrow> seg list" where
  "read_chain 0 h p = []"
| "read_chain (Suc n) h p =
     (case nodes h p of
        None \<Rightarrow> []
      | Some r \<Rightarrow> if p = NULL then [] else (seg_start r, seg_end r) # read_chain n h (seg_next r))"

definition segs :: "heap \<Rightarrow> segments_ctx_t \<Rightarrow> seg list" where
  "segs h ctx = read_chain (brk h) h (segments ctx)"

definition open_segs :: "heap \<Rightarrow> segments_ctx_t \<Rightarrow> seg list" where
  "open_segs h ctx = (if cur_segment ctx = NULL then []
     else case nodes h (cur_segment ctx) of None \<Rightarrow> [] | Some r \<Rightarrow> [(seg_start r, seg_end r)])"

definition recorded :: "heap \<Rightarrow> segments_ctx_t \<Rightarrow> u32 set" where
  "recorded h ctx = covered (segs h ctx @ open_segs h ctx)"

text \<open>The calls of one transfer: \<open>update_segments\<close> for every packet, in arrival order.\<close>

definition tracker_step :: "heap \<times> segments_ctx_t \<Rightarrow> u32 \<Rightarrow> (heap \<times> segments_ctx_t) c_result" where
  "tracker_step s p =
     c_bind (update_segments (fst s) (snd s) p) (\<lambda>(h1, ctx1, _). Inr (h1, ctx1))"

definition update_all :: "heap \<Rightarrow> segments_ctx_t \<Rightarrow> u32 list \<Rightarrow> (heap \<times> segments_ctx_t) c_result" where
  "update_all h ctx ps = fold_c tracker_step (h, ctx) ps"

text \<open>The calls that rebuild a list from saved segments.\<close>

definition add_step :: "heap \<times> segments_ctx_t \<Rightarrow> seg \<Rightarrow> (heap \<times> segments_ctx_t) c_result" where
  "add_step s c = add_segment (fst s) (snd s) (fst c) (snd c)"

text \<open>A platform on which no allocation fails.\<close>

definition plenty :: "heap \<Rightarrow> bool" where
  "plenty h \<longleftrightarrow> 0 < brk h \<and> (\<forall>i. malloc_ok h i)"

text \<open>Well-formed contexts: before closing, in normal form before closing, and after closing.\<close>

definition tracking :: "heap \<times> segments_ctx_t \<Rightarrow> bool" where
  "tracking s \<longleftrightarrow> plenty (fst s) \<and> (\<exists>ns st. tracks (fst s) (snd s) ns st)"

definition tracking_in_order :: "heap \<times> segments_ctx_t \<Rightarrow> bool" where
  "tracking_in_order s \<longleftrightarrow> plenty (fst s) \<and>
     (\<exists>ns st. tracks (fst s) (snd s) ns st \<and> ordered (all_segs st))"

definition closed_ctx :: "heap \<Rightarrow> segments_ctx_t \<Rightarrow> bool" where
  "closed_ctx h ctx \<longleftrightarrow> plenty h \<and> (\<exists>ns. list_rep h ctx ns)"

section \<open>Heap lemmas\<close>

lemma load_Some [simp]: "p \<noteq> NULL \<Longrightarrow> nodes h p = Some n \<Longrightarrow> load h p = Inr n"
  by (simp add: load_def)

lemma load_NULL [simp]: "load h NULL = Inl Null_Deref"
  by (simp add: load_def)

lemma store_Some [simp]:
  "p \<noteq> NULL \<Longrightarrow> nodes h p = Some m \<Longrightarrow> store h p n = Inr (h\<lparr>nodes := (nodes h)(p := Some n)\<rparr>)"
  by (simp add: store_def)

lemma free_Some [simp]:
  "p \<noteq> NULL \<Longrightarrow> nodes h p = Some m \<Longrightarrow> free h p = Inr (h\<lparr>nodes := (nodes h)(p := None)\<rparr>)"
  by (simp add: free_def)

lemma addrs_simps [simp]:
  "addrs [] = {}" "addrs (n # ns) = insert (fst n) (addrs ns)" "addrs (ns @ ms) = addrs ns \<union> addrs ms"
  by (auto simp: addrs_def)

lemma addrs_map_fst: "map fst ns' = map fst ns \<Longrightarrow> addrs ns' = addrs ns"
  by (simp add: addrs_def)

lemma addrs_map_fst_snoc: "map fst ns' = map fst ns @ [a] \<Longrightarrow> addrs ns' = insert a (addrs ns)"
  by (simp add: addrs_def)

lemma distinct_addrs_Cons:
  "distinct (map fst (n # ns)) \<longleftrightarrow> fst n \<notin> addrs ns \<and> distinct (map fst ns)"
  by (simp add: addrs_def)

lemma chain_NULL [simp]: "chain h NULL ns \<longleftrightarrow> ns = []"
  by (cases ns) auto

lemma chain_cong:
  "(\<And>q. q \<in> addrs ns \<Longrightarrow> nodes h' q = nodes h q) \<Longrightarrow> chain h' p ns = chain h p ns"
  by (induction ns arbitrary: p) auto

lemma chain_upd_other [simp]:
  "a \<notin> addrs ns \<Longrightarrow> chain (h\<lparr>nodes := (nodes h)(a := x)\<rparr>) p ns = chain h p ns"
  by (rule chain_cong) auto

lemma chain_upd2_other [simp]:
  "a \<notin> addrs ns \<Longrightarrow> b \<notin> addrs ns \<Longrightarrow>
   chain (h\<lparr>nodes := (nodes h)(a := x, b := y)\<rparr>) p ns = chain h p ns"
  by (rule chain_cong) auto

lemma chain_not_NULL: "chain h p ns \<Longrightarrow> q \<in> addrs ns \<Longrightarrow> q \<noteq> NULL"
  by (induction ns arbitrary: p) auto

lemma chain_length:
  assumes "chain h p ns" "distinct (map fst ns)" "\<forall>q\<in>addrs ns. q < b" "0 < b"
  shows "length ns < b"
proof -
  have "addrs ns \<subseteq> {1..<b}"
    using chain_not_NULL [OF assms(1)] assms(3) by (fastforce simp: Suc_le_eq)
  then have "card (addrs ns) \<le> b - 1"
    using card_mono [of "{1..<b}"] by simp
  with assms(2,4) show ?thesis using distinct_card [of "map fst ns"] by (simp add: addrs_def)
qed

lemma same_outside_refl [simp]: "same_outside A h h"
  by (simp add: same_outside_def)

lemma same_outside_trans:
  "same_outside A h h' \<Longrightarrow> same_outside B h' h'' \<Longrightarrow> (\<And>q. q \<in> B \<Longrightarrow> q \<in> A \<or> brk h \<le> q) \<Longrightarrow>
   same_outside A h h''"
  unfolding same_outside_def by (auto; metis leD less_le_trans)

lemma plenty_same: "plenty h \<Longrightarrow> same_outside A h h' \<Longrightarrow> plenty h'"
  by (auto simp: plenty_def same_outside_def)

lemma fresh_disjoint:
  fixes b b' :: nat
  assumes "\<forall>q\<in>A. q < b" and "A \<inter> B = {}" and "C \<subseteq> B \<union> {b..<b'}"
  shows "A \<inter> C = {}"
proof (rule ccontr)
  assume "A \<inter> C \<noteq> {}"
  then obtain q where "q \<in> A" "q \<in> C" by blast
  with assms have "q < b" "b \<le> q" by auto
  then show False by simp
qed

section \<open>The code refines the specification\<close>

lemma append_loop_refines:
  assumes "chain h p ns" and "ns \<noteq> []" and "distinct (map fst ns)"
    and "cur_segment ctx \<notin> addrs ns" and "cur_segment ctx \<noteq> NULL"
    and "nodes h (cur_segment ctx) = Some \<lparr>seg_start = fst c, seg_end = snd c, seg_next = NULL\<rparr>"
    and "length ns \<le> fuel"
  shows "\<exists>h' ctx' ns'. append_loop fuel h ctx p = Inr (h', ctx') \<and> chain h' p ns' \<and>
     map snd ns' = append_spec (map snd ns) c \<and> brk h' = brk h \<and> malloc_ok h' = malloc_ok h \<and>
     (\<forall>q. q \<notin> owned ctx ns \<longrightarrow> nodes h' q = nodes h q) \<and>
     (map fst ns' = map fst ns \<and> ctx' = ctx\<lparr>cur_segment := NULL\<rparr> \<or>
      map fst ns' = map fst ns @ [cur_segment ctx] \<and> ctx' = ctx\<lparr>nof_segments := nof_segments ctx + 1\<rparr>)"
  using assms
proof (induction ns arbitrary: p fuel)
  case (Cons n ns)
  obtain a s e where n: "n = (a, s, e)" by (cases n) auto
  obtain q where q: "p = a" "a \<noteq> NULL" "nodes h a = Some \<lparr>seg_start = s, seg_end = e, seg_next = q\<rparr>"
      "chain h q ns"
    using Cons.prems(1) n by auto
  obtain m where fuel: "fuel = Suc m" "length ns \<le> m"
    using Cons.prems(7) by (cases fuel) auto
  let ?cur = "cur_segment ctx"
  have fresh: "?cur \<noteq> a" "?cur \<notin> addrs ns" "a \<notin> addrs ns" "distinct (map fst ns)"
    using Cons.prems n distinct_addrs_Cons [of n ns] by auto
  consider (upper) "s \<le> fst c" "fst c \<le> e" "e \<le> snd c"
    | (lower) "\<not> (s \<le> fst c \<and> fst c \<le> e)" "fst c \<le> s" "s \<le> snd c"
    | (other) "s \<le> fst c \<and> fst c \<le> e \<longrightarrow> \<not> e \<le> snd c" "\<not> (s \<le> fst c \<and> fst c \<le> e) \<longrightarrow> \<not> (fst c \<le> s \<and> s \<le> snd c)"
    by blast
  then show ?case
  proof cases
    case upper
    then show ?thesis
      using q fresh Cons.prems(5,6)
      by (intro exI [of _ "h\<lparr>nodes := (nodes h)(a := Some \<lparr>seg_start = s, seg_end = snd c, seg_next = q\<rparr>, ?cur := None)\<rparr>"]
            exI [of _ "ctx\<lparr>cur_segment := NULL\<rparr>"] exI [of _ "(a, s, snd c) # ns"])
        (auto simp: fuel n owned_def Let_def)
  next
    case lower
    then show ?thesis
      using q fresh Cons.prems(5,6)
      by (intro exI [of _ "h\<lparr>nodes := (nodes h)(a := Some \<lparr>seg_start = fst c, seg_end = e, seg_next = q\<rparr>, ?cur := None)\<rparr>"]
            exI [of _ "ctx\<lparr>cur_segment := NULL\<rparr>"] exI [of _ "(a, fst c, e) # ns"])
        (auto simp: fuel n owned_def Let_def)
  next
    case other
    then have spec: "append_spec (map snd (n # ns)) c = (s, e) # append_spec (map snd ns) c"
      by (auto simp: n)
    have step: "append_loop fuel h ctx p =
        (if q = NULL then
           Inr (h\<lparr>nodes := (nodes h)(a := Some \<lparr>seg_start = s, seg_end = e, seg_next = ?cur\<rparr>)\<rparr>,
                ctx\<lparr>nof_segments := nof_segments ctx + 1\<rparr>)
         else append_loop m h ctx q)"
      using other q fresh Cons.prems(5,6) by (auto simp: fuel Let_def)
    show ?thesis
    proof (cases "q = NULL")
      case True
      then have "ns = []" using q(4) by simp
      then show ?thesis
        unfolding step spec using True q fresh Cons.prems(5,6)
        by (intro exI [of _ "h\<lparr>nodes := (nodes h)(a := Some \<lparr>seg_start = s, seg_end = e, seg_next = ?cur\<rparr>)\<rparr>"]
              exI [of _ "ctx\<lparr>nof_segments := nof_segments ctx + 1\<rparr>"] exI [of _ "[(a, s, e), (?cur, c)]"])
          (auto simp: n owned_def)
    next
      case False
      then have "ns \<noteq> []" using q(4) by auto
      then obtain h' ctx' ns' where IH: "append_loop m h ctx q = Inr (h', ctx')" "chain h' q ns'"
          "map snd ns' = append_spec (map snd ns) c" "brk h' = brk h" "malloc_ok h' = malloc_ok h"
          "\<forall>q. q \<notin> owned ctx ns \<longrightarrow> nodes h' q = nodes h q"
          "map fst ns' = map fst ns \<and> ctx' = ctx\<lparr>cur_segment := NULL\<rparr> \<or>
           map fst ns' = map fst ns @ [?cur] \<and> ctx' = ctx\<lparr>nof_segments := nof_segments ctx + 1\<rparr>"
        using Cons.IH [OF q(4) _ fresh(4,2) Cons.prems(5,6) fuel(2)] by blast
      have "nodes h' a = nodes h a" using IH(6) fresh by (auto simp: owned_def)
      then show ?thesis
        unfolding step spec using False IH q
        by (intro exI [of _ h'] exI [of _ ctx'] exI [of _ "(a, s, e) # ns'"])
          (auto simp: n owned_def)
    qed
  qed
qed simp

text \<open>Allocation of a node on a platform with enough memory.\<close>

definition alloc :: "heap \<Rightarrow> u32 \<Rightarrow> u32 \<Rightarrow> heap" where
  "alloc h s e = h\<lparr>nodes := (nodes h)(brk h := Some \<lparr>seg_start = s, seg_end = e, seg_next = NULL\<rparr>),
                   brk := Suc (brk h)\<rparr>"

lemma malloc_plenty:
  "plenty h \<Longrightarrow> \<exists>h1. malloc h = (h1, brk h) \<and> init_node h1 (brk h) s e = Inr (alloc h s e)"
  by (auto simp: malloc_def plenty_def init_node_def alloc_def)

lemma plenty_brk [simp]: "plenty h \<Longrightarrow> brk h \<noteq> 0" "plenty h \<Longrightarrow> 0 < brk h"
  by (simp_all add: plenty_def)

lemma alloc_simps [simp]:
  "brk (alloc h s e) = Suc (brk h)" "malloc_ok (alloc h s e) = malloc_ok h"
  "nodes (alloc h s e) (brk h) = Some \<lparr>seg_start = s, seg_end = e, seg_next = NULL\<rparr>"
  by (simp_all add: alloc_def)

lemma nodes_alloc_other [simp]: "q \<noteq> brk h \<Longrightarrow> nodes (alloc h s e) q = nodes h q"
  by (simp add: alloc_def)

lemma same_outside_alloc: "same_outside A h (alloc h s e)"
  by (simp add: same_outside_def)

lemma list_rep_same:
  assumes "list_rep h ctx ns" and "\<And>q. q \<in> addrs ns \<Longrightarrow> nodes h' q = nodes h q"
    and "brk h \<le> brk h'" and "segments ctx' = segments ctx" and "nof_segments ctx' = nof_segments ctx"
  shows "list_rep h' ctx' ns"
  using assms chain_cong [of ns h' h "segments ctx"] by (auto simp: list_rep_def)

lemma open_rep_alloc:
  assumes "list_rep h ctx ns" and "plenty h"
  shows "open_rep (alloc h s e) (ctx\<lparr>cur_segment := brk h\<rparr>) ns (s, e)"
proof -
  have fresh: "brk h \<notin> addrs ns" using assms(1) by (auto simp: list_rep_def)
  have "nodes (alloc h s e) q = nodes h q" if "q \<in> addrs ns" for q
    using that fresh by (intro nodes_alloc_other) blast
  with assms(1) have "list_rep (alloc h s e) (ctx\<lparr>cur_segment := brk h\<rparr>) ns"
    by (rule list_rep_same) simp_all
  with assms(2) fresh show ?thesis by (simp add: open_rep_def)
qed

lemma list_rep_upd_other [simp]:
  "a \<notin> addrs ns \<Longrightarrow> list_rep (h\<lparr>nodes := (nodes h)(a := x)\<rparr>) ctx ns = list_rep h ctx ns"
  by (simp add: list_rep_def)

lemma append_segment_refines:
  assumes "open_rep h ctx ns c"
  shows "\<exists>h' ctx' ns'. append_segment h ctx = Inr (h', ctx') \<and> list_rep h' ctx' ns' \<and>
     map snd ns' = append_spec (map snd ns) c \<and> brk h' = brk h \<and> started ctx' = started ctx \<and>
     same_outside (owned ctx ns) h h' \<and> addrs ns' \<subseteq> owned ctx ns"
proof (cases "ns = []")
  case True
  then show ?thesis
    using assms
    by (intro exI [of _ h] exI [of _ "ctx\<lparr>segments := cur_segment ctx, nof_segments := nof_segments ctx + 1\<rparr>"]
          exI [of _ "[(cur_segment ctx, c)]"])
      (simp add: append_segment_def open_rep_def list_rep_def owned_def)
next
  case False
  have rep: "chain h (segments ctx) ns" "distinct (map fst ns)" "cur_segment ctx \<notin> addrs ns"
      "cur_segment ctx \<noteq> NULL" "\<forall>p\<in>addrs ns. p < brk h" "cur_segment ctx < brk h"
      "nodes h (cur_segment ctx) = Some \<lparr>seg_start = fst c, seg_end = snd c, seg_next = NULL\<rparr>"
      "nof_segments ctx = of_nat (length ns)"
    using assms by (auto simp: open_rep_def list_rep_def)
  have seg: "segments ctx \<noteq> NULL" using rep(1) False by (cases ns) auto
  have "length ns \<le> brk h"
    using chain_length [OF rep(1,2,5)] rep(4,6) by simp
  then obtain h' ctx' ns' where loop: "append_loop (brk h) h ctx (segments ctx) = Inr (h', ctx')"
      and ch: "chain h' (segments ctx) ns'" and spec: "map snd ns' = append_spec (map snd ns) c"
      and same: "brk h' = brk h" "malloc_ok h' = malloc_ok h"
        "\<forall>q. q \<notin> owned ctx ns \<longrightarrow> nodes h' q = nodes h q"
      and alt: "map fst ns' = map fst ns \<and> ctx' = ctx\<lparr>cur_segment := NULL\<rparr> \<or>
       map fst ns' = map fst ns @ [cur_segment ctx] \<and> ctx' = ctx\<lparr>nof_segments := nof_segments ctx + 1\<rparr>"
    using append_loop_refines [OF rep(1) False rep(2,3,4,7)] by blast
  have "list_rep h' ctx' ns' \<and> addrs ns' \<subseteq> owned ctx ns \<and> started ctx' = started ctx"
    using alt
  proof (elim disjE conjE)
    assume eq: "map fst ns' = map fst ns" "ctx' = ctx\<lparr>cur_segment := NULL\<rparr>"
    then have "length ns' = length ns" by (metis length_map)
    with rep(2,5,8) ch same(1) eq addrs_map_fst [OF eq(1)] show ?thesis
      by (simp add: list_rep_def owned_def subset_insertI)
  next
    assume snoc: "map fst ns' = map fst ns @ [cur_segment ctx]"
      "ctx' = ctx\<lparr>nof_segments := nof_segments ctx + 1\<rparr>"
    then have "length ns' = Suc (length ns)" by (metis length_append_singleton length_map)
    then have "nof_segments ctx' = of_nat (length ns')"
      using rep(8) snoc(2) by simp
    moreover have "distinct (map fst ns')"
      using rep(2,3) snoc(1) by (simp add: addrs_def)
    moreover have "addrs ns' = insert (cur_segment ctx) (addrs ns)"
      using snoc(1) by (rule addrs_map_fst_snoc)
    ultimately show ?thesis
      using rep(5,6) ch same(1) snoc(2) by (simp add: list_rep_def owned_def)
  qed
  with seg loop spec same show ?thesis
    by (intro exI [of _ h'] exI [of _ ctx'] exI [of _ ns'])
      (simp add: append_segment_def same_outside_def)
qed

lemma close_segments_refines:
  assumes "tracks h ctx ns st"
  shows "\<exists>h' ctx' ns'. close_segments h ctx = Inr (h', ctx') \<and> list_rep h' ctx' ns' \<and>
     map snd ns' = close_spec st \<and> brk h' = brk h \<and> same_outside (owned ctx ns) h h' \<and>
     addrs ns' \<subseteq> owned ctx ns"
proof (cases "snd st")
  case None
  with assms show ?thesis by (auto simp: close_segments_def close_spec_def tracks_def)
next
  case (Some c)
  with assms have "open_rep h ctx ns c" "map snd ns = fst st" by (auto simp: tracks_def)
  with append_segment_refines [OF this(1)] Some show ?thesis
    by (auto simp: close_segments_def close_spec_def open_rep_def)
qed

text \<open>
  Recording a range: on success the code returns true, the new context stands for what the
  specification says, and only nodes of the context and fresh ones have changed.
\<close>

lemma update_segments_range_refines:
  assumes "tracks h ctx ns st" and "plenty h"
  shows "\<exists>h' ctx' ns'. update_segments_range h ctx s e = Inr (h', ctx', True) \<and>
     tracks h' ctx' ns' (range_spec st (s, e)) \<and> same_outside (owned ctx ns) h h' \<and>
     owned ctx' ns' \<subseteq> owned ctx ns \<union> {brk h..<brk h'}"
proof (cases "snd st")
  case None
  obtain h1 where m: "malloc h = (h1, brk h)" "init_node h1 (brk h) s e = Inr (alloc h s e)"
    using malloc_plenty [OF assms(2)] by blast
  have ns: "ns = []" "\<not> started ctx" "list_rep h ctx []" "fst st = []"
    using assms(1) None by (auto simp: tracks_def)
  let ?ctx = "ctx\<lparr>nof_segments := 0, started := True, cur_segment := brk h\<rparr>"
  have "list_rep h (ctx\<lparr>nof_segments := 0, started := True\<rparr>) []"
    using ns(3) by (simp add: list_rep_def)
  from open_rep_alloc [OF this assms(2), of s e] have "open_rep (alloc h s e) ?ctx [] (s, e)" by simp
  then have "tracks (alloc h s e) ?ctx [] (range_spec st (s, e))"
    using None ns by (simp add: tracks_def range_spec_def)
  with ns m assms(2) show ?thesis
    by (intro exI [of _ "alloc h s e"] exI [of _ ?ctx] exI [of _ "[]"])
      (auto simp: update_segments_range_def owned_def same_outside_alloc)
next
  case (Some c)
  have op: "started ctx" "open_rep h ctx ns c" "map snd ns = fst st"
    using assms(1) Some by (auto simp: tracks_def)
  have cur: "cur_segment ctx \<noteq> NULL" "cur_segment ctx < brk h" "cur_segment ctx \<notin> addrs ns"
      "nodes h (cur_segment ctx) = Some \<lparr>seg_start = fst c, seg_end = snd c, seg_next = NULL\<rparr>"
    using op(2) by (auto simp: open_rep_def)
  show ?thesis
  proof (cases "s \<le> snd c + 1")
    case near: True
    show ?thesis
    proof (cases "e \<le> snd c")
      case True
      then show ?thesis
        using near op cur assms(1) Some by (auto simp: update_segments_range_def range_spec_def)
    next
      case False
      let ?h = "h\<lparr>nodes := (nodes h)(cur_segment ctx := Some \<lparr>seg_start = fst c, seg_end = e, seg_next = NULL\<rparr>)\<rparr>"
      have "open_rep ?h ctx ns (fst c, e)"
        using op(2) by (simp add: open_rep_def)
      with near False op cur Some show ?thesis
        by (intro exI [of _ ?h] exI [of _ ctx] exI [of _ ns])
          (auto simp: update_segments_range_def range_spec_def tracks_def owned_def same_outside_def)
    qed
  next
    case far: False
    obtain h1 ctx1 ns1 where app: "append_segment h ctx = Inr (h1, ctx1)" "list_rep h1 ctx1 ns1"
        "map snd ns1 = append_spec (map snd ns) c" "brk h1 = brk h" "started ctx1 = started ctx"
        "same_outside (owned ctx ns) h h1" "addrs ns1 \<subseteq> owned ctx ns"
      using append_segment_refines [OF op(2)] by blast
    have "plenty h1" using assms(2) app(6) by (rule plenty_same)
    then obtain h2 where m: "malloc h1 = (h2, brk h1)" "init_node h2 (brk h1) s e = Inr (alloc h1 s e)"
      using malloc_plenty by blast
    let ?ctx = "ctx1\<lparr>cur_segment := brk h1\<rparr>"
    have "open_rep (alloc h1 s e) ?ctx ns1 (s, e)"
      using app(2) \<open>plenty h1\<close> by (rule open_rep_alloc)
    moreover have "same_outside (owned ctx ns) h (alloc h1 s e)"
      using app(6) same_outside_alloc by (rule same_outside_trans) auto
    ultimately show ?thesis
      using far op cur Some app m \<open>plenty h1\<close>
      by (intro exI [of _ "alloc h1 s e"] exI [of _ ?ctx] exI [of _ ns1])
        (auto simp: update_segments_range_def range_spec_def tracks_def owned_def)
  qed
qed

lemma push_segment_refines:
  assumes "list_rep h ctx ns" and "plenty h"
  shows "\<exists>h' ctx' ns'. push_segment h ctx s e = Inr (h', ctx') \<and> list_rep h' ctx' ns' \<and>
     map snd ns' = append_spec (map snd ns) (s, e) \<and> same_outside (addrs ns) h h' \<and>
     addrs ns' \<subseteq> addrs ns \<union> {brk h..<brk h'}"
proof -
  obtain h1 where m: "malloc h = (h1, brk h)" "init_node h1 (brk h) s e = Inr (alloc h s e)"
    using malloc_plenty [OF assms(2)] by blast
  obtain h' ctx' ns' where app: "append_segment (alloc h s e) (ctx\<lparr>cur_segment := brk h\<rparr>) = Inr (h', ctx')"
      "list_rep h' ctx' ns'" "map snd ns' = append_spec (map snd ns) (s, e)" "brk h' = Suc (brk h)"
      "same_outside (insert (brk h) (addrs ns)) (alloc h s e) h'" "addrs ns' \<subseteq> insert (brk h) (addrs ns)"
    using append_segment_refines [OF open_rep_alloc [OF assms, of s e]] by (auto simp: owned_def)
  have "same_outside (addrs ns) h h'"
    using same_outside_alloc app(5) by (rule same_outside_trans) auto
  with m app show ?thesis by (auto simp: push_segment_def)
qed

lemma chain_same_outside:
  assumes "chain h p ns" and "same_outside A h h'" and "addrs ns \<inter> A = {}" and "\<forall>q\<in>addrs ns. q < brk h"
  shows "chain h' p ns"
proof -
  have "chain h' p ns = chain h p ns"
    using assms(2-4) by (intro chain_cong) (auto simp: same_outside_def)
  with assms(1) show ?thesis by simp
qed

lemma chain_Cons_cases:
  assumes "chain h p (n # ns)"
  obtains q where "p = fst n" "p \<noteq> NULL" "chain h q ns"
    "nodes h p = Some \<lparr>seg_start = fst (snd n), seg_end = snd (snd n), seg_next = q\<rparr>"
  using assms by auto

lemma complement_loop_refines:
  assumes "chain h p ns" and "\<forall>q\<in>addrs ns. q < brk h" and "list_rep h cps ms"
    and "addrs ns \<inter> addrs ms = {}" and "plenty h" and "length ns < fuel"
  shows "\<exists>h' cps' ms' ss' se'. complement_loop fuel h lo hi p cps ss se = Inr (h', cps', ss', se') \<and>
     compl_scan lo hi (map snd ns) (ss, se, map snd ms) = (ss', se', map snd ms') \<and>
     list_rep h' cps' ms' \<and> same_outside (addrs ms) h h' \<and> addrs ms' \<subseteq> addrs ms \<union> {brk h..<brk h'}"
  using assms
proof (induction ns arbitrary: h p cps ms ss se fuel)
  case Nil
  then show ?case by (cases fuel) auto
next
  case (Cons n ns)
  obtain m where fuel: "fuel = Suc m" "length ns < m" using Cons.prems(6) by (cases fuel) auto
  obtain q where q: "p \<noteq> NULL" "chain h q ns"
      "nodes h p = Some \<lparr>seg_start = fst (snd n), seg_end = snd (snd n), seg_next = q\<rparr>"
    using Cons.prems(1) by (rule chain_Cons_cases)
  have ns: "\<forall>q\<in>addrs ns. q < brk h" "addrs ns \<inter> addrs ms = {}"
    using Cons.prems(2,4) by auto
  consider (first) "fst (snd n) = lo \<and> snd (snd n) + 1 < hi"
    | (gap) "\<not> (fst (snd n) = lo \<and> snd (snd n) + 1 < hi)" "0 < fst (snd n) \<and> ss \<le> fst (snd n) - 1"
    | (skip) "\<not> (fst (snd n) = lo \<and> snd (snd n) + 1 < hi)" "\<not> (0 < fst (snd n) \<and> ss \<le> fst (snd n) - 1)"
    by blast
  then show ?case
  proof cases
    case first
    then show ?thesis
      using q Cons.IH [OF q(2) ns(1) Cons.prems(3) ns(2) Cons.prems(5) fuel(2), of "snd (snd n) + 1" se]
      by (simp add: fuel(1))
  next
    case skip
    then show ?thesis
      using q Cons.IH [OF q(2) ns(1) Cons.prems(3) ns(2) Cons.prems(5) fuel(2), of ss se]
      by (simp add: fuel(1) del: word_gt_0) auto
  next
    case gap
    obtain h1 cps1 ms1 where push: "push_segment h cps ss (fst (snd n) - 1) = Inr (h1, cps1)"
        "list_rep h1 cps1 ms1" "map snd ms1 = append_spec (map snd ms) (ss, fst (snd n) - 1)"
        "same_outside (addrs ms) h h1" "addrs ms1 \<subseteq> addrs ms \<union> {brk h..<brk h1}"
      using push_segment_refines [OF Cons.prems(3,5)] by blast
    have "chain h1 q ns"
      using q(2) push(4) ns(2) ns(1) by (rule chain_same_outside)
    moreover have "\<forall>q\<in>addrs ns. q < brk h1"
      using ns(1) push(4) by (auto simp: same_outside_def)
    moreover have "addrs ns \<inter> addrs ms1 = {}"
      using ns push(5) by (rule fresh_disjoint)
    moreover have "plenty h1" using Cons.prems(5) push(4) by (rule plenty_same)
    ultimately obtain h' cps' ms' ss' se' where
      rec: "complement_loop m h1 lo hi q cps1 (snd (snd n) + 1) (fst (snd n) - 1) = Inr (h', cps', ss', se')"
        "compl_scan lo hi (map snd ns) (snd (snd n) + 1, fst (snd n) - 1, map snd ms1) = (ss', se', map snd ms')"
        "list_rep h' cps' ms'" "same_outside (addrs ms1) h1 h'" "addrs ms' \<subseteq> addrs ms1 \<union> {brk h1..<brk h'}"
      using Cons.IH [of h1 q cps1 ms1 m "snd (snd n) + 1" "fst (snd n) - 1"] push(2) fuel(2) by blast
    have "same_outside (addrs ms) h h'"
      using push(4) rec(4) by (rule same_outside_trans) (use push(5) in auto)
    moreover have "addrs ms' \<subseteq> addrs ms \<union> {brk h..<brk h'}"
      using rec(4,5) push(4,5) by (fastforce simp: same_outside_def)
    moreover have "complement_loop fuel h lo hi p cps ss se = Inr (h', cps', ss', se')"
      using gap q push(1) rec(1) by (simp add: fuel(1) del: word_gt_0) blast
    moreover have "compl_scan lo hi (map snd (n # ns)) (ss, se, map snd ms) = (ss', se', map snd ms')"
      using gap push(3) rec(2) by (simp del: word_gt_0) blast
    ultimately show ?thesis using rec(3) by blast
  qed
qed

lemma list_rep_init [simp]: "list_rep h init_segments_ctx []"
  by (simp add: list_rep_def init_segments_ctx_def)

lemma tracks_init: "tracks h init_segments_ctx [] ([], None)"
  by (simp add: tracks_def) (simp add: init_segments_ctx_def)

lemma list_rep_length: "list_rep h ctx ns \<Longrightarrow> plenty h \<Longrightarrow> length ns < brk h"
  by (auto simp: list_rep_def intro: chain_length)

lemma get_complement_segment_refines:
  assumes "list_rep h ctx ns" and "plenty h"
  shows "\<exists>h' cps ms. get_complement_segment h ctx lo hi = Inr (h', cps) \<and> list_rep h' cps ms \<and>
     map snd ms = compl_spec (map snd ns) lo hi \<and> same_outside {} h h' \<and> addrs ms \<subseteq> {brk h..<brk h'}"
proof -
  have ch: "chain h (segments ctx) ns" "\<forall>q\<in>addrs ns. q < brk h"
    using assms(1) by (auto simp: list_rep_def)
  obtain h1 cps1 ms1 ss se where loop:
      "complement_loop (Suc (brk h)) h lo hi (segments ctx) init_segments_ctx 0 0 = Inr (h1, cps1, ss, se)"
      "compl_scan lo hi (map snd ns) (0, 0, []) = (ss, se, map snd ms1)"
      "list_rep h1 cps1 ms1" "same_outside {} h h1" "addrs ms1 \<subseteq> {brk h..<brk h1}"
    using complement_loop_refines [OF ch list_rep_init _ assms(2), of "Suc (brk h)" lo hi 0 0]
      list_rep_length [OF assms] by auto
  have start: "(if segments ctx \<noteq> NULL
      then complement_loop (Suc (brk h)) h lo hi (segments ctx) init_segments_ctx 0 0
      else Inr (h, init_segments_ctx, 0, 0)) = Inr (h1, cps1, ss, se)"
    using loop(1) by auto
  show ?thesis
  proof (cases "ss < hi \<and> se < ss")
    case True
    have "plenty h1" using assms(2) loop(4) by (rule plenty_same)
    then obtain h' cps ms where push: "push_segment h1 cps1 ss hi = Inr (h', cps)" "list_rep h' cps ms"
        "map snd ms = append_spec (map snd ms1) (ss, hi)" "same_outside (addrs ms1) h1 h'"
        "addrs ms \<subseteq> addrs ms1 \<union> {brk h1..<brk h'}"
      using push_segment_refines [OF loop(3)] by blast
    have "same_outside {} h h'"
      using loop(4) push(4) by (rule same_outside_trans) (use loop(5) in auto)
    moreover have "addrs ms \<subseteq> {brk h..<brk h'}"
      using loop(4,5) push(4,5) by (fastforce simp: same_outside_def)
    ultimately show ?thesis
      using True loop(2) push unfolding get_complement_segment_def start
      by (auto simp: compl_spec_def)
  next
    case False
    then show ?thesis
      using loop(2-5) unfolding get_complement_segment_def start by (auto simp: compl_spec_def)
  qed
qed

lemma merge_loop_refines:
  assumes "chain h pa as" and "chain h pb bs" and "\<forall>q\<in>addrs as \<union> addrs bs. q < brk h"
    and "tracks h res ms st" and "(addrs as \<union> addrs bs) \<inter> owned res ms = {}" and "plenty h"
    and "length as + length bs < fuel"
  shows "\<exists>h' res' ms'. merge_loop fuel h pa pb res = Inr (h', res') \<and>
     tracks h' res' ms' (foldl range_spec st (merge_order (map snd as) (map snd bs))) \<and>
     same_outside (owned res ms) h h' \<and> owned res' ms' \<subseteq> owned res ms \<union> {brk h..<brk h'}"
  using assms
proof (induction fuel arbitrary: h pa as pb bs res ms st)
  case (Suc fuel)
  have step: "\<exists>h1 res1 ms1 h' res' ms'. update_segments_range h res (fst c) (snd c) = Inr (h1, res1, True) \<and>
       merge_loop fuel h1 qa qb res1 = Inr (h', res') \<and>
       tracks h' res' ms' (foldl range_spec (range_spec st c) (merge_order (map snd as') (map snd bs'))) \<and>
       same_outside (owned res ms) h h' \<and> owned res' ms' \<subseteq> owned res ms \<union> {brk h..<brk h'}"
    if prem: "chain h qa as'" "chain h qb bs'" "\<forall>q\<in>addrs as' \<union> addrs bs'. q \<in> addrs as \<union> addrs bs"
      "length as' + length bs' < fuel" for c qa qb as' bs'
  proof -
    obtain h1 res1 ms1 where up: "update_segments_range h res (fst c) (snd c) = Inr (h1, res1, True)"
        "tracks h1 res1 ms1 (range_spec st c)" "same_outside (owned res ms) h h1"
        "owned res1 ms1 \<subseteq> owned res ms \<union> {brk h..<brk h1}"
      using update_segments_range_refines [OF Suc.prems(4,6), of "fst c" "snd c"] by auto
    have lt: "\<forall>q\<in>addrs as' \<union> addrs bs'. q < brk h" and dj: "(addrs as' \<union> addrs bs') \<inter> owned res ms = {}"
      using Suc.prems(3,5) prem(3) by blast+
    have "chain h1 qa as'" "chain h1 qb bs'"
      using chain_same_outside [OF prem(1) up(3)] chain_same_outside [OF prem(2) up(3)] lt dj by blast+
    moreover have "brk h \<le> brk h1" using up(3) by (simp add: same_outside_def)
    with lt have "\<forall>q\<in>addrs as' \<union> addrs bs'. q < brk h1" by (meson less_le_trans)
    moreover have "(addrs as' \<union> addrs bs') \<inter> owned res1 ms1 = {}"
      using lt dj up(4) by (rule fresh_disjoint)
    moreover have "plenty h1" using Suc.prems(6) up(3) by (rule plenty_same)
    ultimately obtain h' res' ms' where rec: "merge_loop fuel h1 qa qb res1 = Inr (h', res')"
        "tracks h' res' ms' (foldl range_spec (range_spec st c) (merge_order (map snd as') (map snd bs')))"
        "same_outside (owned res1 ms1) h1 h'" "owned res' ms' \<subseteq> owned res1 ms1 \<union> {brk h1..<brk h'}"
      using Suc.IH [of h1 qa as' qb bs' res1 ms1 "range_spec st c"] up(2) prem(4) by blast
    have "same_outside (owned res ms) h h'"
      using up(3) rec(3) by (rule same_outside_trans) (use up(4) in auto)
    moreover have "owned res' ms' \<subseteq> owned res ms \<union> {brk h..<brk h'}"
      using up(3,4) rec(3,4) by (fastforce simp: same_outside_def)
    ultimately show ?thesis using up(1) rec(1,2) by blast
  qed
  show ?case
  proof (cases as)
    case Nil
    show ?thesis
    proof (cases bs)
      case (Cons b bs')
      obtain q where "pb \<noteq> NULL" "chain h q bs'"
          "nodes h pb = Some \<lparr>seg_start = fst (snd b), seg_end = snd (snd b), seg_next = q\<rparr>"
        using Suc.prems(2) Cons by (auto elim: chain_Cons_cases)
      with step [of pa "[]" q bs' "snd b"] Nil Cons Suc.prems show ?thesis by auto
    qed (use Nil Suc.prems in auto)
  next
    case a: (Cons a as')
    obtain qa where qa: "pa \<noteq> NULL" "chain h qa as'"
        "nodes h pa = Some \<lparr>seg_start = fst (snd a), seg_end = snd (snd a), seg_next = qa\<rparr>"
      using Suc.prems(1) a by (auto elim: chain_Cons_cases)
    show ?thesis
    proof (cases bs)
      case Nil
      with step [of qa as' pb "[]" "snd a"] a qa Suc.prems show ?thesis by auto
    next
      case (Cons b bs')
      obtain qb where qb: "pb \<noteq> NULL" "chain h qb bs'"
          "nodes h pb = Some \<lparr>seg_start = fst (snd b), seg_end = snd (snd b), seg_next = qb\<rparr>"
        using Suc.prems(2) Cons by (auto elim: chain_Cons_cases)
      show ?thesis
        using step [of qa as' pb bs "snd a"] step [of pa as qb bs' "snd b"] a Cons qa qb Suc.prems
        by (cases "fst (snd a) < fst (snd b)") auto
    qed
  qed
qed simp

lemma merge_segments_refines:
  assumes "list_rep h a as" and "list_rep h b bs" and "plenty h"
  shows "\<exists>h' res ms. merge_segments h a b = Inr (h', res) \<and> list_rep h' res ms \<and>
     map snd ms = merge_spec (map snd as) (map snd bs) \<and> same_outside {NULL} h h' \<and>
     addrs ms \<subseteq> insert NULL {brk h..<brk h'}"
proof -
  have rep: "chain h (segments a) as" "chain h (segments b) bs" "\<forall>q\<in>addrs as \<union> addrs bs. q < brk h"
    using assms(1,2) by (auto simp: list_rep_def)
  have own: "owned init_segments_ctx [] = {NULL}" by (simp add: owned_def init_segments_ctx_def)
  have dj: "(addrs as \<union> addrs bs) \<inter> owned init_segments_ctx [] = {}"
    unfolding own using chain_not_NULL [OF rep(1)] chain_not_NULL [OF rep(2)] by blast
  have "length as + length bs < Suc (2 * brk h)"
    using list_rep_length [OF assms(1,3)] list_rep_length [OF assms(2,3)] by simp
  from merge_loop_refines [OF rep tracks_init dj assms(3) this] obtain h1 res1 ms1 where loop:
      "merge_loop (Suc (2 * brk h)) h (segments a) (segments b) init_segments_ctx = Inr (h1, res1)"
      "tracks h1 res1 ms1 (foldl range_spec ([], None) (merge_order (map snd as) (map snd bs)))"
      "same_outside {NULL} h h1" "owned res1 ms1 \<subseteq> {NULL} \<union> {brk h..<brk h1}"
    unfolding own by blast
  obtain h' res ms where close: "close_segments h1 res1 = Inr (h', res)" "list_rep h' res ms"
      "map snd ms = merge_spec (map snd as) (map snd bs)" "brk h' = brk h1"
      "same_outside (owned res1 ms1) h1 h'" "addrs ms \<subseteq> owned res1 ms1"
    using close_segments_refines [OF loop(2)] unfolding merge_spec_def by blast
  have "same_outside {NULL} h h'"
    using loop(3) close(5) by (rule same_outside_trans) (use loop(4) in auto)
  with loop close show ?thesis by (auto simp: merge_segments_def)
qed

section \<open>Reading contexts back\<close>

lemma read_chain_chain: "chain h p ns \<Longrightarrow> length ns < fuel \<Longrightarrow> read_chain fuel h p = map snd ns"
proof (induction ns arbitrary: p fuel)
  case Nil
  then show ?case by (cases fuel) (auto split: option.splits)
next
  case (Cons n ns)
  then show ?case by (cases fuel) auto
qed

lemma segs_list_rep: "list_rep h ctx ns \<Longrightarrow> plenty h \<Longrightarrow> segs h ctx = map snd ns"
  using list_rep_length [of h ctx ns] by (simp add: segs_def list_rep_def read_chain_chain)

lemma recorded_tracks: "tracks h ctx ns st \<Longrightarrow> plenty h \<Longrightarrow> recorded h ctx = covered (all_segs st)"
  by (cases st; cases "snd st")
    (auto simp: recorded_def tracks_def open_segs_def open_rep_def segs_list_rep)

lemma update_segments_tracks:
  assumes "tracks h ctx ns st" and "plenty h"
  obtains h' ctx' ns' where "update_segments h ctx p = Inr (h', ctx', True)"
    "tracks h' ctx' ns' (range_spec st (p, p))" "plenty h'"
  using update_segments_range_refines [OF assms, of p p] plenty_same [OF assms(2)]
  unfolding update_segments_def by blast

section \<open>What a client of the segment list may rely on\<close>

text \<open>
  The contract of the bookkeeping: recording a packet never fails and never makes up another one
  (\<open>packet_tracker\<close>); and as long as packets come in increasing order, it is recorded exactly
  (\<open>in_order_tracker\<close>). Both lift to whole transfers.
\<close>

locale packet_tracker =
  fixes step :: "'s \<Rightarrow> u32 \<Rightarrow> 's c_result"
    and invar :: "'s \<Rightarrow> bool"
    and held :: "'s \<Rightarrow> u32 set"
  assumes step_sound: "invar s \<Longrightarrow> \<exists>s'. step s p = Inr s' \<and> invar s' \<and> held s' \<subseteq> insert p (held s)"
begin

lemma run_sound:
  "invar s \<Longrightarrow> \<exists>s'. fold_c step s ps = Inr s' \<and> invar s' \<and> held s' \<subseteq> held s \<union> set ps"
proof (induction ps arbitrary: s)
  case (Cons p ps)
  obtain s1 where s1: "step s p = Inr s1" "invar s1" "held s1 \<subseteq> insert p (held s)"
    using step_sound [OF Cons.prems] by blast
  obtain s2 where "fold_c step s1 ps = Inr s2" "invar s2" "held s2 \<subseteq> held s1 \<union> set ps"
    using Cons.IH [OF s1(2)] by blast
  with s1 show ?case by auto
qed auto

end

locale in_order_tracker = packet_tracker +
  fixes tidy :: "'s \<Rightarrow> bool"
  assumes tidy_invar: "tidy s \<Longrightarrow> invar s"
    and step_exact: "tidy s \<Longrightarrow> \<forall>x\<in>held s. x \<le> p \<Longrightarrow> p \<noteq> UINT32_MAX \<Longrightarrow>
      \<exists>s'. step s p = Inr s' \<and> tidy s' \<and> held s' = insert p (held s)"
begin

lemma run_exact:
  "tidy s \<Longrightarrow> sorted ps \<Longrightarrow> \<forall>x\<in>held s. \<forall>p\<in>set ps. x \<le> p \<Longrightarrow> UINT32_MAX \<notin> set ps \<Longrightarrow>
   \<exists>s'. fold_c step s ps = Inr s' \<and> tidy s' \<and> held s' = held s \<union> set ps"
proof (induction ps arbitrary: s)
  case (Cons p ps)
  obtain s1 where s1: "step s p = Inr s1" "tidy s1" "held s1 = insert p (held s)"
    using step_exact [of s p] Cons.prems by auto
  obtain s2 where "fold_c step s1 ps = Inr s2" "tidy s2" "held s2 = held s1 \<union> set ps"
    using Cons.IH [OF s1(2)] Cons.prems s1(3) by auto
  with s1 show ?case by auto
qed auto

end

lemma trackingI: "plenty h \<Longrightarrow> tracks h ctx ns st \<Longrightarrow> tracking (h, ctx)"
  unfolding tracking_def fst_conv snd_conv by blast

lemma tracking_in_orderI:
  "plenty h \<Longrightarrow> tracks h ctx ns st \<Longrightarrow> ordered (all_segs st) \<Longrightarrow> tracking_in_order (h, ctx)"
  unfolding tracking_in_order_def fst_conv snd_conv by blast

lemma tracker_step_sound:
  assumes "tracking s"
  shows "\<exists>s'. tracker_step s p = Inr s' \<and> tracking s' \<and>
    recorded (fst s') (snd s') \<subseteq> insert p (recorded (fst s) (snd s))"
proof -
  obtain ns st where t: "tracks (fst s) (snd s) ns st" "plenty (fst s)"
    using assms unfolding tracking_def by blast
  obtain h' ctx' ns' where u: "update_segments (fst s) (snd s) p = Inr (h', ctx', True)"
      "tracks h' ctx' ns' (range_spec st (p, p))" "plenty h'"
    using update_segments_tracks [OF t] .
  have "recorded h' ctx' \<subseteq> insert p (recorded (fst s) (snd s))"
    using range_spec_sound [of st "(p, p)"] t u by (simp add: recorded_tracks seg_set_def)
  moreover have "tracking (h', ctx')" using u(3,2) by (rule trackingI)
  ultimately show ?thesis using u(1) by (simp add: tracker_step_def)
qed

lemma range_spec_packet:
  assumes "ordered (all_segs (xs, d))" and "xs \<noteq> [] \<Longrightarrow> d \<noteq> None"
    and "\<forall>x\<in>covered (all_segs (xs, d)). x \<le> p" and "p \<noteq> UINT32_MAX"
  shows "ordered (all_segs (range_spec (xs, d) (p, p))) \<and>
    covered (all_segs (range_spec (xs, d) (p, p))) = insert p (covered (all_segs (xs, d)))"
proof (cases d)
  case None
  then have "xs = []" using assms(2) by auto
  with None assms(4) show ?thesis by (simp add: range_spec_def seg_set_def)
next
  case (Some c)
  then have od: "ordered (xs @ [c])" using assms(1) by simp
  then have "fst c \<le> snd c" by (simp add: ordered_snoc)
  then have "fst c \<le> p" using assms(3) Some by auto
  then obtain ys d' where "range_spec (xs, Some c) (p, p) = (ys, Some d')" "ordered (ys @ [d'])"
      "covered (ys @ [d']) = covered (xs @ [c]) \<union> seg_set (p, p)"
    using range_spec_in_order [OF od, of "(p, p)"] assms(4) by auto
  then show ?thesis using Some by (simp add: seg_set_def)
qed

lemma tracker_step_exact:
  assumes "tracking_in_order s" and "\<forall>x\<in>recorded (fst s) (snd s). x \<le> p" and "p \<noteq> UINT32_MAX"
  shows "\<exists>s'. tracker_step s p = Inr s' \<and> tracking_in_order s' \<and>
    recorded (fst s') (snd s') = insert p (recorded (fst s) (snd s))"
proof -
  obtain ns xs d where t: "tracks (fst s) (snd s) ns (xs, d)" "plenty (fst s)" "ordered (all_segs (xs, d))"
    using assms(1) unfolding tracking_in_order_def by (metis surj_pair)
  obtain h' ctx' ns' where u: "update_segments (fst s) (snd s) p = Inr (h', ctx', True)"
      "tracks h' ctx' ns' (range_spec (xs, d) (p, p))" "plenty h'"
    using update_segments_tracks [OF t(1,2)] .
  have "xs \<noteq> [] \<Longrightarrow> d \<noteq> None" using t(1) by (cases d) (auto simp: tracks_def)
  from range_spec_packet [OF t(3) this] assms(2,3)
  have r: "ordered (all_segs (range_spec (xs, d) (p, p)))"
      "covered (all_segs (range_spec (xs, d) (p, p))) = insert p (covered (all_segs (xs, d)))"
    by (simp_all add: recorded_tracks [OF t(1,2)])
  have "tracking_in_order (h', ctx')" using u(3,2) r(1) by (rule tracking_in_orderI)
  with u t r(2) show ?thesis by (simp add: tracker_step_def recorded_tracks)
qed

interpretation trk: in_order_tracker tracker_step tracking "\<lambda>s. recorded (fst s) (snd s)" tracking_in_order
proof
  show "\<exists>s'. tracker_step s p = Inr s' \<and> tracking s' \<and>
      recorded (fst s') (snd s') \<subseteq> insert p (recorded (fst s) (snd s))" if "tracking s" for s p
    using that by (rule tracker_step_sound)
  show "tracking s" if "tracking_in_order s" for s
    using that unfolding tracking_in_order_def tracking_def by blast
  show "\<exists>s'. tracker_step s p = Inr s' \<and> tracking_in_order s' \<and>
      recorded (fst s') (snd s') = insert p (recorded (fst s) (snd s))"
    if "tracking_in_order s" "\<forall>x\<in>recorded (fst s) (snd s). x \<le> p" "p \<noteq> UINT32_MAX" for s p
    using that by (rule tracker_step_exact)
qed

section \<open>Walks over a list\<close>

lemma list_rep_same_outside:
  assumes "list_rep h ctx ns" and "same_outside A h h'" and "addrs ns \<inter> A \<subseteq> {NULL}"
  shows "list_rep h' ctx ns"
proof -
  have "nodes h' q = nodes h q" if "q \<in> addrs ns" for q
    using that assms chain_not_NULL [of h "segments ctx" ns q] by (auto simp: same_outside_def list_rep_def)
  with assms(1,2) show ?thesis by (intro list_rep_same [OF assms(1)]) (auto simp: same_outside_def)
qed

text \<open>The walk over a list, on the segments themselves.\<close>

fun for_each_list :: "(u32 \<Rightarrow> u32 \<Rightarrow> u32 \<Rightarrow> 's \<Rightarrow> ('s \<times> bool) c_result) \<Rightarrow> u32 \<Rightarrow> seg list \<Rightarrow> 's \<Rightarrow> 's c_result" where
  "for_each_list cb i [] st = Inr st"
| "for_each_list cb i (c # cs) st = c_bind (cb i (fst c) (snd c) st) (\<lambda>(st1, carry_on).
     if \<not> carry_on then Inr st1 else for_each_list cb (i + 1) cs st1)"

lemma for_each_loop_chain:
  assumes "chain h p ns" and "length ns < fuel"
  shows "for_each_loop fuel h p i cb st = for_each_list cb i (map snd ns) st"
  using assms
proof (induction ns arbitrary: p i st fuel)
  case Nil
  then show ?case by (cases fuel) auto
next
  case (Cons n ns)
  obtain m where fuel: "fuel = Suc m" "length ns < m" using Cons.prems(2) by (cases fuel) auto
  obtain q where "p \<noteq> NULL" "chain h q ns"
      "nodes h p = Some \<lparr>seg_start = fst (snd n), seg_end = snd (snd n), seg_next = q\<rparr>"
    using Cons.prems(1) by (rule chain_Cons_cases)
  then show ?case
    using Cons.IH [of q m "i + 1"] fuel by (simp cong: if_cong)
qed

lemma for_each_segment_list:
  assumes "list_rep h ctx ns" and "plenty h"
  shows "for_each_segment h ctx cb st = for_each_list cb 0 (map snd ns) st"
proof -
  have ch: "chain h (segments ctx) ns" using assms(1) by (simp add: list_rep_def)
  then have "ns = []" if "segments ctx = NULL" using that by simp
  then show ?thesis
    using for_each_loop_chain [OF ch, of "Suc (brk h)"] list_rep_length [OF assms]
    by (auto simp: for_each_segment_def)
qed

definition indexed :: "seg list \<Rightarrow> (u32 \<times> seg) list" where
  "indexed cs = zip (map of_nat [0..<length cs]) cs"

lemma for_each_list_collect:
  "for_each_list (\<lambda>i s e out. Inr (out @ [(i, s, e)], True)) (of_nat k) cs out =
     Inr (out @ zip (map of_nat [k..<k + length cs]) cs)"
proof (induction cs arbitrary: k out)
  case (Cons c cs)
  have "[k..<k + length (c # cs)] = k # [Suc k..<Suc k + length cs]" by (simp add: upt_conv_Cons del: upt_Suc)
  with Cons.IH [of "Suc k"] show ?case by (simp add: add.commute del: upt_Suc)
qed simp

lemma print_segments_rep:
  "list_rep h ctx ns \<Longrightarrow> plenty h \<Longrightarrow> print_segments h ctx = Inr (indexed (map snd ns))"
  using for_each_list_collect [of 0 "map snd ns" "[]"]
  by (simp add: print_segments_def for_each_segment_list indexed_def)

lemma add_loop_chain:
  assumes "chain h p ns" and "ns \<noteq> []" and "distinct (map fst ns)" and "a \<notin> addrs ns" and "a \<noteq> NULL"
    and "nodes h a = Some \<lparr>seg_start = fst c, seg_end = snd c, seg_next = NULL\<rparr>" and "length ns \<le> fuel"
  shows "\<exists>h'. add_loop fuel h p a = Inr h' \<and> chain h' p (ns @ [(a, c)]) \<and> brk h' = brk h \<and>
    malloc_ok h' = malloc_ok h \<and> (\<forall>q. q \<notin> addrs ns \<longrightarrow> nodes h' q = nodes h q)"
  using assms
proof (induction ns arbitrary: p fuel)
  case (Cons n ns)
  obtain m where fuel: "fuel = Suc m" "length ns \<le> m" using Cons.prems(7) by (cases fuel) auto
  obtain q where q: "p = fst n" "p \<noteq> NULL" "chain h q ns"
      "nodes h p = Some \<lparr>seg_start = fst (snd n), seg_end = snd (snd n), seg_next = q\<rparr>"
    using Cons.prems(1) by (rule chain_Cons_cases)
  have dist: "fst n \<notin> addrs ns" "distinct (map fst ns)" "a \<notin> addrs ns" "a \<noteq> fst n"
    using Cons.prems(3,4) distinct_addrs_Cons [of n ns] by auto
  show ?case
  proof (cases "ns = []")
    case True
    then have "q = NULL" using q(3) by simp
    with True q dist Cons.prems(5,6) fuel show ?thesis by auto
  next
    case False
    then have "q \<noteq> NULL" using q(3) by (cases ns) auto
    obtain h' where h': "add_loop m h q a = Inr h'" "chain h' q (ns @ [(a, c)])" "brk h' = brk h"
        "malloc_ok h' = malloc_ok h" "\<forall>q. q \<notin> addrs ns \<longrightarrow> nodes h' q = nodes h q"
      using Cons.IH [OF q(3) False dist(2,3) Cons.prems(5,6) fuel(2)] by blast
    with q dist \<open>q \<noteq> NULL\<close> fuel show ?thesis by auto
  qed
qed simp

lemma add_segment_rep:
  assumes "list_rep h ctx ns" and "plenty h"
  shows "\<exists>h' ctx' ns'. add_segment h ctx s e = Inr (h', ctx') \<and> list_rep h' ctx' ns' \<and>
    map snd ns' = map snd ns @ [(s, e)] \<and> plenty h'"
proof -
  obtain h1 where m: "malloc h = (h1, brk h)" "init_node h1 (brk h) s e = Inr (alloc h s e)"
    using malloc_plenty [OF assms(2)] by blast
  have op: "open_rep (alloc h s e) (ctx\<lparr>cur_segment := brk h\<rparr>) ns (s, e)"
    using open_rep_alloc [OF assms] .
  have pl: "plenty (alloc h s e)" using assms(2) by (simp add: plenty_def)
  show ?thesis
  proof (cases "ns = []")
    case True
    then have "segments ctx = NULL" using assms(1) by (simp add: list_rep_def)
    then show ?thesis
      using True m pl op
      by (intro exI [of _ "alloc h s e"] exI [of _ "ctx\<lparr>segments := brk h, nof_segments := nof_segments ctx + 1\<rparr>"]
            exI [of _ "[(brk h, s, e)]"])
        (simp add: add_segment_def list_rep_def open_rep_def)
  next
    case False
    have rep: "chain (alloc h s e) (segments ctx) ns" "distinct (map fst ns)" "brk h \<notin> addrs ns"
        "\<forall>q\<in>addrs ns. q < Suc (brk h)" "nof_segments ctx = of_nat (length ns)"
      using op by (auto simp: open_rep_def list_rep_def)
    have "segments ctx \<noteq> NULL" using rep(1) False by (cases ns) auto
    moreover obtain h' where h': "add_loop (brk h) (alloc h s e) (segments ctx) (brk h) = Inr h'"
        "chain h' (segments ctx) (ns @ [(brk h, s, e)])" "brk h' = Suc (brk h)"
        "malloc_ok h' = malloc_ok h"
      using add_loop_chain [OF rep(1) False rep(2,3), of "(s, e)" "brk h"] list_rep_length [OF assms] assms(2)
      by auto
    moreover have "list_rep h' (ctx\<lparr>nof_segments := nof_segments ctx + 1\<rparr>) (ns @ [(brk h, s, e)])"
      using h' rep by (auto simp: list_rep_def addrs_def)
    moreover have "plenty h'" using h' assms(2) by (simp add: plenty_def)
    ultimately show ?thesis using m by (auto simp: add_segment_def)
  qed
qed

lemma free_loop_chain:
  assumes "chain h p ns" and "distinct (map fst ns)" and "length ns < fuel"
  shows "\<exists>h'. free_loop fuel h p = Inr h' \<and> brk h' = brk h \<and> malloc_ok h' = malloc_ok h \<and>
    (\<forall>q. nodes h' q = (if q \<in> addrs ns then None else nodes h q))"
  using assms
proof (induction ns arbitrary: h p fuel)
  case Nil
  then show ?case by (cases fuel) auto
next
  case (Cons n ns)
  obtain m where fuel: "fuel = Suc m" "length ns < m" using Cons.prems(3) by (cases fuel) auto
  obtain q where q: "p = fst n" "p \<noteq> NULL" "chain h q ns"
      "nodes h p = Some \<lparr>seg_start = fst (snd n), seg_end = snd (snd n), seg_next = q\<rparr>"
    using Cons.prems(1) by (rule chain_Cons_cases)
  have dist: "fst n \<notin> addrs ns" "distinct (map fst ns)"
    using Cons.prems(2) distinct_addrs_Cons [of n ns] by auto
  let ?h = "h\<lparr>nodes := (nodes h)(p := None)\<rparr>"
  have "chain ?h q ns" using q dist by simp
  from Cons.IH [OF this dist(2) fuel(2)] obtain h' where
    "free_loop m ?h q = Inr h'" "brk h' = brk h" "malloc_ok h' = malloc_ok h"
    "\<forall>a. nodes h' a = (if a \<in> addrs ns then None else nodes ?h a)" by auto
  with q fuel show ?case by auto
qed

lemma free_segments_rep:
  assumes "list_rep h ctx ns" and "plenty h"
  shows "\<exists>h'. free_segments h (Some ctx) = Inr h' \<and> same_outside (addrs ns) h h' \<and> brk h' = brk h \<and>
    (\<forall>q. nodes h' q = (if q \<in> addrs ns then None else nodes h q))"
proof -
  have rep: "chain h (segments ctx) ns" "distinct (map fst ns)"
    using assms(1) by (auto simp: list_rep_def)
  have "ns = []" if "segments ctx = NULL" using rep(1) that by simp
  then show ?thesis
    using free_loop_chain [OF rep, of "Suc (brk h)"] list_rep_length [OF assms]
    by (auto simp: free_segments_def same_outside_def)
qed

end
