(* ===== verification/Segments_Correct.thy ===== *)
theory Segments_Correct
  imports Segments
begin

text \<open>
  What the segment lists of the client guarantee, stated about the functions of
  \<open>src/dtp_client_posix_segments_utils.c\<close> themselves: exact records for packets that arrive in
  order, sound records in any order, exact unions, the complement the code really computes, the
  round trip through \<open>add_segment\<close>, release without leaks, and the two uses that access
  released memory.
\<close>

section \<open>Concrete heaps for the witnesses\<close>

definition empty_heap :: heap where
  "empty_heap = \<lparr>nodes = (\<lambda>_. None), brk = 1, malloc_ok = (\<lambda>_. True)\<rparr>"

definition two_lists :: heap where
  "two_lists = \<lparr>nodes = (\<lambda>_. None)
      (4 := Some \<lparr>seg_start = 0, seg_end = 2, seg_next = NULL\<rparr>,
       2 := Some \<lparr>seg_start = 2, seg_end = 3, seg_next = 3\<rparr>,
       3 := Some \<lparr>seg_start = 6, seg_end = 7, seg_next = NULL\<rparr>),
     brk = 5, malloc_ok = (\<lambda>_. True)\<rparr>"

definition ctx_at :: "ptr \<Rightarrow> u32 \<Rightarrow> segments_ctx_t" where
  "ctx_at p n = \<lparr>segments = p, cur_segment = NULL, nof_segments = n, started = True\<rparr>"

lemma plenty_empty_heap: "plenty empty_heap"
  by (simp add: plenty_def empty_heap_def)

lemma two_lists_closed: "closed_ctx two_lists (ctx_at 4 1)" "closed_ctx two_lists (ctx_at 2 2)"
proof -
  have "list_rep two_lists (ctx_at 4 1) [(4, 0, 2)]" "list_rep two_lists (ctx_at 2 2) [(2, 2, 3), (3, 6, 7)]"
    by (simp_all add: list_rep_def two_lists_def ctx_at_def)
  then show "closed_ctx two_lists (ctx_at 4 1)" "closed_ctx two_lists (ctx_at 2 2)"
    by (auto simp: closed_ctx_def plenty_def two_lists_def)
qed

lemma two_lists_segs: "segs two_lists (ctx_at 4 1) = [(0, 2)]" "segs two_lists (ctx_at 2 2) = [(2, 3), (6, 7)]"
  by (simp_all add: segs_def two_lists_def ctx_at_def numeral_eq_Suc)

section \<open>Recording a transfer\<close>

lemma close_tracking_in_order:
  assumes "tracking_in_order (h, ctx)"
  shows "\<exists>h' ctx'. close_segments h ctx = Inr (h', ctx') \<and> closed_ctx h' ctx' \<and>
    ordered (segs h' ctx') \<and> covered (segs h' ctx') = recorded h ctx"
proof -
  obtain ns st where t: "tracks h ctx ns st" "plenty h" "ordered (all_segs st)"
    using assms unfolding tracking_in_order_def by auto
  obtain h' ctx' ns' where c: "close_segments h ctx = Inr (h', ctx')" "list_rep h' ctx' ns'"
      "map snd ns' = close_spec st" "same_outside (owned ctx ns) h h'"
    using close_segments_refines [OF t(1)] by blast
  have "plenty h'" using t(2) c(4) by (rule plenty_same)
  with t c show ?thesis
    by (auto simp: closed_ctx_def segs_list_rep recorded_tracks close_spec_ordered)
qed

text \<open>
  C5. A transfer whose packets arrive in increasing order (any of them may be missing or repeated)
  is recorded exactly: recording and closing never fail, and the closed list is in normal form and
  stands for precisely the packets received.
\<close>

theorem in_order_transfer_recorded:
  assumes "plenty h" and "sorted ps" and "UINT32_MAX \<notin> set ps"
  shows "\<exists>h1 c1 h2 c2. update_all h init_segments_ctx ps = Inr (h1, c1) \<and>
    close_segments h1 c1 = Inr (h2, c2) \<and> closed_ctx h2 c2 \<and> ordered (segs h2 c2) \<and>
    covered (segs h2 c2) = set ps"
proof -
  have "tracking_in_order (h, init_segments_ctx)"
    using assms(1) tracks_init by (rule tracking_in_orderI) simp
  moreover have "recorded h init_segments_ctx = {}"
    using recorded_tracks [OF tracks_init assms(1)] by simp
  ultimately obtain h1 c1 where run: "update_all h init_segments_ctx ps = Inr (h1, c1)"
      "tracking_in_order (h1, c1)" "recorded h1 c1 = set ps"
    using trk.run_exact [of "(h, init_segments_ctx)" ps] assms(2,3) by (auto simp: update_all_def)
  with close_tracking_in_order [OF run(2)] show ?thesis by auto
qed

theorem in_order_transfer_recorded_witness:
  "\<exists>h1 c1 h2 c2. update_all empty_heap init_segments_ctx [0, 1, 4, 4, 6] = Inr (h1, c1) \<and>
    close_segments h1 c1 = Inr (h2, c2) \<and> closed_ctx h2 c2 \<and> ordered (segs h2 c2) \<and>
    covered (segs h2 c2) = {0, 1, 4, 6}"
  using in_order_transfer_recorded [OF plenty_empty_heap, of "[0, 1, 4, 4, 6]"] by simp

text \<open>
  C13. In whatever order packets arrive, recording them never fails (no NULL or stale pointer is
  followed, no loop diverges) and the record never claims a packet that did not arrive: what is
  missing is asked for again.
\<close>

theorem any_order_recorded_soundly:
  assumes "plenty h"
  shows "\<exists>h1 c1 h2 c2. update_all h init_segments_ctx ps = Inr (h1, c1) \<and>
    close_segments h1 c1 = Inr (h2, c2) \<and> closed_ctx h2 c2 \<and> covered (segs h2 c2) \<subseteq> set ps"
proof -
  have "tracking (h, init_segments_ctx)" using assms tracks_init by (rule trackingI)
  moreover have "recorded h init_segments_ctx = {}"
    using recorded_tracks [OF tracks_init assms] by simp
  ultimately obtain h1 c1 where run: "update_all h init_segments_ctx ps = Inr (h1, c1)"
      "tracking (h1, c1)" "recorded h1 c1 \<subseteq> set ps"
    using trk.run_sound [of "(h, init_segments_ctx)" ps] by (auto simp: update_all_def)
  then obtain ns st where t: "tracks h1 c1 ns st" "plenty h1" unfolding tracking_def by auto
  obtain h2 c2 ns' where c: "close_segments h1 c1 = Inr (h2, c2)" "list_rep h2 c2 ns'"
      "map snd ns' = close_spec st" "same_outside (owned c1 ns) h1 h2"
    using close_segments_refines [OF t(1)] by blast
  have "plenty h2" using t(2) c(4) by (rule plenty_same)
  moreover have "covered (close_spec st) \<subseteq> set ps"
    using close_spec_sound [of st] run(3) recorded_tracks [OF t] by simp
  ultimately show ?thesis using run(1) c by (auto simp: closed_ctx_def segs_list_rep)
qed

theorem any_order_recorded_soundly_witness:
  "\<exists>h1 c1 h2 c2. update_all empty_heap init_segments_ctx [5, 3, 9, 4] = Inr (h1, c1) \<and>
    close_segments h1 c1 = Inr (h2, c2) \<and> closed_ctx h2 c2 \<and> covered (segs h2 c2) \<subseteq> {5, 3, 9, 4}"
  using any_order_recorded_soundly [OF plenty_empty_heap, of "[5, 3, 9, 4]"] by simp

section \<open>Merging, complement, round trip\<close>

text \<open>
  C14. Merging two records in normal form yields the normal form of their union and leaves both
  arguments as they were.
\<close>

theorem merge_segments_union:
  assumes "closed_ctx h a" and "closed_ctx h b" and "ordered (segs h a)" and "ordered (segs h b)"
  shows "\<exists>h' r. merge_segments h a b = Inr (h', r) \<and> closed_ctx h' r \<and> ordered (segs h' r) \<and>
    covered (segs h' r) = covered (segs h a) \<union> covered (segs h b) \<and>
    segs h' a = segs h a \<and> segs h' b = segs h b"
proof -
  obtain as bs where rep: "plenty h" "list_rep h a as" "list_rep h b bs"
    using assms(1,2) by (auto simp: closed_ctx_def)
  obtain h' r ms where m: "merge_segments h a b = Inr (h', r)" "list_rep h' r ms"
      "map snd ms = merge_spec (map snd as) (map snd bs)" "same_outside {NULL} h h'"
    using merge_segments_refines [OF rep(2,3,1)] by blast
  have pl: "plenty h'" using rep(1) m(4) by (rule plenty_same)
  have keep: "list_rep h' a as" "list_rep h' b bs"
    using list_rep_same_outside [OF rep(2) m(4)] list_rep_same_outside [OF rep(3) m(4)] by auto
  have sg: "segs h a = map snd as" "segs h b = map snd bs" "segs h' r = map snd ms"
      "segs h' a = map snd as" "segs h' b = map snd bs"
    using rep m(2) keep pl by (simp_all add: segs_list_rep)
  show ?thesis
    using m(1,2) pl merge_spec_exact [of "map snd as" "map snd bs"] assms(3,4)
    by (auto simp: sg m(3) closed_ctx_def)
qed

theorem merge_segments_union_witness:
  "\<exists>h' r. merge_segments two_lists (ctx_at 4 1) (ctx_at 2 2) = Inr (h', r) \<and>
    closed_ctx h' r \<and> ordered (segs h' r) \<and> covered (segs h' r) = {0..3} \<union> {6..7}"
proof -
  have od: "ordered (segs two_lists (ctx_at 4 1))" "ordered (segs two_lists (ctx_at 2 2))"
    by (simp_all add: two_lists_segs)
  have "{0..2} \<union> ({2..3} \<union> {6..7}) = {0..3} \<union> {6..(7::u32)}" by (auto simp: u32_nat)
  then show ?thesis
    using merge_segments_union [OF two_lists_closed od] by (auto simp: two_lists_segs seg_set_def)
qed

text \<open>
  C15. The complement of a record in normal form that is not empty and lies within \<open>{0..hi}\<close> stands for
  exactly the missing packets up to \<open>hi\<close>, with one exception: when the record ends right before
  \<open>hi\<close>, packet \<open>hi\<close> itself is not reported missing.
\<close>

theorem complement_of_record:
  assumes "closed_ctx h ctx" and "segs h ctx \<noteq> []" and "ordered (segs h ctx)"
    and "snd (last (segs h ctx)) \<le> hi"
  shows "\<exists>h' c. get_complement_segment h ctx 0 hi = Inr (h', c) \<and> closed_ctx h' c \<and>
    covered (segs h' c) = {0..hi} - covered (segs h ctx) -
      (if snd (last (segs h ctx)) + 1 = hi then {hi} else {}) \<and>
    segs h' ctx = segs h ctx"
proof -
  obtain ns where rep: "plenty h" "list_rep h ctx ns" using assms(1) by (auto simp: closed_ctx_def)
  obtain h' c ms where m: "get_complement_segment h ctx 0 hi = Inr (h', c)" "list_rep h' c ms"
      "map snd ms = compl_spec (map snd ns) 0 hi" "same_outside {} h h'"
    using get_complement_segment_refines [OF rep(2,1)] by blast
  have pl: "plenty h'" using rep(1) m(4) by (rule plenty_same)
  have "list_rep h' ctx ns" using list_rep_same_outside [OF rep(2) m(4)] by simp
  then have sg: "segs h ctx = map snd ns" "segs h' ctx = map snd ns" "segs h' c = map snd ms"
    using rep pl m(2) by (simp_all add: segs_list_rep)
  obtain r rs where "map snd ns = r # rs" using assms(2) sg(1) by (cases "map snd ns") auto
  then show ?thesis
    using covered_compl_spec [of r rs hi] assms(3,4) m(1,2) pl
    by (auto simp: sg m(3) closed_ctx_def)
qed

theorem complement_of_record_witness:
  "\<exists>h' c. get_complement_segment two_lists (ctx_at 2 2) 0 9 = Inr (h', c) \<and> closed_ctx h' c \<and>
    covered (segs h' c) = {0..9} - ({2..3} \<union> {6..7})"
  using complement_of_record [OF two_lists_closed(2), of 9]
  by (auto simp: two_lists_segs seg_set_def)

text \<open>
  As long as no segment has been recorded, the complement is empty whatever the range: a
  transfer from which nothing arrived looks the same as a complete one.
\<close>

theorem complement_of_nothing_is_empty:
  assumes "segments ctx = NULL"
  shows "get_complement_segment h ctx 0 hi = Inr (h, init_segments_ctx) \<and> segs h init_segments_ctx = []"
proof -
  have "read_chain n h NULL = []" for n by (cases n) (auto split: option.splits)
  with assms show ?thesis
    by (simp add: get_complement_segment_def segs_def) (simp add: init_segments_ctx_def)
qed

theorem complement_of_nothing_is_empty_witness:
  "get_complement_segment empty_heap init_segments_ctx 0 1023 = Inr (empty_heap, init_segments_ctx)"
  using complement_of_nothing_is_empty [of init_segments_ctx empty_heap 1023]
  by (simp add: init_segments_ctx_def)

lemma add_steps_rep:
  "list_rep h ctx ns \<Longrightarrow> plenty h \<Longrightarrow>
   \<exists>h' ctx' ns'. fold_c add_step (h, ctx) xs = Inr (h', ctx') \<and> list_rep h' ctx' ns' \<and>
     map snd ns' = map snd ns @ xs \<and> plenty h'"
proof (induction xs arbitrary: h ctx ns)
  case (Cons x xs)
  obtain h1 ctx1 ns1 where "add_segment h ctx (fst x) (snd x) = Inr (h1, ctx1)" "list_rep h1 ctx1 ns1"
      "map snd ns1 = map snd ns @ [x]" "plenty h1"
    using add_segment_rep [OF Cons.prems, of "fst x" "snd x"] by auto
  with Cons.IH [of h1 ctx1 ns1] show ?case by (auto simp: add_step_def)
qed auto

text \<open>
  Rebuilding a list with \<open>add_segment\<close>, as the client does from a saved session, gives back
  exactly the given segments, in order, with their number.
\<close>

theorem add_segments_roundtrip:
  assumes "plenty h"
  shows "\<exists>h' ctx'. fold_c add_step (h, init_segments_ctx) xs = Inr (h', ctx') \<and> closed_ctx h' ctx' \<and>
    segs h' ctx' = xs \<and> get_nof_segments ctx' = of_nat (length xs)"
proof -
  obtain h' ctx' ns where r: "fold_c add_step (h, init_segments_ctx) xs = Inr (h', ctx')"
      "list_rep h' ctx' ns" "map snd ns = xs" "plenty h'"
    using add_steps_rep [OF list_rep_init assms, of xs] by auto
  moreover have "length ns = length xs" using r(3) by (metis length_map)
  ultimately show ?thesis
    by (auto simp: closed_ctx_def segs_list_rep get_nof_segments_def list_rep_def)
qed

theorem add_segments_roundtrip_witness:
  "\<exists>h' ctx'. fold_c add_step (empty_heap, init_segments_ctx) [(0, 255), (260, 691)] = Inr (h', ctx') \<and>
    segs h' ctx' = [(0, 255), (260, 691)] \<and> get_nof_segments ctx' = 2"
  using add_segments_roundtrip [OF plenty_empty_heap, of "[(0, 255), (260, 691)]"] by auto

text \<open>
  \<open>free_segments\<close> releases every node of a closed list exactly once and touches nothing else,
  and accepts NULL.
\<close>

theorem free_segments_releases_list:
  assumes "list_rep h ctx ns" and "plenty h"
  shows "free_segments h None = Inr h \<and>
    (\<exists>h'. free_segments h (Some ctx) = Inr h' \<and>
       (\<forall>q. nodes h' q = (if q \<in> addrs ns then None else nodes h q)))"
  using free_segments_rep [OF assms] by (auto simp: free_segments_def)

theorem free_segments_releases_list_witness:
  "\<exists>h'. free_segments two_lists (Some (ctx_at 2 2)) = Inr h' \<and>
     nodes h' 2 = None \<and> nodes h' 3 = None \<and> nodes h' 4 = nodes two_lists 4"
proof -
  have rep: "list_rep two_lists (ctx_at 2 2) [(2, 2, 3), (3, 6, 7)]" "plenty two_lists"
    by (simp_all add: list_rep_def two_lists_def ctx_at_def plenty_def)
  show ?thesis using free_segments_releases_list [OF rep] by auto
qed

section \<open>Uses that touch released memory\<close>

lemma remove_loop_tail:
  assumes "chain h p (n # ns)" and "length ns < fuel" and "c \<in> set (map snd ns)"
    and "c = (s, e)"
  shows "remove_loop fuel h ctx p s e = Inl Use_After_Free"
  using assms
proof (induction ns arbitrary: p n fuel)
  case (Cons m ns)
  obtain k where fuel: "fuel = Suc k" "length ns < k" using Cons.prems(2) by (cases fuel) auto
  obtain q where q: "p \<noteq> NULL" "chain h q (m # ns)"
      "nodes h p = Some \<lparr>seg_start = fst (snd n), seg_end = snd (snd n), seg_next = q\<rparr>"
    using Cons.prems(1) by (rule chain_Cons_cases)
  obtain q' where q': "q \<noteq> NULL" "chain h q' ns"
      "nodes h q = Some \<lparr>seg_start = fst (snd m), seg_end = snd (snd m), seg_next = q'\<rparr>"
    using q(2) by (rule chain_Cons_cases)
  show ?case
  proof (cases "snd m = c")
    case True
    with q q' Cons.prems(4) show ?thesis by (auto simp: fuel load_def)
  next
    case False
    then have "remove_loop k h ctx q s e = Inl Use_After_Free"
      using Cons.IH [OF q(2) fuel(2)] Cons.prems(3,4) by auto
    moreover have "\<not> (fst (snd m) = s \<and> snd (snd m) = e)" using False Cons.prems(4) by (metis prod.collapse)
    ultimately show ?thesis using q q' by (auto simp: fuel)
  qed
qed simp

text \<open>
  C34. \<open>remove_segment\<close> removes the head of the list correctly, but for a segment further down it
  releases the node before reading the link to the next one: every such call accesses released
  memory.
\<close>

theorem remove_segment_behaviour:
  assumes "list_rep h ctx (n # ns)" and "plenty h"
  shows "if snd n = (s, e) then
      \<exists>h' ctx'. remove_segment h ctx s e = Inr (h', ctx') \<and> list_rep h' ctx' ns
    else (s, e) \<in> set (map snd ns) \<longrightarrow> remove_segment h ctx s e = Inl Use_After_Free"
proof -
  have rep: "chain h (segments ctx) (n # ns)" "fst n \<notin> addrs ns" "distinct (map fst ns)"
      "\<forall>q\<in>addrs ns. q < brk h" "nof_segments ctx = of_nat (Suc (length ns))"
    using assms(1) distinct_addrs_Cons [of n ns] by (auto simp: list_rep_def)
  obtain q where q: "segments ctx = fst n" "segments ctx \<noteq> NULL" "chain h q ns"
      "nodes h (segments ctx) = Some \<lparr>seg_start = fst (snd n), seg_end = snd (snd n), seg_next = q\<rparr>"
    using rep(1) by (rule chain_Cons_cases)
  have head: "\<exists>h' ctx'. remove_segment h ctx s e = Inr (h', ctx') \<and> list_rep h' ctx' ns"
    if "snd n = (s, e)"
    using that q rep
    by (intro exI [of _ "h\<lparr>nodes := (nodes h)(segments ctx := None)\<rparr>"]
          exI [of _ "ctx\<lparr>segments := q, nof_segments := nof_segments ctx - 1\<rparr>"])
      (simp add: remove_segment_def list_rep_def)
  have tail: "remove_segment h ctx s e = Inl Use_After_Free"
    if "snd n \<noteq> (s, e)" "(s, e) \<in> set (map snd ns)"
  proof -
    have "\<not> (fst (snd n) = s \<and> snd (snd n) = e)" using that(1) by (metis prod.collapse)
    moreover have "remove_loop (brk h) h ctx (segments ctx) s e = Inl Use_After_Free"
      using remove_loop_tail [OF rep(1) _ that(2)] list_rep_length [OF assms] by simp
    ultimately show ?thesis using q by (auto simp: remove_segment_def)
  qed
  show ?thesis using head tail by simp
qed

theorem remove_segment_behaviour_witness:
  "remove_segment two_lists (ctx_at 2 2) 6 7 = Inl Use_After_Free \<and>
   (\<exists>h' ctx'. remove_segment two_lists (ctx_at 2 2) 2 3 = Inr (h', ctx') \<and> list_rep h' ctx' [(3, 6, 7)])"
proof -
  have rep: "list_rep two_lists (ctx_at 2 2) [(2, 2, 3), (3, 6, 7)]" "plenty two_lists"
    by (simp_all add: list_rep_def two_lists_def ctx_at_def plenty_def)
  show ?thesis
    using remove_segment_behaviour [OF rep, of 6 7] remove_segment_behaviour [OF rep, of 2 3] by simp
qed

text \<open>
  A closed context must not be used again: \<open>close_segments\<close> leaves \<open>cur_segment\<close> pointing into
  the list, so when a later packet leaves a gap the last node of the list is released while it is
  still linked, and the next walk over the list (closing or printing it) accesses released memory.
\<close>

theorem reuse_after_close_use_after_free:
  assumes "plenty h" and "p \<noteq> UINT32_MAX" and "p + 1 < q"
  shows "\<exists>h1 c1 h2 c2 h3 c3. update_all h init_segments_ctx [p] = Inr (h1, c1) \<and>
    close_segments h1 c1 = Inr (h2, c2) \<and> update_segments h2 c2 q = Inr (h3, c3, True) \<and>
    close_segments h3 c3 = Inl Use_After_Free \<and> print_segments h3 c3 = Inl Use_After_Free"
proof -
  let ?b = "brk h"
  have b: "?b \<noteq> NULL" "\<And>i. malloc_ok h i" using assms(1) by (simp_all add: plenty_def)
  define c1 where "c1 = \<lparr>segments = NULL, cur_segment = ?b, nof_segments = (0::u32), started = True\<rparr>"
  define c2 where "c2 = c1\<lparr>segments := ?b, nof_segments := 1\<rparr>"
  define h3 where "h3 = (alloc h p p)\<lparr>nodes := (nodes (alloc h p p))(?b := None)\<rparr>"
  have up1: "update_all h init_segments_ctx [p] = Inr (alloc h p p, c1)"
    using malloc_plenty [OF assms(1), of p p] b
    by (auto simp: update_all_def tracker_step_def update_segments_def update_segments_range_def
        init_segments_ctx_def c1_def)
  have close: "close_segments (alloc h p p) c1 = Inr (alloc h p p, c2)"
    using b by (simp add: close_segments_def append_segment_def c1_def c2_def)
  have app: "append_segment (alloc h p p) c2 = Inr (h3, c2\<lparr>cur_segment := NULL\<rparr>)"
    using b by (simp add: append_segment_def c2_def c1_def h3_def alloc_def)
  have "plenty h3" using assms(1) by (simp add: plenty_def h3_def)
  then have m: "\<exists>h4. malloc h3 = (h4, brk h3) \<and> init_node h4 (brk h3) q q = Inr (alloc h3 q q)"
    by (rule malloc_plenty)
  have brk3: "brk h3 = Suc ?b" by (simp add: h3_def)
  have up2: "update_segments (alloc h p p) c2 q = Inr (alloc h3 q q, c2\<lparr>cur_segment := brk h3\<rparr>, True)"
    using b m assms(3) app brk3
    by (auto simp: update_segments_def update_segments_range_def c2_def c1_def not_le)
  have freed: "nodes (alloc h3 q q) ?b = None" by (simp add: h3_def brk3)
  have "close_segments (alloc h3 q q) (c2\<lparr>cur_segment := brk h3\<rparr>) = Inl Use_After_Free"
    using b brk3 freed by (simp add: close_segments_def append_segment_def c2_def load_def split: option.split)
  moreover have "print_segments (alloc h3 q q) (c2\<lparr>cur_segment := brk h3\<rparr>) = Inl Use_After_Free"
    using b freed by (simp add: print_segments_def for_each_segment_def c2_def load_def)
  ultimately show ?thesis using up1 close up2 by blast
qed

theorem reuse_after_close_use_after_free_witness:
  "\<exists>h1 c1 h2 c2 h3 c3. update_all empty_heap init_segments_ctx [0] = Inr (h1, c1) \<and>
    close_segments h1 c1 = Inr (h2, c2) \<and> update_segments h2 c2 7 = Inr (h3, c3, True) \<and>
    close_segments h3 c3 = Inl Use_After_Free \<and> print_segments h3 c3 = Inl Use_After_Free"
  using reuse_after_close_use_after_free [OF plenty_empty_heap, of 0 7] by simp

end
