(* ===== verification/Dtp_Types.thy ===== *)
theory Dtp_Types
  imports Dtp_Prelude
begin

text \<open>
  The data of the library: the public types of \<open>include/dtp/dtp.h\<close>, the protocol types of
  \<open>include/dtp/dtp_protocol.h\<close>, the payload description of \<open>include/dtp/platform.h\<close>, the session
  object of \<open>include/dtp/dtp_session.h\<close> and the messages of \<open>include/dtp/dtp_async_api.h\<close>. Structs
  are records, enums are datatypes. A function pointer is the identity of a function (\<open>None\<close> is
  NULL); what the function does is an argument of the operations that call it. The object a
  \<open>void *hook_ctx\<close> points to is a type parameter.
\<close>

section \<open>Results, errors and options\<close>

datatype dtp_result = DTP_OK | DTP_ERR | DTP_CANCELLED

datatype dtp_errno_t =
    DTP_NO_ERR | DTP_EINVAL | DTP_ENOMORE_SESSIONS | DTP_ESESSION_NOT_FOUND
  | DTP_CONNECTION_FAILED | DTP_MALLOC_FAILED | DTP_NOT_IMPLEMENTED | DTP_SESSION_EXHAUSTED
  | DTP_LAST_ERR

datatype dtp_option =
    DTP_REMOTE_CFG | DTP_SESSION_HOOKS_CFG | DTP_THROUGHPUT_CFG | DTP_TIMEOUT_CFG
  | DTP_PAYLOAD_ID_CFG | DTP_MTU_CFG | DTP_SESSION_ID_CFG

type_synonym hook = nat

record 'c dtp_opt_session_hooks_cfg =
  on_start :: "hook option"
  on_data_packet :: "hook option"
  on_end :: "hook option"
  on_release :: "hook option"
  on_serialize :: "hook option"
  on_deserialize :: "hook option"
  on_dump_info :: "hook option"
  hook_ctx :: "'c option"

text \<open>The union of option values; the constructor is the member written last.\<close>

datatype 'c dtp_params =
    Remote_cfg u16
  | Hooks_cfg "'c dtp_opt_session_hooks_cfg"
  | Throughput_cfg u32
  | Timeout_cfg u8
  | Payload_id_cfg u8
  | Mtu_cfg u16
  | Session_id_cfg u32

section \<open>Protocol\<close>

record interval_t =
  iv_start :: u32
  iv_end :: u32

text \<open>\<open>intervals\<close> is the array of eight; a well-formed request has exactly eight entries.\<close>

record dtp_meta_req_t =
  throughput :: u32
  nof_intervals :: u8
  payload_id :: u8
  reserved1 :: u8
  reserved2 :: u8
  session_id :: u32
  mtu :: u16
  keep_alive_interval :: u16
  intervals :: "interval_t list"

record dtp_meta_resp_t =
  resp_size_in_bytes :: u32
  resp_total_payload_size :: u32

record dtp_metrics_t =
  round_time_ms :: u32
  packets_per_round :: u32
  resulting_throughput :: u32
  nof_packets :: u32
  last_packet :: u32
  total_duration_ms :: u32

section \<open>Payloads and the server's transfer context\<close>

record dtp_payload_meta_t =
  pm_base :: u64
  pm_size :: u32
  pm_read :: "hook option"
  pm_completed :: "hook option"
  pm_context :: "nat option"

record dtp_server_transfer_ctx_t =
  srv_node :: u16
  dest_port :: u16
  size_in_bytes :: u32
  keep_running :: bool
  request :: dtp_meta_req_t
  payload_meta :: dtp_payload_meta_t
  client_alive_ts :: u32

section \<open>Sessions\<close>

type_synonym conn = nat

record 'c dtp_t =
  active :: bool
  conn :: "conn option"
  user_context :: "string option"
  remote_node :: u16
  hooks :: "'c dtp_opt_session_hooks_cfg"
  bytes_received :: u32
  payload_size :: u32
  start_ts :: u32
  end_ts :: u32
  sess_errno :: dtp_errno_t
  request_meta :: dtp_meta_req_t
  timeout :: u8

section \<open>Data packets\<close>

text \<open>
  A data packet on the wire: its length in bytes, the byte offset and the session id in the first
  two 32-bit words, and the payload bytes behind them.
\<close>

record data_packet =
  pk_length :: u16
  pk_offset :: u32
  pk_session :: u32
  pk_data :: "u8 list"

text \<open>
  The size of the payload of a full packet. Assigned to a \<open>uint32_t\<close> it is the difference modulo
  \<open>2 ^ 32\<close>; inside an expression it has the type \<open>size_t\<close> of the two \<open>sizeof\<close>, 64 bits wide.
\<close>

definition chunk32 :: "u16 \<Rightarrow> u32" where
  "chunk32 m = ucast m - 8"

definition chunk64 :: "u16 \<Rightarrow> u64" where
  "chunk64 m = ucast m - 8"

lemma unat_ucast_u16_u32 [simp]: "unat (ucast (m::u16) :: u32) = unat m"
  using unat_lt_u16 [of m] by (simp add: unsigned_ucast_eq take_bit_eq_mod)

lemma unat_ucast_u16_u64 [simp]: "unat (ucast (m::u16) :: u64) = unat m"
  using unat_lt_u16 [of m] by (simp add: unsigned_ucast_eq take_bit_eq_mod)

lemma unat_ucast_u32_u64 [simp]: "unat (ucast (m::u32) :: u64) = unat m"
  using unat_lt_u32 [of m] by (simp add: unsigned_ucast_eq take_bit_eq_mod)

lemma unat_chunk32: "8 \<le> m \<Longrightarrow> unat (chunk32 m) = unat m - 8"
  by (simp add: chunk32_def unat_sub_u32 u32_nat)

lemma unat_chunk64: "8 \<le> m \<Longrightarrow> unat (chunk64 m) = unat m - 8"
  by (simp add: chunk64_def unat_sub_if_size word_le_nat_alt)

lemma chunk32_pos: "8 < m \<Longrightarrow> 0 < unat (chunk32 m) \<and> unat (chunk32 m) < 65528"
  using unat_lt_u16 [of m] by (simp add: unat_chunk32 word_less_nat_alt word_le_nat_alt less_imp_le)

lemma chunk32_nonzero: "8 < m \<Longrightarrow> chunk32 m \<noteq> 0"
  using chunk32_pos [of m] by auto

lemma chunk64_nonzero: "8 < m \<Longrightarrow> chunk64 m \<noteq> 0"
  using unat_chunk64 [of m] by (auto simp: word_less_nat_alt word_le_nat_alt)

lemma unat_ucast_u64_u32: "unat w < 4294967296 \<Longrightarrow> unat (ucast w :: u32) = unat w" for w :: u64
  by (simp add: unsigned_ucast_eq take_bit_eq_mod)

lemma unat_scaled:
  assumes "8 < m" and "unat x * (unat m - 8) < 4294967296"
  shows "unat (ucast (ucast (x::u32) * chunk64 m) :: u32) = unat x * (unat m - 8)"
proof -
  have "unat (chunk64 m) = unat m - 8" using assms(1) by (simp add: unat_chunk64 word_less_nat_alt word_le_nat_alt)
  then have "unat (ucast x * chunk64 m) = unat x * (unat m - 8)"
    using assms(2) by (subst unat_mult_lem [THEN iffD1]) simp_all
  with assms(2) show ?thesis by (simp add: unat_ucast_u64_u32)
qed

end
