(* ===== verification/C_Float.thy ===== *)
theory C_Float
  imports Complex_Main
begin

text \<open>
  The part of IEEE 754 binary arithmetic that \<open>compute_dtp_metrics\<close> uses: values are rational
  numbers, and every operation rounds its exact result to 24 (\<open>float\<close>) or 53 (\<open>double\<close>) significant
  bits, to nearest, ties to even. All values that occur lie between \<open>2 ^ -40\<close> and \<open>2 ^ 80\<close>, so neither
  overflow nor subnormal numbers arise and the exponent range is not modelled.
\<close>

section \<open>Rounding\<close>

fun ilog2 :: "nat \<Rightarrow> nat" where
  "ilog2 n = (if n < 2 then 0 else Suc (ilog2 (n div 2)))"

declare ilog2.simps [simp del]

definition pow2 :: "int \<Rightarrow> rat" where
  "pow2 e = (if 0 \<le> e then 2 ^ nat e else 1 / 2 ^ nat (- e))"

text \<open>The exponent of a positive number: \<open>pow2 (expo x) \<le> x < pow2 (expo x + 1)\<close>.\<close>

definition expo :: "rat \<Rightarrow> int" where
  "expo x = (if 1 \<le> x then int (ilog2 (nat \<lfloor>x\<rfloor>))
     else let k = ilog2 (nat \<lfloor>1 / x\<rfloor>) in if 1 / x = 2 ^ k then - int k else - int k - 1)"

definition round_even :: "rat \<Rightarrow> int" where
  "round_even x = (let f = \<lfloor>x\<rfloor>; d = x - of_int f in
     if d < 1 / 2 then f else if 1 / 2 < d then f + 1 else if even f then f else f + 1)"

definition rnd_pos :: "nat \<Rightarrow> rat \<Rightarrow> rat" where
  "rnd_pos p x = (let e = expo x - (int p - 1) in of_int (round_even (x / pow2 e)) * pow2 e)"

definition rnd :: "nat \<Rightarrow> rat \<Rightarrow> rat" where
  "rnd p x = (if x = 0 then 0 else if 0 < x then rnd_pos p x else - rnd_pos p (- x))"

abbreviation f32 :: "rat \<Rightarrow> rat" where "f32 \<equiv> rnd 24"
abbreviation f64 :: "rat \<Rightarrow> rat" where "f64 \<equiv> rnd 53"

section \<open>Exponents\<close>

lemma ilog2_bounds: "0 < n \<Longrightarrow> 2 ^ ilog2 n \<le> n \<and> n < 2 ^ Suc (ilog2 n)"
proof (induction n rule: ilog2.induct)
  case (1 n)
  show ?case
  proof (cases "n < 2")
    case True
    with "1.prems" show ?thesis by (auto simp: ilog2.simps [of n])
  next
    case False
    then have "2 ^ ilog2 (n div 2) \<le> n div 2 \<and> n div 2 < 2 ^ Suc (ilog2 (n div 2))"
      using "1.IH" by auto
    with False show ?thesis by (simp add: ilog2.simps [of n]) linarith
  qed
qed

lemma pow2_pos [simp]: "0 < pow2 e"
  by (simp add: pow2_def)

lemma pow2_nonzero [simp]: "pow2 e \<noteq> 0"
  using pow2_pos [of e] by linarith

lemma pow2_add1: "pow2 (e + 1) = 2 * pow2 e"
proof -
  consider "0 \<le> e" | "e = -1" | "e < -1" by linarith
  then show ?thesis
  proof cases
    case 1
    then show ?thesis by (simp add: pow2_def nat_add_distrib)
  next
    case 3
    then have "nat (- e) = Suc (nat (- e - 1))" by linarith
    with 3 show ?thesis by (simp add: pow2_def algebra_simps)
  qed (simp add: pow2_def)
qed

lemma pow2_add_nat: "pow2 (e + int n) = 2 ^ n * pow2 e"
proof (induction n)
  case (Suc n)
  have "pow2 (e + int (Suc n)) = pow2 ((e + int n) + 1)" by (simp add: algebra_simps)
  with Suc show ?case by (simp add: pow2_add1)
qed simp

lemma pow2_mono: "a \<le> b \<Longrightarrow> pow2 a \<le> pow2 b"
proof -
  assume "a \<le> b"
  then have "pow2 b = 2 ^ nat (b - a) * pow2 a"
    using pow2_add_nat [of a "nat (b - a)"] by simp
  moreover have "(1::rat) \<le> 2 ^ nat (b - a)" by simp
  ultimately show ?thesis by (metis mult_le_cancel_right1 pow2_pos not_less_iff_gr_or_eq)
qed

lemma pow2_neg: "pow2 (- int k) = 1 / 2 ^ k"
  by (cases "k = 0") (simp_all add: pow2_def)

lemma ilog2_floor:
  fixes y :: rat
  assumes "1 \<le> y"
  shows "2 ^ ilog2 (nat \<lfloor>y\<rfloor>) \<le> y" and "y < 2 * 2 ^ ilog2 (nat \<lfloor>y\<rfloor>)"
proof -
  let ?n = "nat \<lfloor>y\<rfloor>"
  have n: "0 < ?n" "of_nat ?n \<le> y" "y < of_nat ?n + 1" using assms by linarith+
  have "2 ^ ilog2 ?n \<le> ?n" "?n + 1 \<le> 2 * 2 ^ ilog2 ?n" using ilog2_bounds [OF n(1)] by auto
  then have "of_nat (2 ^ ilog2 ?n) \<le> (of_nat ?n :: rat)" "of_nat (?n + 1) \<le> (of_nat (2 * 2 ^ ilog2 ?n) :: rat)"
    by (simp_all only: of_nat_le_iff)
  then have "2 ^ ilog2 ?n \<le> (of_nat ?n :: rat)" "of_nat ?n + 1 \<le> (2 * 2 ^ ilog2 ?n :: rat)"
    by (simp_all only: of_nat_power of_nat_numeral of_nat_add of_nat_1 of_nat_mult)
  with n show "2 ^ ilog2 ?n \<le> y" "y < 2 * 2 ^ ilog2 ?n" by linarith+
qed

lemma expo_bounds:
  assumes "0 < x"
  shows "pow2 (expo x) \<le> x" and "x < pow2 (expo x + 1)"
proof -
  have "pow2 (expo x) \<le> x \<and> x < 2 * pow2 (expo x)"
  proof (cases "1 \<le> x")
    case True
    then show ?thesis using ilog2_floor [of x] by (simp add: expo_def pow2_def)
  next
    case False
    let ?k = "ilog2 (nat \<lfloor>1 / x\<rfloor>)"
    have y: "2 ^ ?k \<le> 1 / x" "1 / x < 2 * 2 ^ ?k" using False assms ilog2_floor [of "1 / x"] by simp_all
    show ?thesis
    proof (cases "1 / x = 2 ^ ?k")
      case True
      then have "expo x = - int ?k" using False by (simp add: expo_def)
      then have "pow2 (expo x) = 1 / 2 ^ ?k" by (simp only: pow2_neg)
      moreover have "x = 1 / 2 ^ ?k" using True assms by (simp add: field_simps)
      ultimately show ?thesis using assms by simp
    next
      case neq: False
      then have "expo x = - int (Suc ?k)" using False by (simp add: expo_def)
      then have "pow2 (expo x) = 1 / 2 ^ Suc ?k" by (simp only: pow2_neg)
      moreover have "2 ^ ?k < 1 / x" using y(1) neq by simp
      then have "x < 1 / 2 ^ ?k" using assms by (simp add: field_simps)
      moreover have "1 / 2 ^ Suc ?k < x" using y(2) assms by (simp add: field_simps)
      ultimately show ?thesis by simp
    qed
  qed
  then show "pow2 (expo x) \<le> x" "x < pow2 (expo x + 1)" by (simp_all add: pow2_add1)
qed

lemma expo_unique:
  assumes "0 < x" and "pow2 e \<le> x" and "x < pow2 (e + 1)"
  shows "expo x = e"
proof (rule ccontr)
  assume "expo x \<noteq> e"
  then consider "expo x + 1 \<le> e" | "e + 1 \<le> expo x" by linarith
  then show False
    using expo_bounds [OF assms(1)] assms(2,3) pow2_mono [of "expo x + 1" e] pow2_mono [of "e + 1" "expo x"]
    by cases linarith+
qed

section \<open>Rounding is the identity on representable numbers\<close>

definition representable :: "nat \<Rightarrow> rat \<Rightarrow> bool" where
  "representable p x \<longleftrightarrow> (\<exists>m e. x = of_int m * pow2 e \<and> 2 ^ (p - 1) \<le> m \<and> m < 2 ^ p)"

lemma representable_pos: "representable p x \<Longrightarrow> 0 < x"
proof -
  assume "representable p x"
  then obtain m :: int and e where "x = of_int m * pow2 e" "2 ^ (p - 1) \<le> m" by (auto simp: representable_def)
  moreover have "0 < m" using calculation(2) by (meson less_le_trans zero_less_numeral zero_less_power)
  ultimately show "0 < x" by simp
qed

lemma expo_representable:
  fixes m :: int
  assumes "0 < p" and "2 ^ (p - 1) \<le> m" and "m < 2 ^ p"
  shows "expo (of_int m * pow2 e) = e + (int p - 1)"
proof (rule expo_unique)
  have m: "(2::rat) ^ (p - 1) \<le> of_int m" "of_int m < (2::rat) ^ p"
    using assms(2,3) by (metis of_int_le_iff of_int_numeral of_int_power, metis of_int_less_iff of_int_numeral of_int_power)
  have pw: "pow2 (e + (int p - 1)) = 2 ^ (p - 1) * pow2 e" "pow2 (e + (int p - 1) + 1) = 2 ^ p * pow2 e"
    using pow2_add_nat [of e "p - 1"] pow2_add_nat [of e p] assms(1) by (simp_all add: of_nat_diff algebra_simps)
  show "pow2 (e + (int p - 1)) \<le> of_int m * pow2 e" "of_int m * pow2 e < pow2 (e + (int p - 1) + 1)"
    unfolding pw using m by (simp_all add: mult_right_mono)
  have "0 < m" using assms(2) by (meson less_le_trans zero_less_numeral zero_less_power)
  then show "0 < of_int m * pow2 e" by simp
qed

lemma round_even_int [simp]: "round_even (of_int m) = m"
  by (simp add: round_even_def)

lemma rnd_representable:
  assumes "0 < p" and "representable p x"
  shows "rnd p x = x"
proof -
  obtain m :: int and e where x: "x = of_int m * pow2 e" "2 ^ (p - 1) \<le> m" "m < 2 ^ p"
    using assms(2) by (auto simp: representable_def)
  have "0 < x" using assms(2) by (rule representable_pos)
  moreover have "expo x - (int p - 1) = e" using expo_representable [OF assms(1) x(2,3)] x(1) by simp
  ultimately show ?thesis by (simp add: rnd_def rnd_pos_def Let_def) (simp add: x(1))
qed

lemma round_even_bounds:
  fixes a b :: int
  assumes "of_int a \<le> x" and "x < of_int b"
  shows "a \<le> round_even x" and "round_even x \<le> b"
  using assms by (auto simp: round_even_def Let_def le_floor_iff) linarith+

lemma representable_rnd:
  assumes "0 < p" and "0 < x"
  shows "representable p (rnd p x)"
proof -
  let ?e = "expo x - (int p - 1)"
  let ?m = "round_even (x / pow2 ?e)"
  have pw: "pow2 (expo x) = 2 ^ (p - 1) * pow2 ?e" "pow2 (expo x + 1) = 2 ^ p * pow2 ?e"
    using pow2_add_nat [of ?e "p - 1"] pow2_add_nat [of ?e p] assms(1) by (simp_all add: of_nat_diff)
  have "2 ^ (p - 1) \<le> x / pow2 ?e" "x / pow2 ?e < 2 ^ p"
    using expo_bounds [OF assms(2)] unfolding pw by (simp_all add: pos_le_divide_eq pos_divide_less_eq)
  then have m: "2 ^ (p - 1) \<le> ?m" "?m \<le> 2 ^ p"
    using round_even_bounds [of "2 ^ (p - 1)" "x / pow2 ?e" "2 ^ p"] by simp_all
  have r: "rnd p x = of_int ?m * pow2 ?e" using assms(2) by (simp add: rnd_def rnd_pos_def Let_def)
  show ?thesis
  proof (cases "?m = 2 ^ p")
    case True
    have "(2::rat) ^ p = 2 * 2 ^ (p - 1)" using assms(1) by (cases p) simp_all
    then have "rnd p x = of_int (2 ^ (p - 1)) * pow2 (?e + 1)"
      unfolding r True pow2_add1 by simp
    moreover have "(2::int) ^ (p - 1) < 2 ^ p" using assms(1) by (intro power_strict_increasing) auto
    ultimately show ?thesis unfolding representable_def by blast
  next
    case False
    with m r show ?thesis unfolding representable_def by (intro exI [of _ ?m] exI [of _ ?e]) simp
  qed
qed

theorem rnd_idem: "0 < p \<Longrightarrow> 0 < x \<Longrightarrow> rnd p (rnd p x) = rnd p x"
  by (rule rnd_representable) (auto intro: representable_rnd)

lemma rnd_pos_pos: "0 < p \<Longrightarrow> 0 < x \<Longrightarrow> 0 < rnd p x"
  using representable_pos representable_rnd by blast

lemma rnd_zero [simp]: "rnd p 0 = 0"
  by (simp add: rnd_def)

lemma representable_scaled:
  fixes m :: int
  assumes "x * 2 ^ k = of_int m" and "2 ^ (p - 1) \<le> m" and "m < 2 ^ p"
  shows "representable p x"
proof -
  have "x = of_int m * pow2 (- int k)"
    unfolding pow2_neg using assms(1) by (simp add: field_simps)
  with assms(2,3) show ?thesis unfolding representable_def by blast
qed

lemma f32_1 [simp]: "f32 1 = 1"
  by (rule rnd_representable, simp, rule representable_scaled [of _ 23 "2 ^ 23"]) simp_all

lemma f32_100 [simp]: "f32 100 = 100"
  by (rule rnd_representable, simp, rule representable_scaled [of _ 17 "100 * 2 ^ 17"]) simp_all

lemma f64_100 [simp]: "f64 100 = 100"
  by (rule rnd_representable, simp, rule representable_scaled [of _ 46 "100 * 2 ^ 46"]) simp_all

end
