(* ===== verification/Protocol.thy ===== *)
theory Protocol
  imports Dtp_Types C_Float
begin

text \<open>
  \<open>src/dtp_protocol.c\<close>: the meta data request and response of the client, and the transfer metrics
  both sides derive from a request (how many packets, in rounds of which length). The metrics code
  divides by the payload size of a packet, by the throughput and by intermediate results, and indexes
  the interval array; the theorems show for which requests none of this fails, that the search for a
  shorter round ends, and how the packet count relates to the size of the payload.
\<close>

unbundle bit_operations_syntax

section \<open>Byte order\<close>

definition bswap32 :: "u32 \<Rightarrow> u32" where
  "bswap32 x = push_bit 24 (x AND 0xFF) OR push_bit 8 (x AND 0xFF00) OR
     (drop_bit 8 x AND 0xFF00) OR (drop_bit 24 x AND 0xFF)"

text \<open>\<open>htobe32\<close> and \<open>be32toh\<close> swap on a little-endian host (\<open>le\<close>) and do nothing on a big-endian one.\<close>

definition htobe32 :: "bool \<Rightarrow> u32 \<Rightarrow> u32" where
  "htobe32 le x = (if le then bswap32 x else x)"

definition be32toh :: "bool \<Rightarrow> u32 \<Rightarrow> u32" where
  "be32toh le x = (if le then bswap32 x else x)"

text \<open>
  The keep-alive interval is a 16-bit field: it is widened for \<open>htobe32\<close> (or \<open>be32toh\<close>) and the result
  is cut back to 16 bits.
\<close>

definition keep_alive_to_wire :: "bool \<Rightarrow> u16 \<Rightarrow> u16" where
  "keep_alive_to_wire le k = ucast (htobe32 le (ucast k))"

definition keep_alive_from_wire :: "bool \<Rightarrow> u16 \<Rightarrow> u16" where
  "keep_alive_from_wire le k = ucast (be32toh le (ucast k))"

section \<open>Request and response\<close>

text \<open>\<open>buffer\<close>: whether \<open>csp_buffer_get\<close> returns a packet. The second component is what is sent.\<close>

definition send_remote_meta_req :: "bool \<Rightarrow> bool \<Rightarrow> 'c dtp_t \<Rightarrow> dtp_result \<times> dtp_meta_req_t option" where
  "send_remote_meta_req le buffer session =
     (if buffer then
        (DTP_OK, Some ((request_meta session)\<lparr>keep_alive_interval :=
           keep_alive_to_wire le (keep_alive_interval (request_meta session))\<rparr>))
      else (DTP_ERR, None))"

text \<open>The argument is the packet \<open>csp_read\<close> returns within ten seconds, if any.\<close>

definition read_remote_meta_resp :: "dtp_meta_resp_t option \<Rightarrow> 'c dtp_t \<Rightarrow> dtp_result \<times> 'c dtp_t" where
  "read_remote_meta_resp packet session =
     (case packet of
        Some meta_resp \<Rightarrow> (DTP_OK, session\<lparr>payload_size := resp_total_payload_size meta_resp\<rparr>)
      | None \<Rightarrow> (DTP_ERR, session\<lparr>sess_errno := DTP_CONNECTION_FAILED\<rparr>))"

section \<open>Packet counts and metrics\<close>

definition compute_nof_packets :: "u32 \<Rightarrow> u32 \<Rightarrow> u32 c_result" where
  "compute_nof_packets tot effective_payload_size =
     c_bind (c_div tot effective_payload_size) (\<lambda>expected_nof_packets.
     c_bind (c_mod tot effective_payload_size) (\<lambda>rest.
     Inr (if rest \<noteq> 0 then expected_nof_packets + 1 else expected_nof_packets)))"

text \<open>Round time and packets per round before the optimisation.\<close>

definition initial_round :: "u32 \<Rightarrow> u32 \<Rightarrow> (u32 \<times> u32) c_result" where
  "initial_round thr m =
     c_bind (c_div thr m) (\<lambda>packets_sec.
     c_bind (c_div m thr) (\<lambda>secs_packet.
     Inr (if secs_packet > packets_sec then (secs_packet * 1000, 1) else (1000, packets_sec))))"

text \<open>
  The relative error of a rate, in percent: \<open>float\<close> arithmetic, with \<open>fabs\<close> and the factor 100.0 in
  \<open>double\<close>.
\<close>

definition rate_error :: "u32 \<Rightarrow> u32 \<Rightarrow> rat" where
  "rate_error thr thr' =
     (let t = f32 (of_nat (unat thr)); t' = f32 (of_nat (unat thr'))
      in f32 (f64 (\<bar>f32 (f32 (t - t') / t)\<bar> * 100)))"

text \<open>
  The \<open>do ... while\<close> loop that looks for a power of ten to divide the round by. The multiplication
  by 10.0 is converted back to 32 bits, which is undefined when the product does not fit.
\<close>

fun optimise_round :: "nat \<Rightarrow> u32 \<Rightarrow> u32 \<Rightarrow> u32 \<Rightarrow> u32 \<Rightarrow> u32 \<Rightarrow> u32 c_result" where
  "optimise_round 0 thr m rt ppr factor = Inl Diverges"
| "optimise_round (Suc n) thr m rt ppr factor =
     c_bind (if unat factor * 10 < 2 ^ 32 then Inr (factor * 10) else Inl Indeterminate) (\<lambda>f.
     c_bind (c_div ppr f) (\<lambda>p.
     c_bind (c_div rt f) (\<lambda>r.
     c_bind (c_div (p * m) r) (\<lambda>q.
       if r < 10 then Inr f
       else if rate_error thr (q * 1000) < 5 then optimise_round n thr m rt ppr f
       else Inr f))))"

text \<open>The packets of one interval; an end of \<open>UINT32_MAX\<close> stands for the rest of the payload.\<close>

definition interval_end :: "u32 \<Rightarrow> u32 \<Rightarrow> interval_t \<Rightarrow> u32 c_result" where
  "interval_end psize m iv =
     (if iv_end iv = UINT32_MAX then c_div psize m else Inr (iv_end iv))"

definition count_step :: "interval_t list \<Rightarrow> u32 \<Rightarrow> u32 \<Rightarrow> u32 \<Rightarrow> nat \<Rightarrow> u32 c_result" where
  "count_step ivs psize m acc i =
     c_bind (c_index ivs i) (\<lambda>iv.
     c_bind (interval_end psize m iv) (\<lambda>e.
     Inr (acc + ((e - iv_start iv) + 1))))"

definition compute_dtp_metrics :: "dtp_meta_req_t \<Rightarrow> u32 \<Rightarrow> dtp_metrics_t c_result" where
  "compute_dtp_metrics req psize =
     (let m = chunk32 (mtu req); thr = throughput req
      in c_bind (initial_round thr m) (\<lambda>(rt, ppr).
         c_bind (optimise_round 10 thr m rt ppr 1) (\<lambda>f.
         let factor = f div 10 in
         c_bind (c_div rt factor) (\<lambda>rt1.
         c_bind (c_div ppr factor) (\<lambda>ppr1.
         let bytes_per_ms = f32 (f32 (f32 (of_nat (unat ppr1)) * f32 (of_nat (unat m))) / f32 (of_nat (unat rt1)));
             res = of_nat (nat \<lfloor>f64 (bytes_per_ms * 1000)\<rfloor>) in
         c_bind (fold_c (count_step (intervals req) psize m) 0 [0..<unat (nof_intervals req)]) (\<lambda>n.
         c_bind (c_div (n * rt1) ppr1) (\<lambda>dur.
         c_bind (if nof_intervals req = 0 then Inl Out_Of_Bounds
                 else c_index (intervals req) (unat (nof_intervals req) - 1)) (\<lambda>iv.
         c_bind (interval_end psize m iv) (\<lambda>lastp.
         Inr \<lparr>round_time_ms = rt1, packets_per_round = ppr1, resulting_throughput = res,
              nof_packets = n, last_packet = lastp,
              total_duration_ms = (if dur < 1000 then 1000 else dur)\<rparr>)))))))))"

section \<open>The keep-alive interval on the wire\<close>

lemma bit_u16_u32: "bit (ucast (k::u16) :: u32) n \<Longrightarrow> n < 16"
  by (auto simp: bit_simps dest: bit_imp_le_length)

lemma ucast_u16_u32_u16: "(ucast (ucast (k::u16) :: u32) :: u16) = k"
  by (rule bit_word_eqI) (simp add: bit_simps)

lemma bit_byte_masks:
  "bit (0xFF00 :: int) n \<longleftrightarrow> 8 \<le> n \<and> n < 16" "bit (0xFF0000 :: int) n \<longleftrightarrow> 16 \<le> n \<and> n < 24"
proof -
  have "bit (push_bit j (mask 8) :: int) n \<longleftrightarrow> j \<le> n \<and> n < j + 8" for j
    by (auto simp: bit_push_bit_iff bit_mask_iff simp del: mask_numeral push_bit_numeral)
  from this [of 8] this [of 16] show
    "bit (0xFF00 :: int) n \<longleftrightarrow> 8 \<le> n \<and> n < 16" "bit (0xFF0000 :: int) n \<longleftrightarrow> 16 \<le> n \<and> n < 24"
    by (simp_all add: mask_eq_exp_minus_1)
qed

lemma bswap32_low: "(ucast (bswap32 (ucast (k::u16))) :: u16) = 0"
proof (rule bit_word_eqI)
  fix n assume n: "n < LENGTH(16)"
  then have "\<not> bit (bswap32 (ucast k)) n"
    using bit_u16_u32 [of k "8 + n"] bit_u16_u32 [of k "24 + n"]
    by (auto simp: bswap32_def bit_or_iff bit_and_iff bit_push_bit_iff bit_drop_bit_eq bit_byte_masks)
  with n show "bit (ucast (bswap32 (ucast k)) :: u16) n \<longleftrightarrow> bit (0 :: u16) n"
    by (simp add: bit_ucast_iff)
qed

section \<open>The search for a shorter round\<close>

text \<open>The rate the rounds shortened by \<open>g\<close> achieve, as the loop computes it.\<close>

definition scaled_rate :: "u32 \<Rightarrow> u32 \<Rightarrow> u32 \<Rightarrow> u32 \<Rightarrow> u32" where
  "scaled_rate m rt ppr g = ((ppr div g) * m) div (rt div g) * 1000"

lemma rate_error_zero: "0 < thr \<Longrightarrow> rate_error thr 0 = 100"
proof -
  assume "0 < thr"
  then have "0 < (of_nat (unat thr) :: rat)" by (simp only: of_nat_0_less_iff word_less_nat_alt unat_0)
  then have t: "0 < f32 (of_nat (unat thr))" "f32 (f32 (of_nat (unat thr))) = f32 (of_nat (unat thr))"
    by (simp_all add: rnd_pos_pos rnd_idem)
  then show ?thesis by (simp add: rate_error_def Let_def)
qed

lemma optimise_round_total:
  assumes "0 < thr" and "1 \<le> unat factor" and "10 \<le> unat rt div unat factor"
    and "1 \<le> unat ppr div unat factor" and "unat rt div unat factor < 10 ^ n"
    and "factor = 1 \<or> rate_error thr (scaled_rate m rt ppr factor) < 5"
  shows "\<exists>g. optimise_round n thr m rt ppr factor = Inr (g * 10) \<and> (g * 10) div 10 = g \<and> 1 \<le> unat g \<and>
    10 \<le> unat rt div unat g \<and> 1 \<le> unat ppr div unat g \<and>
    (g = 1 \<or> rate_error thr (scaled_rate m rt ppr g) < 5)"
  using assms(2-)
proof (induction n arbitrary: factor)
  case 0
  then show ?case by simp
next
  case (Suc n)
  have "10 * unat factor \<le> unat rt"
    using Suc.prems(1,2) by (metis div_le_mono2 less_eq_div_iff_mult_less_eq less_le_trans zero_less_one)
  then have fit: "unat factor * 10 < 2 ^ 32" using unat_lt_u32 [of rt] by simp
  then have uf: "unat (factor * 10) = unat factor * 10" using unat_mult_u32 [of factor 10] by simp
  then have f0: "factor * 10 \<noteq> 0" using Suc.prems(1) by auto
  have undo: "factor * 10 div 10 = factor" by (simp add: word_unat_eq_iff unat_div uf)
  have scale: "unat x div (unat factor * 10) = unat x div unat factor div 10" for x :: u32
    by (simp add: div_mult2_eq)
  have r1: "1 \<le> unat (rt div (factor * 10))" using Suc.prems(2) by (simp add: unat_div uf scale)
  then have r0: "rt div (factor * 10) \<noteq> 0" by auto
  let ?stop = "optimise_round (Suc n) thr m rt ppr factor = Inr (factor * 10)"
  show ?case
  proof (cases "?stop")
    case True
    with Suc.prems undo show ?thesis by (intro exI [of _ factor]) simp
  next
    case False
    let ?f = "factor * 10"
    have go: "\<not> rt div ?f < 10" "rate_error thr (scaled_rate m rt ppr ?f) < 5"
      "optimise_round (Suc n) thr m rt ppr factor = optimise_round n thr m rt ppr ?f"
      using False fit f0 r0 by (auto simp: scaled_rate_def split: if_splits)
    have "ppr div ?f \<noteq> 0"
    proof
      assume "ppr div ?f = 0"
      then have "scaled_rate m rt ppr ?f = 0" by (simp add: scaled_rate_def)
      with go(2) rate_error_zero [OF assms(1)] show False by simp
    qed
    then have p1: "1 \<le> unat ppr div unat ?f" by (simp add: word_unat_eq_iff unat_div)
    have "10 \<le> unat rt div unat ?f" using go(1) by (simp add: word_less_nat_alt unat_div)
    moreover have "unat rt div unat ?f < 10 ^ n"
      using Suc.prems(4) by (simp add: uf scale)
    moreover have "1 \<le> unat ?f" using uf Suc.prems(1) by simp
    ultimately show ?thesis using Suc.IH [of ?f] p1 go(2,3) by simp
  qed
qed

lemma initial_round_total:
  assumes "0 < thr" and "m \<noteq> 0" and "unat m < 65528"
  shows "\<exists>rt ppr. initial_round thr m = Inr (rt, ppr) \<and> 1000 \<le> unat rt \<and> 1 \<le> unat ppr"
proof (cases "m div thr > thr div m")
  case True
  then have s: "1 \<le> unat m div unat thr" by (simp add: word_less_nat_alt unat_div)
  moreover have "unat m div unat thr < 65528" using assms(3) by (meson div_le_dividend le_less_trans)
  ultimately have "unat (m div thr * 1000) = unat m div unat thr * 1000"
    using unat_mult_u32 [of "m div thr" 1000] by (simp add: unat_div)
  with True s assms show ?thesis by (auto simp: initial_round_def)
next
  case False
  have "1 \<le> unat thr div unat m"
  proof (rule ccontr)
    assume "\<not> ?thesis"
    moreover have "0 < unat m" using assms(2) by (simp add: unat_gt_0)
    ultimately have lt: "unat thr < unat m" by (simp add: Suc_le_eq div_greater_zero_iff)
    then have "1 \<le> unat m div unat thr"
      using assms(1) by (simp add: u32_nat Suc_le_eq div_greater_zero_iff)
    with False lt show False by (simp add: word_less_nat_alt unat_div)
  qed
  with False assms show ?thesis by (auto simp: initial_round_def unat_div)
qed

section \<open>Metrics\<close>

text \<open>A request the metrics are defined for.\<close>

definition servable :: "dtp_meta_req_t \<Rightarrow> bool" where
  "servable req \<longleftrightarrow> 0 < throughput req \<and> 8 < mtu req \<and> length (intervals req) = 8 \<and>
     1 \<le> nof_intervals req \<and> nof_intervals req \<le> 8"

text \<open>The last packet number of an interval, and the number of packets asked for.\<close>

definition last_seq :: "u32 \<Rightarrow> u32 \<Rightarrow> interval_t \<Rightarrow> u32" where
  "last_seq psize m iv = (if iv_end iv = UINT32_MAX then psize div m else iv_end iv)"

definition requested_packets :: "dtp_meta_req_t \<Rightarrow> u32 \<Rightarrow> nat" where
  "requested_packets req psize =
     (\<Sum>iv \<leftarrow> take (unat (nof_intervals req)) (intervals req).
        Suc (unat (last_seq psize (chunk32 (mtu req)) iv) - unat (iv_start iv)))"

lemma interval_end_total: "m \<noteq> 0 \<Longrightarrow> interval_end psize m iv = Inr (last_seq psize m iv)"
  by (simp add: interval_end_def last_seq_def)

lemma count_packets:
  "m \<noteq> 0 \<Longrightarrow> k \<le> length ivs \<Longrightarrow> fold_c (count_step ivs psize m) 0 [0..<k] =
     Inr (\<Sum>iv \<leftarrow> take k ivs. (last_seq psize m iv - iv_start iv) + 1)"
proof (induction k)
  case (Suc k)
  then show ?case
    by (simp add: fold_c_append count_step_def interval_end_total take_Suc_conv_app_nth)
qed simp

lemma sum_packets_nat:
  assumes "\<forall>iv \<in> set ivs. iv_start iv \<le> last_seq psize m iv"
  shows "(\<Sum>iv \<leftarrow> ivs. (last_seq psize m iv - iv_start iv) + 1) =
    of_nat (\<Sum>iv \<leftarrow> ivs. Suc (unat (last_seq psize m iv) - unat (iv_start iv)))"
  using assms
proof (induction ivs)
  case (Cons iv ivs)
  have "(of_nat (unat (last_seq psize m iv) - unat (iv_start iv)) :: u32) = last_seq psize m iv - iv_start iv"
    using Cons.prems by (simp add: of_nat_diff word_le_nat_alt)
  with Cons show ?case by simp
qed simp

lemma count_out_of_bounds:
  "m \<noteq> 0 \<Longrightarrow> length ivs < k \<Longrightarrow> fold_c (count_step ivs psize m) acc [0..<k] = Inl Out_Of_Bounds"
proof -
  assume a: "m \<noteq> 0" "length ivs < k"
  then have "[0..<k] = [0..<length ivs] @ length ivs # [Suc (length ivs)..<k]"
    by (metis less_imp_le_nat upt_add_eq_append upt_conv_Cons le_add_diff_inverse le0 add_0)
  moreover have "\<exists>s. fold_c (count_step ivs psize m) acc [0..<j] = Inr s" if "j \<le> length ivs" for j
    using that by (induction j) (auto simp: fold_c_append count_step_def interval_end_total a(1))
  then obtain s where "fold_c (count_step ivs psize m) acc [0..<length ivs] = Inr s" by blast
  ultimately show ?thesis by (simp add: fold_c_append count_step_def)
qed

text \<open>Everything before the packet count succeeds for a positive throughput and an MTU above eight.\<close>

lemma rounds_total:
  assumes "0 < throughput req" and "8 < mtu req"
  obtains rt ppr g where "initial_round (throughput req) (chunk32 (mtu req)) = Inr (rt, ppr)"
    and "optimise_round 10 (throughput req) (chunk32 (mtu req)) rt ppr 1 = Inr (g * 10)"
    and "g * 10 div 10 = g" and "g \<noteq> 0" and "10 \<le> rt div g" and "1 \<le> ppr div g"
    and "g = 1 \<or> rate_error (throughput req) (scaled_rate (chunk32 (mtu req)) rt ppr g) < 5"
proof -
  let ?m = "chunk32 (mtu req)" and ?t = "throughput req"
  obtain rt ppr where ini: "initial_round ?t ?m = Inr (rt, ppr)" "1000 \<le> unat rt" "1 \<le> unat ppr"
    using initial_round_total [OF assms(1) chunk32_nonzero [OF assms(2)]] chunk32_pos [OF assms(2)] by blast
  have "unat rt < 10 ^ 10" using unat_lt_u32 [of rt] by simp
  with ini obtain g where "optimise_round 10 ?t ?m rt ppr 1 = Inr (g * 10)" "g * 10 div 10 = g"
      "1 \<le> unat g" "10 \<le> unat rt div unat g" "1 \<le> unat ppr div unat g"
      "g = 1 \<or> rate_error ?t (scaled_rate ?m rt ppr g) < 5"
    using optimise_round_total [OF assms(1), of 1 rt ppr 10 ?m] by auto
  moreover from this have "g \<noteq> 0" by auto
  ultimately show ?thesis using that [OF ini(1)] by (simp add: word_le_nat_alt unat_div)
qed

lemma metrics_shape:
  assumes "servable req"
  obtains rt ppr g d r where "initial_round (throughput req) (chunk32 (mtu req)) = Inr (rt, ppr)"
    and "g \<noteq> 0" and "10 \<le> rt div g" and "1 \<le> ppr div g"
    and "g = 1 \<or> rate_error (throughput req) (scaled_rate (chunk32 (mtu req)) rt ppr g) < 5"
    and "1000 \<le> d"
    and "compute_dtp_metrics req psize = Inr \<lparr>round_time_ms = rt div g, packets_per_round = ppr div g,
      resulting_throughput = r,
      nof_packets = (\<Sum>iv \<leftarrow> take (unat (nof_intervals req)) (intervals req).
        (last_seq psize (chunk32 (mtu req)) iv - iv_start iv) + 1),
      last_packet = last_seq psize (chunk32 (mtu req)) (intervals req ! (unat (nof_intervals req) - 1)),
      total_duration_ms = d\<rparr>"
proof -
  let ?m = "chunk32 (mtu req)" and ?t = "throughput req" and ?k = "unat (nof_intervals req)"
  have s: "0 < ?t" "8 < mtu req" "length (intervals req) = 8" "1 \<le> ?k" "?k \<le> 8" "nof_intervals req \<noteq> 0"
    using assms by (auto simp: servable_def word_le_nat_alt)
  obtain rt ppr g where r: "initial_round ?t ?m = Inr (rt, ppr)"
      "optimise_round 10 ?t ?m rt ppr 1 = Inr (g * 10)" "g * 10 div 10 = g" "g \<noteq> 0"
      "10 \<le> rt div g" "1 \<le> ppr div g" "g = 1 \<or> rate_error ?t (scaled_rate ?m rt ppr g) < 5"
    using rounds_total [OF s(1,2)] by metis
  have m0: "?m \<noteq> 0" using s(2) by (rule chunk32_nonzero)
  have p0: "ppr div g \<noteq> 0" using r(6) by auto
  note c = count_packets [OF m0, of ?k "intervals req" psize] interval_end_total [OF m0]
  have idx: "c_index (intervals req) (?k - 1) = Inr (intervals req ! (?k - 1))" using s(3,4,5) by simp
  have "\<exists>d q. 1000 \<le> d \<and> compute_dtp_metrics req psize =
      Inr \<lparr>round_time_ms = rt div g, packets_per_round = ppr div g, resulting_throughput = q,
        nof_packets = (\<Sum>iv \<leftarrow> take ?k (intervals req). (last_seq psize ?m iv - iv_start iv) + 1),
        last_packet = last_seq psize ?m (intervals req ! (?k - 1)), total_duration_ms = d\<rparr>"
    by (simp add: compute_dtp_metrics_def Let_def r(1,2,3,4) p0 c s idx
      del: optimise_round.simps One_nat_def) (simp add: not_less)
  then show ?thesis using that [OF r(1,4,5,6,7)] by blast
qed

lemma ceil_div:
  fixes x c :: nat
  assumes "0 < c"
  shows "(x + (c - 1)) div c = x div c + (if x mod c = 0 then 0 else 1)"
proof -
  have "x + (c - 1) = (x mod c + (c - 1)) + x div c * c" by simp
  then have "(x + (c - 1)) div c = (x mod c + (c - 1)) div c + x div c" using assms by (metis div_mult_self3 add.commute neq0_conv)
  moreover have "(x mod c + (c - 1)) div c = 1" if "x mod c \<noteq> 0"
  proof -
    have "x mod c + (c - 1) = c * 1 + (x mod c - 1)" using that assms by simp
    moreover have "x mod c - 1 < c" using assms mod_less_divisor [of c x] by linarith
    ultimately show ?thesis by (intro div_nat_eqI) simp_all
  qed
  moreover have "(0 + (c - 1)) div c = 0" using assms by simp
  ultimately show ?thesis by (cases "x mod c = 0") (simp_all only: if_True if_False simp_thms not_False_eq_True add_0 add_0_right add.commute)
qed

section \<open>Properties of the protocol layer\<close>

text \<open>A request for a whole payload, as the client prepares it.\<close>

definition whole_request :: "u32 \<Rightarrow> u16 \<Rightarrow> dtp_meta_req_t" where
  "whole_request thr m = \<lparr>throughput = thr, nof_intervals = 1, payload_id = 0, reserved1 = 0,
     reserved2 = 0, session_id = 0, mtu = m, keep_alive_interval = 0,
     intervals = \<lparr>iv_start = 0, iv_end = UINT32_MAX\<rparr> # replicate 7 \<lparr>iv_start = 0, iv_end = 0\<rparr>\<rparr>"

text \<open>
  C16. For every request with a positive throughput, an MTU above the eight header bytes and one to
  eight intervals, \<open>compute_dtp_metrics\<close> ends without a division by zero and without leaving the
  interval array, and its result can be used by the sender: at least one packet per round, a round of
  at least ten milliseconds, and a duration of at least a second.\<close>

theorem compute_dtp_metrics_total:
  assumes "servable req"
  shows "\<exists>mt. compute_dtp_metrics req psize = Inr mt \<and> 1 \<le> packets_per_round mt \<and>
    10 \<le> round_time_ms mt \<and> 1000 \<le> total_duration_ms mt"
  by (rule metrics_shape [OF assms, of psize]) simp

theorem compute_dtp_metrics_total_witness:
  "servable (whole_request 1000 1024) \<and>
   (\<exists>mt. compute_dtp_metrics (whole_request 1000 1024) 4096 = Inr mt \<and> 1 \<le> packets_per_round mt \<and>
    10 \<le> round_time_ms mt \<and> 1000 \<le> total_duration_ms mt)"
proof -
  have s: "servable (whole_request 1000 1024)" by (simp add: servable_def whole_request_def)
  from s compute_dtp_metrics_total [OF s, of 4096] show ?thesis by simp
qed

text \<open>
  C17. For such a request whose intervals do not run backwards, the packet count of the metrics is
  the number of packet numbers in the requested intervals (modulo \<open>2 ^ 32\<close>), and the last packet is
  the last number of the last interval; an interval that ends in \<open>UINT32_MAX\<close> runs to the packet
  that holds the byte behind the payload.\<close>

theorem compute_dtp_metrics_counts:
  assumes "servable req"
    and "\<forall>iv \<in> set (take (unat (nof_intervals req)) (intervals req)).
      iv_start iv \<le> last_seq psize (chunk32 (mtu req)) iv"
  shows "\<exists>mt. compute_dtp_metrics req psize = Inr mt \<and>
    nof_packets mt = of_nat (requested_packets req psize) \<and>
    last_packet mt = last_seq psize (chunk32 (mtu req)) (intervals req ! (unat (nof_intervals req) - 1))"
  by (rule metrics_shape [OF assms(1), of psize])
    (simp add: requested_packets_def sum_packets_nat [OF assms(2)])

theorem compute_dtp_metrics_counts_witness:
  "\<exists>mt. compute_dtp_metrics (whole_request 1000 1024) 5000 = Inr mt \<and> nof_packets mt = 5 \<and> last_packet mt = 4"
  using compute_dtp_metrics_counts [of "whole_request 1000 1024" 5000]
  by (simp add: servable_def whole_request_def requested_packets_def last_seq_def chunk32_def)

text \<open>
  C18. The round chosen is the initial round (one second, or as many seconds as one packet takes)
  with round time and packets divided by one factor, and the factor is 1 or leaves the rate, as
  the loop estimates it, within five percent of the requested throughput.\<close>

theorem compute_dtp_metrics_rate:
  assumes "servable req"
  shows "\<exists>mt rt ppr g. compute_dtp_metrics req psize = Inr mt \<and>
    initial_round (throughput req) (chunk32 (mtu req)) = Inr (rt, ppr) \<and> g \<noteq> 0 \<and>
    round_time_ms mt = rt div g \<and> packets_per_round mt = ppr div g \<and>
    (g = 1 \<or> rate_error (throughput req) (scaled_rate (chunk32 (mtu req)) rt ppr g) < 5)"
  by (rule metrics_shape [OF assms, of psize]) (intro exI conjI, auto)

theorem compute_dtp_metrics_rate_witness:
  "servable (whole_request 1000 1024) \<and>
   (\<exists>mt rt ppr g. compute_dtp_metrics (whole_request 1000 1024) 0 = Inr mt \<and>
    initial_round 1000 1016 = Inr (rt, ppr) \<and> g \<noteq> 0 \<and>
    round_time_ms mt = rt div g \<and> packets_per_round mt = ppr div g \<and>
    (g = 1 \<or> rate_error 1000 (scaled_rate 1016 rt ppr g) < 5))"
proof -
  have s: "servable (whole_request 1000 1024)" by (simp add: servable_def whole_request_def)
  have "throughput (whole_request 1000 1024) = 1000" "chunk32 (mtu (whole_request 1000 1024)) = 1016"
    by (simp_all add: whole_request_def chunk32_def)
  with s compute_dtp_metrics_rate [OF s, of 0] show ?thesis by simp
qed

text \<open>
  C35. The requests the metrics are not defined for: an MTU of exactly eight and a throughput of zero
  end in a division by zero, and no interval at all or more than eight leave the interval array.\<close>

theorem compute_dtp_metrics_failures:
  "(mtu req = 8 \<longrightarrow> compute_dtp_metrics req psize = Inl Div_By_Zero) \<and>
   (throughput req = 0 \<longrightarrow> compute_dtp_metrics req psize = Inl Div_By_Zero) \<and>
   (0 < throughput req \<and> 8 < mtu req \<and> length (intervals req) = 8 \<and>
      (nof_intervals req = 0 \<or> 8 < nof_intervals req) \<longrightarrow>
    compute_dtp_metrics req psize = Inl Out_Of_Bounds)"
proof (intro conjI impI)
  assume "mtu req = 8"
  then have "chunk32 (mtu req) = 0" by (simp add: chunk32_def)
  then show "compute_dtp_metrics req psize = Inl Div_By_Zero"
    by (simp add: compute_dtp_metrics_def initial_round_def)
next
  assume "throughput req = 0"
  then show "compute_dtp_metrics req psize = Inl Div_By_Zero"
    by (cases "chunk32 (mtu req) = 0") (simp_all add: compute_dtp_metrics_def initial_round_def)
next
  assume a: "0 < throughput req \<and> 8 < mtu req \<and> length (intervals req) = 8 \<and>
      (nof_intervals req = 0 \<or> 8 < nof_intervals req)"
  then have m0: "chunk32 (mtu req) \<noteq> 0" by (intro chunk32_nonzero) simp
  obtain rt ppr g where r: "initial_round (throughput req) (chunk32 (mtu req)) = Inr (rt, ppr)"
      "optimise_round 10 (throughput req) (chunk32 (mtu req)) rt ppr 1 = Inr (g * 10)"
      "g * 10 div 10 = g" "g \<noteq> 0" "10 \<le> rt div g" "1 \<le> ppr div g"
    using rounds_total [of req] a by metis
  have p0: "ppr div g \<noteq> 0" using r(6) by auto
  have "nof_intervals req \<noteq> 0 \<Longrightarrow> length (intervals req) < unat (nof_intervals req)"
    using a by (simp add: word_less_nat_alt)
  note c = count_out_of_bounds [OF m0 this, of psize 0]
  show "compute_dtp_metrics req psize = Inl Out_Of_Bounds"
    by (cases "nof_intervals req = 0")
      (simp_all add: compute_dtp_metrics_def Let_def r(1,2,3,4) p0 c del: optimise_round.simps upt_Suc)
qed

theorem compute_dtp_metrics_failures_witness:
  "compute_dtp_metrics (whole_request 1000 8) 4096 = Inl Div_By_Zero \<and>
   compute_dtp_metrics (whole_request 0 1024) 4096 = Inl Div_By_Zero \<and>
   compute_dtp_metrics ((whole_request 1000 1024)\<lparr>nof_intervals := 0\<rparr>) 4096 = Inl Out_Of_Bounds"
  using compute_dtp_metrics_failures [of "whole_request 1000 8" 4096]
    compute_dtp_metrics_failures [of "whole_request 0 1024" 4096]
    compute_dtp_metrics_failures [of "(whole_request 1000 1024)\<lparr>nof_intervals := 0\<rparr>" 4096]
  by (simp add: whole_request_def)

text \<open>
  C32. \<open>compute_nof_packets\<close> is the number of packets a payload is cut into: division rounded up. A
  request for the whole payload is counted by \<open>compute_dtp_metrics\<close> with one packet more than that
  when the payload ends at a packet boundary, and then the last packet number it reports is one
  the payload does not have.\<close>

theorem whole_payload_packets:
  assumes "0 < thr" and "8 < m"
  shows "\<exists>mt n. compute_dtp_metrics (whole_request thr m) psize = Inr mt \<and>
    compute_nof_packets psize (chunk32 m) = Inr n \<and>
    unat n = (unat psize + (unat m - 9)) div (unat m - 8) \<and>
    nof_packets mt = (if unat psize mod (unat m - 8) = 0 then n + 1 else n) \<and>
    last_packet mt + 1 = nof_packets mt"
proof -
  have u: "unat (chunk32 m) = unat m - 8" "0 < unat m - 8"
    using assms(2) unat_chunk32 [of m] by (simp_all add: word_less_nat_alt word_le_nat_alt)
  let ?c = "unat m - 8"
  have s: "servable (whole_request thr m)" using assms by (simp add: servable_def whole_request_def)
  have mod: "psize mod chunk32 m = 0 \<longleftrightarrow> unat psize mod ?c = 0"
    by (simp add: word_unat_eq_iff unat_mod u)
  have d: "unat (psize div chunk32 m) = unat psize div ?c" by (simp add: unat_div u)
  have up: "(unat psize + (unat m - 9)) div ?c = unat psize div ?c + (if unat psize mod ?c = 0 then 0 else 1)"
    using ceil_div [OF u(2), of "unat psize"] by (simp add: diff_diff_eq)
  have "unat (psize div chunk32 m + 1) = unat psize div ?c + 1" if "unat psize mod ?c \<noteq> 0"
  proof -
    have "?c \<noteq> 1" using that by (intro notI) simp
    then have "unat psize div ?c \<le> unat psize div 2" using u(2) by (intro div_le_mono2) simp_all
    then have "unat psize div ?c + 1 < 4294967296" using unat_lt_u32 [of psize] by linarith
    then show ?thesis using unat_add_u32 [of "psize div chunk32 m" 1] by (simp add: d)
  qed
  then have n: "unat (if psize mod chunk32 m \<noteq> 0 then psize div chunk32 m + 1 else psize div chunk32 m)
      = (unat psize + (unat m - 9)) div ?c"
    by (simp add: up mod d)
  have cn: "compute_nof_packets psize (chunk32 m) = Inr (if psize mod chunk32 m \<noteq> 0
      then psize div chunk32 m + 1 else psize div chunk32 m)"
    using chunk32_nonzero [OF assms(2)] by (simp add: compute_nof_packets_def)
  show ?thesis
    by (rule metrics_shape [OF s, of psize], intro exI conjI, assumption, rule cn, rule n)
      (simp_all add: whole_request_def last_seq_def mod)
qed

theorem whole_payload_packets_witness:
  "\<exists>mt n. compute_dtp_metrics (whole_request 1000 1032) 4096 = Inr mt \<and>
    compute_nof_packets 4096 1024 = Inr n \<and> unat n = 4 \<and> nof_packets mt = n + 1"
  using whole_payload_packets [of 1000 1032 4096] by (simp add: chunk32_def) blast

text \<open>
  On a little-endian host the keep-alive interval never reaches the server: the client sends
  zero whatever the session has, and the receiver's conversion gives zero for any 16-bit
  value; the other fields of the request are sent as they are.\<close>

theorem keep_alive_lost:
  "send_remote_meta_req True True session =
     (DTP_OK, Some ((request_meta session)\<lparr>keep_alive_interval := 0\<rparr>)) \<and>
   keep_alive_from_wire True k = 0 \<and>
   keep_alive_from_wire False (keep_alive_to_wire False k) = k"
  by (simp add: send_remote_meta_req_def keep_alive_to_wire_def keep_alive_from_wire_def htobe32_def
      be32toh_def bswap32_low ucast_u16_u32_u16)

end
