(* ===== verification/Session_Pool.thy ===== *)
theory Session_Pool
  imports Dtp_Types
begin

text \<open>
  \<open>src/dtp.c\<close>: the five static sessions, the global error, options, activity flags and the dispatch to
  the session hooks. A session pointer is the index of its slot (\<open>None\<close> is NULL). The table of
  default hooks is a weak symbol and therefore an argument; what a hook does is an argument too: a
  function from the session and the world the hooks act on (files, heap) to their new values.
\<close>

section \<open>State\<close>

record 'c dtp_static_session_t =
  ss_session :: "'c dtp_t"
  in_use :: bool

text \<open>
  The globals of the file. \<open>csp_closed\<close> collects the arguments of \<open>csp_close\<close>, latest first; \<open>world\<close> is
  what the hooks act on.
\<close>

record ('c, 'w) dtp_globals =
  static_sessions :: "'c dtp_static_session_t list"
  last_error :: dtp_errno_t
  csp_closed :: "conn option list"
  world :: 'w

type_synonym handle = "nat option"
type_synonym ('c, 'w) hook_fun = "hook \<Rightarrow> 'c dtp_t \<Rightarrow> 'w \<Rightarrow> ('c dtp_t \<times> 'w) c_result"
type_synonym ('c, 'w) data_hook_fun =
  "hook \<Rightarrow> 'c dtp_t \<Rightarrow> data_packet \<Rightarrow> 'w \<Rightarrow> (('c dtp_t \<times> 'w) \<times> bool) c_result"

definition DTP_NOF_STATIC_SESSIONS :: nat where
  "DTP_NOF_STATIC_SESSIONS = 5"

definition DTP_SESSION_VERSION :: u32 where
  "DTP_SESSION_VERSION = 2"

definition error_strs :: "string list" where
  "error_strs = [''No error'', ''Invalid argument'', ''No more static sessions available'',
     ''Given session not found'', ''Could not connect'',
     ''Could not allocate a mandatory piece of memory'', ''Not implemented'',
     ''No more data available in current session'']"

text \<open>Zero-initialised statics.\<close>

definition zero_hooks :: "'c dtp_opt_session_hooks_cfg" where
  "zero_hooks = \<lparr>on_start = None, on_data_packet = None, on_end = None, on_release = None,
     on_serialize = None, on_deserialize = None, on_dump_info = None, hook_ctx = None\<rparr>"

definition zero_request :: dtp_meta_req_t where
  "zero_request = \<lparr>throughput = 0, nof_intervals = 0, payload_id = 0, reserved1 = 0, reserved2 = 0,
     session_id = 0, mtu = 0, keep_alive_interval = 0,
     intervals = replicate 8 \<lparr>iv_start = 0, iv_end = 0\<rparr>\<rparr>"

definition zero_session :: "'c dtp_t" where
  "zero_session = \<lparr>active = False, conn = None, user_context = None, remote_node = 0, hooks = zero_hooks,
     bytes_received = 0, payload_size = 0, start_ts = 0, end_ts = 0, sess_errno = DTP_NO_ERR,
     request_meta = zero_request, timeout = 0\<rparr>"

definition initial_globals :: "'w \<Rightarrow> ('c, 'w) dtp_globals" where
  "initial_globals w = \<lparr>static_sessions = replicate DTP_NOF_STATIC_SESSIONS \<lparr>ss_session = zero_session, in_use = False\<rparr>,
     last_error = DTP_NO_ERR, csp_closed = [], world = w\<rparr>"

text \<open>
  The default hooks of the file. They only log: a hook leaves session and world as they are, and the
  data hook asks to carry on.
\<close>

definition default_session_hooks :: "'c dtp_opt_session_hooks_cfg" where
  "default_session_hooks = \<lparr>on_start = Some 0, on_data_packet = Some 1, on_end = Some 2, on_release = Some 5,
     on_serialize = Some 3, on_deserialize = Some 4, on_dump_info = None, hook_ctx = None\<rparr>"

definition default_hook :: "('c, 'w) hook_fun" where
  "default_hook h s w = Inr (s, w)"

definition default_on_data_packet :: "('c, 'w) data_hook_fun" where
  "default_on_data_packet h s p w = Inr ((s, w), True)"

section \<open>Access to a session through its handle\<close>

definition deref :: "('c, 'w) dtp_globals \<Rightarrow> handle \<Rightarrow> 'c dtp_t c_result" where
  "deref g h = (case h of None \<Rightarrow> Inl Null_Deref
     | Some i \<Rightarrow> c_bind (c_index (static_sessions g) i) (\<lambda>s. Inr (ss_session s)))"

definition put_session :: "nat \<Rightarrow> 'c dtp_t \<Rightarrow> ('c, 'w) dtp_globals \<Rightarrow> ('c, 'w) dtp_globals" where
  "put_session i s g = g\<lparr>static_sessions :=
     (static_sessions g)[i := (static_sessions g ! i)\<lparr>ss_session := s\<rparr>]\<rparr>"

section \<open>Errors\<close>

fun errno_code :: "dtp_errno_t \<Rightarrow> nat" where
  "errno_code DTP_NO_ERR = 0"
| "errno_code DTP_EINVAL = 1"
| "errno_code DTP_ENOMORE_SESSIONS = 2"
| "errno_code DTP_ESESSION_NOT_FOUND = 3"
| "errno_code DTP_CONNECTION_FAILED = 4"
| "errno_code DTP_MALLOC_FAILED = 5"
| "errno_code DTP_NOT_IMPLEMENTED = 6"
| "errno_code DTP_SESSION_EXHAUSTED = 7"
| "errno_code DTP_LAST_ERR = 8"

definition dtp_errno :: "('c, 'w) dtp_globals \<Rightarrow> handle \<Rightarrow> dtp_errno_t c_result" where
  "dtp_errno g h = (if h \<noteq> None then c_bind (deref g h) (\<lambda>s. Inr (sess_errno s)) else Inr (last_error g))"

definition dtp_strerror :: "dtp_errno_t \<Rightarrow> string c_result" where
  "dtp_strerror e = c_index error_strs (errno_code e)"

definition dtp_set_errno :: "('c, 'w) dtp_globals \<Rightarrow> handle \<Rightarrow> dtp_errno_t \<Rightarrow> ('c, 'w) dtp_globals c_result" where
  "dtp_set_errno g h e = (case h of
       Some i \<Rightarrow> c_bind (deref g h) (\<lambda>s. Inr (put_session i (s\<lparr>sess_errno := e\<rparr>) g))
     | None \<Rightarrow> Inr (g\<lparr>last_error := e\<rparr>))"

section \<open>Options\<close>

text \<open>
  The hooks option copies six of the eight members. Reading another member of the union than the one
  written last is reported as \<open>Indeterminate\<close>.
\<close>

definition copy_hooks ::
  "'c dtp_opt_session_hooks_cfg \<Rightarrow> 'c dtp_opt_session_hooks_cfg \<Rightarrow> 'c dtp_opt_session_hooks_cfg" where
  "copy_hooks from to = to\<lparr>on_start := on_start from, on_data_packet := on_data_packet from,
     on_end := on_end from, on_release := on_release from, on_serialize := on_serialize from,
     on_deserialize := on_deserialize from\<rparr>"

fun dtp_set_opt :: "'c dtp_t \<Rightarrow> dtp_option \<Rightarrow> 'c dtp_params \<Rightarrow> ('c dtp_t \<times> dtp_result) c_result" where
  "dtp_set_opt s DTP_REMOTE_CFG (Remote_cfg v) = Inr (s\<lparr>remote_node := v\<rparr>, DTP_OK)"
| "dtp_set_opt s DTP_SESSION_HOOKS_CFG (Hooks_cfg v) = Inr (s\<lparr>hooks := copy_hooks v (hooks s)\<rparr>, DTP_OK)"
| "dtp_set_opt s DTP_THROUGHPUT_CFG (Throughput_cfg v) =
     Inr (s\<lparr>request_meta := (request_meta s)\<lparr>throughput := v\<rparr>\<rparr>, DTP_OK)"
| "dtp_set_opt s DTP_TIMEOUT_CFG (Timeout_cfg v) = Inr (s\<lparr>timeout := v\<rparr>, DTP_OK)"
| "dtp_set_opt s DTP_PAYLOAD_ID_CFG (Payload_id_cfg v) =
     Inr (s\<lparr>request_meta := (request_meta s)\<lparr>payload_id := v\<rparr>\<rparr>, DTP_OK)"
| "dtp_set_opt s DTP_MTU_CFG (Mtu_cfg v) = Inr (s\<lparr>request_meta := (request_meta s)\<lparr>mtu := v\<rparr>\<rparr>, DTP_OK)"
| "dtp_set_opt s DTP_SESSION_ID_CFG (Session_id_cfg v) =
     Inr (s\<lparr>request_meta := (request_meta s)\<lparr>session_id := v\<rparr>\<rparr>, DTP_OK)"
| "dtp_set_opt s _ _ = Inl Indeterminate"

fun dtp_get_opt :: "'c dtp_t \<Rightarrow> dtp_option \<Rightarrow> 'c dtp_params \<Rightarrow> ('c dtp_params \<times> dtp_result) c_result" where
  "dtp_get_opt s DTP_REMOTE_CFG p = Inr (Remote_cfg (remote_node s), DTP_OK)"
| "dtp_get_opt s DTP_SESSION_HOOKS_CFG p = (case p of
      Hooks_cfg c \<Rightarrow> Inr (Hooks_cfg (copy_hooks (hooks s) c), DTP_OK) | _ \<Rightarrow> Inl Indeterminate)"
| "dtp_get_opt s _ p = Inr (p, DTP_OK)"

section \<open>Acquire and release\<close>

fun free_slot :: "'c dtp_static_session_t list \<Rightarrow> nat option" where
  "free_slot [] = None"
| "free_slot (x # xs) = (if in_use x then map_option Suc (free_slot xs) else Some 0)"

definition acquired_session :: "'c dtp_opt_session_hooks_cfg \<Rightarrow> 'c dtp_t \<Rightarrow> 'c dtp_t" where
  "acquired_session dh s =
     s\<lparr>bytes_received := 0, active := False, user_context := None,
       request_meta := (request_meta s)\<lparr>nof_intervals := 1,
         intervals := (intervals (request_meta s))[0 := \<lparr>iv_start = 0, iv_end = 0xffffffff\<rparr>],
         session_id := 0\<rparr>,
       hooks := copy_hooks dh (hooks s)\<rparr>"

definition dtp_acquire_session ::
  "'c dtp_opt_session_hooks_cfg \<Rightarrow> ('c, 'w) dtp_globals \<Rightarrow> ('c, 'w) dtp_globals \<times> handle" where
  "dtp_acquire_session dh g =
     (case free_slot (static_sessions g) of
        Some i \<Rightarrow> (g\<lparr>static_sessions := (static_sessions g)[i := \<lparr>ss_session =
            acquired_session dh (ss_session (static_sessions g ! i)), in_use = True\<rparr>],
            last_error := DTP_NO_ERR\<rparr>, Some i)
      | None \<Rightarrow> (g\<lparr>last_error := DTP_ENOMORE_SESSIONS\<rparr>, None))"

definition run_hook :: "('c, 'w) hook_fun \<Rightarrow> hook option \<Rightarrow> 'c dtp_t \<Rightarrow> 'w \<Rightarrow> ('c dtp_t \<times> 'w) c_result" where
  "run_hook hf h s w = (case h of Some f \<Rightarrow> hf f s w | None \<Rightarrow> Inr (s, w))"

definition dtp_release_session ::
  "('c, 'w) hook_fun \<Rightarrow> ('c, 'w) dtp_globals \<Rightarrow> handle \<Rightarrow> (('c, 'w) dtp_globals \<times> dtp_result) c_result" where
  "dtp_release_session hf g h =
     (case h of
        Some i \<Rightarrow> if i < DTP_NOF_STATIC_SESSIONS then
          c_bind (deref g h) (\<lambda>s0.
          c_bind (run_hook hf (on_release (hooks s0)) s0 (world g)) (\<lambda>(s, w).
          Inr (g\<lparr>csp_closed := conn s # csp_closed g, world := w, last_error := sess_errno s,
                 static_sessions := (static_sessions g)[i := \<lparr>ss_session =
                   s\<lparr>user_context := None, bytes_received := 0,
                     request_meta := (request_meta s)\<lparr>nof_intervals := 0\<rparr>, sess_errno := DTP_NO_ERR\<rparr>,
                   in_use = False\<rparr>]\<rparr>, DTP_OK)))
        else Inr (g\<lparr>last_error := DTP_ESESSION_NOT_FOUND\<rparr>, DTP_ERR)
      | None \<Rightarrow> Inr (g\<lparr>last_error := DTP_ESESSION_NOT_FOUND\<rparr>, DTP_ERR))"

section \<open>Activity, serialisation, accessors\<close>

definition stop_slot :: "u32 \<Rightarrow> 'c dtp_static_session_t \<Rightarrow> 'c dtp_static_session_t" where
  "stop_slot sid x = (if in_use x \<and> (sid = 0 \<or> sid = session_id (request_meta (ss_session x)))
     then x\<lparr>ss_session := (ss_session x)\<lparr>active := False\<rparr>\<rparr> else x)"

definition dtp_stop_transfer :: "u32 \<Rightarrow> ('c, 'w) dtp_globals \<Rightarrow> ('c, 'w) dtp_globals \<times> dtp_result" where
  "dtp_stop_transfer sid g = (g\<lparr>static_sessions := map (stop_slot sid) (static_sessions g)\<rparr>, DTP_OK)"

definition dtp_is_active :: "('c, 'w) dtp_globals \<Rightarrow> handle \<Rightarrow> bool c_result" where
  "dtp_is_active g h = (if h = None then Inr (\<exists>x \<in> set (static_sessions g). in_use x \<and> active (ss_session x))
     else c_bind (deref g h) (\<lambda>s. Inr (active s)))"

definition dtp_serialize_session :: "('c, 'w) hook_fun \<Rightarrow> 'c dtp_t \<Rightarrow> 'w \<Rightarrow> (('c dtp_t \<times> 'w) \<times> dtp_result) c_result" where
  "dtp_serialize_session hf s w = c_bind (run_hook hf (on_serialize (hooks s)) s w) (\<lambda>r. Inr (r, DTP_OK))"

definition dtp_deserialize_session :: "('c, 'w) hook_fun \<Rightarrow> 'c dtp_t \<Rightarrow> 'w \<Rightarrow> (('c dtp_t \<times> 'w) \<times> dtp_result) c_result" where
  "dtp_deserialize_session hf s w = c_bind (run_hook hf (on_deserialize (hooks s)) s w) (\<lambda>r. Inr (r, DTP_OK))"

definition compute_throughput :: "u32 \<Rightarrow> u32 \<Rightarrow> u32 \<Rightarrow> u32 c_result" where
  "compute_throughput now last_ts bytes_sent =
     (if now \<noteq> last_ts then c_div bytes_sent (now - last_ts) else Inr 0)"

definition dtp_session_set_user_ctx :: "'c dtp_t \<Rightarrow> string option \<Rightarrow> 'c dtp_t" where
  "dtp_session_set_user_ctx s ctx = s\<lparr>user_context := ctx\<rparr>"

definition dtp_session_get_user_ctx :: "'c dtp_t \<Rightarrow> string option" where
  "dtp_session_get_user_ctx s = user_context s"

record dtp_on_data_info_t =
  packet_sequence_number :: u32
  data_offset :: u32
  data_length :: u32
  info_data :: "u8 list"

definition dtp_get_data_info :: "'c dtp_t \<Rightarrow> data_packet \<Rightarrow> dtp_on_data_info_t c_result" where
  "dtp_get_data_info s p =
     c_bind (c_div (ucast (pk_offset p)) (chunk64 (mtu (request_meta s)))) (\<lambda>q.
     Inr \<lparr>packet_sequence_number = ucast q, data_offset = pk_offset p,
          data_length = ucast (pk_length p) - 8, info_data = pk_data p\<rparr>)"

section \<open>The pool invariant\<close>

definition held :: "('c, 'w) dtp_globals \<Rightarrow> nat set" where
  "held g = {i. i < length (static_sessions g) \<and> in_use (static_sessions g ! i)}"

text \<open>A slot nobody holds carries nothing over to its next user.\<close>

definition clean_slot :: "'c dtp_static_session_t \<Rightarrow> bool" where
  "clean_slot x \<longleftrightarrow> \<not> in_use x \<longrightarrow> sess_errno (ss_session x) = DTP_NO_ERR \<and>
     user_context (ss_session x) = None \<and> bytes_received (ss_session x) = 0"

definition pool_inv :: "('c, 'w) dtp_globals \<Rightarrow> bool" where
  "pool_inv g \<longleftrightarrow> length (static_sessions g) = DTP_NOF_STATIC_SESSIONS \<and>
     (\<forall>x \<in> set (static_sessions g). clean_slot x)"

text \<open>
  What can happen to the globals: a session is acquired or released, a transfer is stopped, an error is
  set, or the holder of a session works on it.
\<close>

inductive pool_step :: "'c dtp_opt_session_hooks_cfg \<Rightarrow> ('c, 'w) hook_fun \<Rightarrow>
    ('c, 'w) dtp_globals \<Rightarrow> ('c, 'w) dtp_globals \<Rightarrow> bool" for dh hf where
  acquire: "pool_step dh hf g (fst (dtp_acquire_session dh g))"
| release: "dtp_release_session hf g h = Inr (g', r) \<Longrightarrow> pool_step dh hf g g'"
| stop: "pool_step dh hf g (fst (dtp_stop_transfer sid g))"
| work: "i \<in> held g \<Longrightarrow> pool_step dh hf g ((put_session i s g)\<lparr>world := w, last_error := e\<rparr>)"

inductive_cases pool_stepE: "pool_step dh hf g g'"

inductive pool_reachable :: "'c dtp_opt_session_hooks_cfg \<Rightarrow> ('c, 'w) hook_fun \<Rightarrow>
    ('c, 'w) dtp_globals \<Rightarrow> bool" for dh hf where
  start: "pool_reachable dh hf (initial_globals w)"
| step: "pool_reachable dh hf g \<Longrightarrow> pool_step dh hf g g' \<Longrightarrow> pool_reachable dh hf g'"

lemma free_slot_None: "free_slot xs = None \<longleftrightarrow> (\<forall>x \<in> set xs. in_use x)"
  by (induction xs) auto

lemma free_slot_Some:
  "free_slot xs = Some i \<Longrightarrow> i < length xs \<and> \<not> in_use (xs ! i) \<and> (\<forall>j < i. in_use (xs ! j))"
proof (induction xs arbitrary: i)
  case (Cons x xs)
  then show ?case
    by (cases "in_use x") (auto simp: less_Suc_eq_0_disj nth_Cons split: nat.splits)
qed simp

lemma free_slot_held: "free_slot (static_sessions g) = None \<longleftrightarrow> held g = {..<length (static_sessions g)}"
  by (auto simp: free_slot_None held_def all_set_conv_all_nth)

lemma pool_inv_initial: "pool_inv (initial_globals w)"
  by (simp add: pool_inv_def initial_globals_def clean_slot_def zero_session_def)

lemma held_initial: "held (initial_globals w) = {}"
  by (auto simp: held_def initial_globals_def)

lemma pool_inv_update:
  "pool_inv g \<Longrightarrow> static_sessions g' = (static_sessions g)[i := x] \<Longrightarrow> clean_slot x \<Longrightarrow> pool_inv g'"
  using set_update_subset_insert [of "static_sessions g" i x] by (auto simp: pool_inv_def)

lemma pool_inv_cong: "pool_inv g \<Longrightarrow> static_sessions g' = static_sessions g \<Longrightarrow> pool_inv g'"
  by (simp add: pool_inv_def)

lemma pool_inv_acquire: "pool_inv g \<Longrightarrow> pool_inv (fst (dtp_acquire_session dh g))"
proof (cases "free_slot (static_sessions g)")
  case None
  then show "pool_inv g \<Longrightarrow> ?thesis" by (rule_tac pool_inv_cong) (auto simp: dtp_acquire_session_def)
next
  case (Some i)
  then show "pool_inv g \<Longrightarrow> ?thesis"
    by (rule_tac pool_inv_update [of g _ i]) (auto simp: dtp_acquire_session_def clean_slot_def)
qed

lemma dtp_release_session_ok:
  assumes "dtp_release_session hf g h = Inr (g', r)"
  shows "(\<exists>i s. h = Some i \<and> i < DTP_NOF_STATIC_SESSIONS \<and> r = DTP_OK \<and> i < length (static_sessions g) \<and>
      static_sessions g' = (static_sessions g)[i := \<lparr>ss_session = s, in_use = False\<rparr>] \<and>
      clean_slot \<lparr>ss_session = s, in_use = False\<rparr>) \<or>
    (r = DTP_ERR \<and> g' = g\<lparr>last_error := DTP_ESESSION_NOT_FOUND\<rparr>)"
  using assms
  by (auto simp: dtp_release_session_def c_bind_eq_Inr deref_def c_index_def Let_def clean_slot_def
      split: if_splits prod.splits option.splits)

lemma pool_inv_release: "pool_inv g \<Longrightarrow> dtp_release_session hf g h = Inr (g', r) \<Longrightarrow> pool_inv g'"
  by (drule dtp_release_session_ok) (auto elim: pool_inv_update pool_inv_cong)

lemma pool_inv_stop: "pool_inv g \<Longrightarrow> pool_inv (fst (dtp_stop_transfer sid g))"
  by (auto simp: pool_inv_def dtp_stop_transfer_def stop_slot_def clean_slot_def)

lemma pool_inv_work: "pool_inv g \<Longrightarrow> i \<in> held g \<Longrightarrow> pool_inv ((put_session i s g)\<lparr>world := w, last_error := e\<rparr>)"
  by (rule pool_inv_update [where g = g and i = i and x = "(static_sessions g ! i)\<lparr>ss_session := s\<rparr>"])
    (auto simp: put_session_def clean_slot_def held_def)

lemma pool_step_inv: "pool_step dh hf g g' \<Longrightarrow> pool_inv g \<Longrightarrow> pool_inv g'"
  by (cases rule: pool_step.cases) (auto intro: pool_inv_acquire pool_inv_release pool_inv_stop pool_inv_work)

lemma pool_reachable_inv: "pool_reachable dh hf g \<Longrightarrow> pool_inv g"
  by (induction rule: pool_reachable.induct) (auto intro: pool_inv_initial pool_step_inv)

section \<open>The pool as a resource\<close>

text \<open>
  What a user of a fixed pool relies on: an acquisition succeeds exactly when something is free, gives
  a handle nobody holds, and a release gives the handle back.
\<close>

locale resource_pool =
  fixes acquire :: "'s \<Rightarrow> 's \<times> 'h option"
    and release :: "'s \<Rightarrow> 'h \<Rightarrow> 's c_result"
    and holds :: "'s \<Rightarrow> 'h set"
    and ok :: "'s \<Rightarrow> bool"
    and capacity :: nat
  assumes holds_finite: "ok s \<Longrightarrow> finite (holds s) \<and> card (holds s) \<le> capacity"
    and acquire_ok: "ok s \<Longrightarrow> acquire s = (s', r) \<Longrightarrow> ok s'"
    and acquire_free: "ok s \<Longrightarrow> acquire s = (s', Some h) \<Longrightarrow> h \<notin> holds s \<and> holds s' = insert h (holds s)"
    and acquire_full: "ok s \<Longrightarrow> acquire s = (s', None) \<Longrightarrow> card (holds s) = capacity \<and> holds s' = holds s"
    and release_held: "ok s \<Longrightarrow> release s h = Inr s' \<Longrightarrow> ok s' \<and> holds s' = holds s - {h}"
begin

text \<open>Several acquisitions in a row; the handles obtained, first one first.\<close>

fun acquire_many :: "nat \<Rightarrow> 's \<Rightarrow> 's \<times> 'h list" where
  "acquire_many 0 s = (s, [])"
| "acquire_many (Suc n) s = (case acquire s of
     (s1, None) \<Rightarrow> (s1, [])
   | (s1, Some h) \<Rightarrow> (case acquire_many n s1 of (s2, hs) \<Rightarrow> (s2, h # hs)))"

lemma acquire_succeeds:
  assumes "ok s"
  shows "(snd (acquire s) \<noteq> None) \<longleftrightarrow> card (holds s) < capacity"
proof (cases "acquire s")
  case (Pair s' r)
  show ?thesis
  proof (cases r)
    case None
    with Pair acquire_full [OF assms] show ?thesis by auto
  next
    case (Some h)
    with Pair have a: "h \<notin> holds s" "holds s' = insert h (holds s)" "ok s'"
      using acquire_free [OF assms] acquire_ok [OF assms] by auto
    then have "card (holds s') = Suc (card (holds s))" using holds_finite [OF assms] by simp
    with holds_finite [OF a(3)] Pair Some show ?thesis by simp
  qed
qed

lemma acquire_many_distinct:
  "ok s \<Longrightarrow> acquire_many n s = (s', hs) \<Longrightarrow>
   ok s' \<and> distinct hs \<and> set hs \<inter> holds s = {} \<and> holds s' = holds s \<union> set hs \<and>
   length hs = min n (capacity - card (holds s))"
proof (induction n arbitrary: s s' hs)
  case 0
  then show ?case by auto
next
  case (Suc n)
  obtain s1 r where a: "acquire s = (s1, r)" by fastforce
  have ok1: "ok s1" using Suc.prems(1) a by (rule acquire_ok)
  show ?case
  proof (cases r)
    case None
    then have "card (holds s) = capacity" "holds s1 = holds s"
      using acquire_full [OF Suc.prems(1)] a by auto
    with None a Suc.prems(2) ok1 show ?thesis by auto
  next
    case (Some h)
    obtain hs' where m: "acquire_many n s1 = (s', hs')" "hs = h # hs'"
      using Suc.prems(2) a Some by (auto split: prod.splits)
    have f: "h \<notin> holds s" "holds s1 = insert h (holds s)"
      using acquire_free [OF Suc.prems(1)] a Some by auto
    have fin: "finite (holds s)" using holds_finite [OF Suc.prems(1)] by simp
    have c: "card (holds s1) = Suc (card (holds s))" using f fin by simp
    have "Suc (card (holds s)) \<le> capacity" using holds_finite [OF ok1] c by simp
    with Suc.IH [OF ok1 m(1)] m(2) f c show ?thesis by auto
  qed
qed

end

definition release_slot :: "('c, 'w) hook_fun \<Rightarrow> ('c, 'w) dtp_globals \<Rightarrow> nat \<Rightarrow> ('c, 'w) dtp_globals c_result" where
  "release_slot hf g i = c_bind (dtp_release_session hf g (Some i)) (\<lambda>(g', _). Inr g')"

lemma held_bounds: "pool_inv g \<Longrightarrow> held g \<subseteq> {..<DTP_NOF_STATIC_SESSIONS}"
  by (auto simp: held_def pool_inv_def)

lemma held_acquire:
  assumes "pool_inv g" and "dtp_acquire_session dh g = (g', r)"
  shows "r = Some i \<Longrightarrow> i \<notin> held g \<and> held g' = insert i (held g)"
    and "r = None \<Longrightarrow> held g = {..<DTP_NOF_STATIC_SESSIONS} \<and> held g' = held g"
proof -
  assume "r = Some i"
  then have f: "free_slot (static_sessions g) = Some i"
      "static_sessions g' = (static_sessions g)[i := \<lparr>ss_session =
          acquired_session dh (ss_session (static_sessions g ! i)), in_use = True\<rparr>]"
    using assms(2) by (auto simp: dtp_acquire_session_def split: option.splits)
  with free_slot_Some [OF f(1)] show "i \<notin> held g \<and> held g' = insert i (held g)"
    by (auto simp: held_def nth_list_update)
next
  assume "r = None"
  then have "free_slot (static_sessions g) = None" "static_sessions g' = static_sessions g"
    using assms(2) by (auto simp: dtp_acquire_session_def split: option.splits)
  then show "held g = {..<DTP_NOF_STATIC_SESSIONS} \<and> held g' = held g"
    using assms(1) by (simp add: free_slot_held pool_inv_def held_def)
qed

lemma held_release:
  assumes "pool_inv g" and "dtp_release_session hf g (Some i) = Inr (g', r)"
  shows "held g' = held g - {i}"
proof (cases "i < DTP_NOF_STATIC_SESSIONS")
  case True
  then have "r = DTP_OK"
    using assms(2) by (auto simp: dtp_release_session_def c_bind_eq_Inr)
  with dtp_release_session_ok [OF assms(2)] show ?thesis
    by (auto simp: held_def nth_list_update split: if_splits)
next
  case False
  then have "g' = g\<lparr>last_error := DTP_ESESSION_NOT_FOUND\<rparr>"
    using assms(2) by (simp add: dtp_release_session_def)
  with False held_bounds [OF assms(1)] show ?thesis by (auto simp: held_def)
qed

interpretation pool: resource_pool "dtp_acquire_session dh" "release_slot hf" held pool_inv DTP_NOF_STATIC_SESSIONS
  for dh :: "'c dtp_opt_session_hooks_cfg" and hf :: "('c, 'w) hook_fun"
proof unfold_locales
  fix s s' :: "('c, 'w) dtp_globals" and h r
  assume ok: "pool_inv s"
  show "finite (held s) \<and> card (held s) \<le> DTP_NOF_STATIC_SESSIONS"
    using held_bounds [OF ok] by (metis card_lessThan card_mono finite_lessThan finite_subset)
  show "pool_inv s'" if "dtp_acquire_session dh s = (s', r)"
    using pool_inv_acquire [OF ok, of dh] that by simp
  show "h \<notin> held s \<and> held s' = insert h (held s)" if "dtp_acquire_session dh s = (s', Some h)"
    using held_acquire(1) [OF ok that] by simp
  show "card (held s) = DTP_NOF_STATIC_SESSIONS \<and> held s' = held s" if "dtp_acquire_session dh s = (s', None)"
    using held_acquire(2) [OF ok that] by simp
  show "pool_inv s' \<and> held s' = held s - {h}" if "release_slot hf s h = Inr s'"
    using that pool_inv_release [OF ok] held_release [OF ok]
    by (auto simp: release_slot_def c_bind_eq_Inr)
qed

lemma acquired_is_clean:
  assumes "pool_inv g" and "dtp_acquire_session dh g = (g', Some i)"
  shows "\<exists>s. deref g' (Some i) = Inr s \<and> \<not> active s \<and> sess_errno s = DTP_NO_ERR \<and>
      user_context s = None \<and> bytes_received s = 0 \<and> nof_intervals (request_meta s) = 1 \<and>
      session_id (request_meta s) = 0"
proof -
  have f: "free_slot (static_sessions g) = Some i" and g': "static_sessions g' = (static_sessions g)[i :=
      \<lparr>ss_session = acquired_session dh (ss_session (static_sessions g ! i)), in_use = True\<rparr>]"
    using assms(2) by (auto simp: dtp_acquire_session_def split: option.splits)
  have "clean_slot (static_sessions g ! i)" "i < length (static_sessions g)" "\<not> in_use (static_sessions g ! i)"
    using free_slot_Some [OF f] assms(1) by (auto simp: pool_inv_def)
  with g' show ?thesis by (simp add: deref_def acquired_session_def clean_slot_def)
qed

section \<open>Properties of the session pool\<close>

text \<open>Acquiring one session after the other until none is left.\<close>

fun acquire_sessions ::
  "'c dtp_opt_session_hooks_cfg \<Rightarrow> nat \<Rightarrow> ('c, 'w) dtp_globals \<Rightarrow> ('c, 'w) dtp_globals \<times> nat list" where
  "acquire_sessions dh 0 g = (g, [])"
| "acquire_sessions dh (Suc n) g = (case dtp_acquire_session dh g of
     (g1, None) \<Rightarrow> (g1, [])
   | (g1, Some i) \<Rightarrow> (case acquire_sessions dh n g1 of (g2, is) \<Rightarrow> (g2, i # is)))"

lemma acquire_sessions_many: "acquire_sessions dh n g = pool.acquire_many dh n g"
  by (induction n arbitrary: g) (simp_all split: prod.splits option.splits)

text \<open>
  C21. In every state the program can reach, \<open>dtp_acquire_session\<close> succeeds exactly when fewer than five
  sessions are in use. The session it hands out was not in use, and whatever its previous user did,
  it is inactive, without error, user context or received bytes, and asks for one interval. When
  all are in use nothing changes but the global error, which becomes \<open>DTP_ENOMORE_SESSIONS\<close>.\<close>

theorem acquire_session_behaviour:
  assumes "pool_reachable dh hf g" and "dtp_acquire_session dh g = (g', r)"
  shows "(r \<noteq> None \<longleftrightarrow> card (held g) < 5) \<and>
    (\<forall>i. r = Some i \<longrightarrow> i \<notin> held g \<and> held g' = insert i (held g) \<and> (\<exists>s. deref g' r = Inr s \<and>
       \<not> active s \<and> sess_errno s = DTP_NO_ERR \<and> user_context s = None \<and> bytes_received s = 0 \<and>
       nof_intervals (request_meta s) = 1 \<and> session_id (request_meta s) = 0)) \<and>
    (r = None \<longrightarrow> g' = g\<lparr>last_error := DTP_ENOMORE_SESSIONS\<rparr>)"
proof (intro conjI allI impI)
  have inv: "pool_inv g" using assms(1) by (rule pool_reachable_inv)
  show "(r \<noteq> None) = (card (held g) < 5)"
    using pool.acquire_succeeds [OF inv, of dh] assms(2) by (simp add: DTP_NOF_STATIC_SESSIONS_def)
  show "g' = g\<lparr>last_error := DTP_ENOMORE_SESSIONS\<rparr>" if "r = None"
    using that assms(2) by (auto simp: dtp_acquire_session_def split: option.splits)
  fix i assume r: "r = Some i"
  then show "i \<notin> held g" "held g' = insert i (held g)" using held_acquire(1) [OF inv assms(2)] by auto
  show "\<exists>s. deref g' r = Inr s \<and> \<not> active s \<and> sess_errno s = DTP_NO_ERR \<and>
      user_context s = None \<and> bytes_received s = 0 \<and> nof_intervals (request_meta s) = 1 \<and>
      session_id (request_meta s) = 0"
    using acquired_is_clean [OF inv] assms(2) r by blast
qed

theorem acquire_session_behaviour_witness:
  "\<exists>g' r. dtp_acquire_session default_session_hooks (initial_globals () :: (unit, unit) dtp_globals) = (g', r) \<and>
    r \<noteq> None"
proof -
  obtain g' r where a: "dtp_acquire_session default_session_hooks (initial_globals () :: (unit, unit) dtp_globals) = (g', r)"
    by fastforce
  have "pool_reachable default_session_hooks default_hook (initial_globals () :: (unit, unit) dtp_globals)"
    by (rule pool_reachable.start)
  from acquire_session_behaviour [OF this a] a show ?thesis by (auto simp: held_initial)
qed

text \<open>
  C22. However the pool was used before, acquiring repeatedly hands out as many sessions as asked for
  or as are left of the five, no session twice and none that somebody holds.\<close>

theorem acquire_sessions_distinct:
  assumes "pool_reachable dh hf g" and "acquire_sessions dh n g = (g', is)"
  shows "distinct is \<and> set is \<inter> held g = {} \<and> held g' = held g \<union> set is \<and> length is = min n (5 - card (held g))"
  using pool.acquire_many_distinct [OF pool_reachable_inv [OF assms(1)], of dh n g' "is"] assms(2)
  by (simp add: acquire_sessions_many DTP_NOF_STATIC_SESSIONS_def)

theorem acquire_sessions_distinct_witness:
  "\<exists>g' is. acquire_sessions default_session_hooks 6 (initial_globals () :: (unit, unit) dtp_globals) = (g', is) \<and>
    distinct is \<and> length is = 5"
proof -
  obtain g' "is" where a: "acquire_sessions default_session_hooks 6 (initial_globals () :: (unit, unit) dtp_globals) = (g', is)"
    by fastforce
  have "pool_reachable default_session_hooks default_hook (initial_globals () :: (unit, unit) dtp_globals)"
    by (rule pool_reachable.start)
  from acquire_sessions_distinct [OF this a] a show ?thesis by (simp add: held_initial)
qed

text \<open>
  C30. Releasing a session runs its release hook, closes its connection, frees its slot and keeps its
  last error as the global one (which \<open>dtp_errno\<close> reports for NULL); a pointer that is no session of
  the pool, NULL included, changes nothing but the global error, to \<open>DTP_ESESSION_NOT_FOUND\<close>.\<close>

theorem release_session_behaviour:
  assumes "pool_inv g"
  shows "(\<forall>i s s' w. i < 5 \<and> deref g (Some i) = Inr s \<and> run_hook hf (on_release (hooks s)) s (world g) = Inr (s', w) \<longrightarrow>
     (\<exists>g'. dtp_release_session hf g (Some i) = Inr (g', DTP_OK) \<and> held g' = held g - {i} \<and> world g' = w \<and>
       csp_closed g' = conn s' # csp_closed g \<and> dtp_errno g' None = Inr (sess_errno s') \<and>
       (\<forall>j. j \<noteq> i \<longrightarrow> deref g' (Some j) = deref g (Some j)))) \<and>
   (\<forall>h. (\<forall>i < 5. h \<noteq> Some i) \<longrightarrow>
     dtp_release_session hf g h = Inr (g\<lparr>last_error := DTP_ESESSION_NOT_FOUND\<rparr>, DTP_ERR))"
proof (intro conjI allI impI)
  fix i s s' w
  assume a: "i < 5 \<and> deref g (Some i) = Inr s \<and> run_hook hf (on_release (hooks s)) s (world g) = Inr (s', w)"
  then obtain g' where r: "dtp_release_session hf g (Some i) = Inr (g', DTP_OK)" "world g' = w"
      "csp_closed g' = conn s' # csp_closed g" "last_error g' = sess_errno s'"
    by (simp add: dtp_release_session_def DTP_NOF_STATIC_SESSIONS_def)
  have "deref g' (Some j) = deref g (Some j)" if "j \<noteq> i" for j
    using dtp_release_session_ok [OF r(1)] that by (auto simp: deref_def c_index_def)
  with r held_release [OF assms r(1)] show "\<exists>g'. dtp_release_session hf g (Some i) = Inr (g', DTP_OK) \<and>
      held g' = held g - {i} \<and> world g' = w \<and> csp_closed g' = conn s' # csp_closed g \<and>
      dtp_errno g' None = Inr (sess_errno s') \<and> (\<forall>j. j \<noteq> i \<longrightarrow> deref g' (Some j) = deref g (Some j))"
    by (auto simp: dtp_errno_def)
next
  fix h :: handle
  assume "\<forall>i<5. h \<noteq> Some i"
  then show "dtp_release_session hf g h = Inr (g\<lparr>last_error := DTP_ESESSION_NOT_FOUND\<rparr>, DTP_ERR)"
    by (cases h) (auto simp: dtp_release_session_def DTP_NOF_STATIC_SESSIONS_def)
qed

theorem release_session_behaviour_witness:
  "let g = fst (dtp_acquire_session default_session_hooks (initial_globals () :: (unit, unit) dtp_globals)) in
    held g = {0} \<and> (\<exists>g'. dtp_release_session default_hook g (Some 0) = Inr (g', DTP_OK) \<and> held g' = {} \<and> csp_closed g' = [None])"
proof -
  let ?i = "initial_globals () :: (unit, unit) dtp_globals"
  have slot: "free_slot (static_sessions ?i) = Some 0" by (simp add: initial_globals_def DTP_NOF_STATIC_SESSIONS_def eval_nat_numeral)
  then obtain g where g: "dtp_acquire_session default_session_hooks ?i = (g, Some 0)" by (simp add: dtp_acquire_session_def)
  have h: "held g = {0}" using held_acquire(1) [OF pool_inv_initial g] by (simp add: held_initial)
  have s: "\<exists>s. deref g (Some 0) = Inr s \<and> conn s = None" "csp_closed g = []"
    using g slot by (auto simp: dtp_acquire_session_def deref_def initial_globals_def acquired_session_def zero_session_def
        copy_hooks_def DTP_NOF_STATIC_SESSIONS_def)
  then obtain s where s1: "deref g (Some 0) = Inr s" "conn s = None" by blast
  have "run_hook default_hook (on_release (hooks s)) s (world g) = Inr (s, world g)"
    by (simp add: run_hook_def default_hook_def split: option.split)
  with release_session_behaviour [OF pool_inv_acquire [OF pool_inv_initial], of default_session_hooks "()" default_hook,
      THEN conjunct1, rule_format, of 0 s s "world g"] g h s(2) s1 show ?thesis by (auto simp: Let_def)
qed

text \<open>
  A connection is closed again by later users of its slot: nothing resets the connection of a
  released session, so a session that is acquired and released without any transfer closes the
  connection of the slot's previous user a second time.\<close>

theorem stale_connection_closed_again:
  assumes "pool_inv g" and "free_slot (static_sessions g) = Some i"
    and "conn (ss_session (static_sessions g ! i)) = c" and "on_release dh = None"
  shows "\<exists>g1 g2. dtp_acquire_session dh g = (g1, Some i) \<and>
    dtp_release_session hf g1 (Some i) = Inr (g2, DTP_OK) \<and> csp_closed g2 = c # csp_closed g \<and>
    conn (ss_session (static_sessions g2 ! i)) = c"
proof -
  have i: "i < length (static_sessions g)" "i < DTP_NOF_STATIC_SESSIONS"
    using free_slot_Some [OF assms(2)] assms(1) by (simp_all add: pool_inv_def)
  with assms(2-) show ?thesis
    by (simp add: dtp_acquire_session_def dtp_release_session_def deref_def run_hook_def
        acquired_session_def copy_hooks_def)
qed

theorem stale_connection_closed_again_witness:
  "let g = put_session 0 (zero_session\<lparr>conn := Some 9\<rparr>) (initial_globals () :: (unit, unit) dtp_globals) in
    \<exists>g1 g2. dtp_acquire_session zero_hooks g = (g1, Some 0) \<and>
      dtp_release_session default_hook g1 (Some 0) = Inr (g2, DTP_OK) \<and> csp_closed g2 = [Some 9]"
proof -
  let ?g = "put_session 0 (zero_session\<lparr>conn := Some 9\<rparr>) (initial_globals () :: (unit, unit) dtp_globals)"
  have "pool_inv ?g"
    by (rule pool_inv_update [OF pool_inv_initial, where i = 0 and x = "\<lparr>ss_session = zero_session\<lparr>conn := Some 9\<rparr>, in_use = False\<rparr>"])
      (simp_all add: put_session_def initial_globals_def clean_slot_def zero_session_def DTP_NOF_STATIC_SESSIONS_def)
  moreover have "free_slot (static_sessions ?g) = Some 0" "conn (ss_session (static_sessions ?g ! 0)) = Some 9"
      "csp_closed ?g = []"
    by (simp_all add: put_session_def initial_globals_def DTP_NOF_STATIC_SESSIONS_def eval_nat_numeral)
  moreover have "on_release (zero_hooks :: unit dtp_opt_session_hooks_cfg) = None" by (simp add: zero_hooks_def)
  ultimately show ?thesis
    using stale_connection_closed_again [of ?g 0 "Some 9" zero_hooks default_hook] by (simp add: Let_def) blast
qed

text \<open>
  \<open>dtp_stop_transfer\<close> deactivates the sessions in use that have the given id, or all of them for id 0, and
  changes nothing else of any session.
\<close>

lemma stop_transfer_effect:
  "held (fst (dtp_stop_transfer sid g)) = held g \<and>
   (\<forall>i s. deref g (Some i) = Inr s \<longrightarrow> deref (fst (dtp_stop_transfer sid g)) (Some i) =
      Inr (s\<lparr>active := active s \<and> \<not> (i \<in> held g \<and> (sid = 0 \<or> sid = session_id (request_meta s)))\<rparr>))"
proof -
  have same: "s\<lparr>active := active s\<rparr> = s" for s :: "'c dtp_t" by (cases s) simp
  show ?thesis
    by (auto simp: dtp_stop_transfer_def stop_slot_def held_def deref_def c_bind_eq_Inr c_index_def same split: if_splits)
qed

lemma stop_all: "dtp_is_active (fst (dtp_stop_transfer 0 g)) None = Inr False"
  by (auto simp: dtp_is_active_def dtp_stop_transfer_def stop_slot_def split: if_splits)

end
