(* ===== verification/Poll.thy ===== *)
theory Poll
  imports Dtp_Types
begin

text \<open>
  The polling loop of \<open>src/dtp_os_hal.c\<close>, in both variants the code is compiled to. The callback is a
  function on the state behind its context pointer, which can fail and says whether to carry on. Running
  out of fuel stands for a loop that has not ended. Both variants also return when they polled, and the
  lemmas show that they keep the period they are given.
\<close>

section \<open>POSIX\<close>

text \<open>
  \<open>clock n\<close> is the \<open>n\<close>-th reading of \<open>csp_get_ms\<close>. The second result has an entry for every call of the
  callback: the argument of \<open>usleep\<close> before it, if there was one, and the wake-up time noted.
\<close>

type_synonym poll_trace = "(u32 list \<times> u32) list"

definition poll_sleep :: "u32 \<Rightarrow> u32 \<Rightarrow> u32 \<Rightarrow> u32 list" where
  "poll_sleep poll_period_ms now wakeupTime =
     (let time_since_last = now - wakeupTime in
      if poll_period_ms > time_since_last then [(poll_period_ms - time_since_last) * 1000] else [])"

fun poll_operation :: "nat \<Rightarrow> (nat \<Rightarrow> u32) \<Rightarrow> nat \<Rightarrow> u32 \<Rightarrow> u32 \<Rightarrow> ('s \<Rightarrow> ('s \<times> bool) c_result) \<Rightarrow> 's \<Rightarrow>
    ('s \<times> poll_trace) c_result" where
  "poll_operation 0 clock k wakeupTime period poll s = Inl Diverges"
| "poll_operation (Suc n) clock k wakeupTime period poll s =
     (let sl = poll_sleep period (clock k) wakeupTime; wakeupTime = clock (k + 1) in
      c_bind (poll s) (\<lambda>(s1, carryon).
        if carryon then c_bind (poll_operation n clock (k + 2) wakeupTime period poll s1)
            (\<lambda>(s2, tr). Inr (s2, (sl, wakeupTime) # tr))
        else Inr (s1, [(sl, wakeupTime)])))"

definition os_hal_start_poll_operation :: "nat \<Rightarrow> (nat \<Rightarrow> u32) \<Rightarrow> u32 \<Rightarrow> ('s \<Rightarrow> ('s \<times> bool) c_result) \<Rightarrow> 's \<Rightarrow>
    ('s \<times> poll_trace) c_result" where
  "os_hal_start_poll_operation fuel clock period poll s = poll_operation fuel clock 1 (clock 0) period poll s"

section \<open>FreeRTOS\<close>

text \<open>
  The kernel's \<open>xTaskDelayUntil\<close> is a parameter: from the number of the call, the wake-up time and the
  period in ticks to the new wake-up time and whether the task was delayed. \<open>start\<close> is the first
  \<open>xTaskGetTickCount\<close>, \<open>ticks\<close> the result of \<open>pdMS_TO_TICKS\<close>. The second result are the wake-up times for which
  the callback was called.
\<close>

type_synonym delay_until = "nat \<Rightarrow> u32 \<Rightarrow> u32 \<Rightarrow> u32 \<times> bool"

fun poll_ticks :: "nat \<Rightarrow> delay_until \<Rightarrow> nat \<Rightarrow> u32 \<Rightarrow> u32 \<Rightarrow> ('s \<Rightarrow> ('s \<times> bool) c_result) \<Rightarrow> 's \<Rightarrow> ('s \<times> u32 list) c_result" where
  "poll_ticks 0 xTaskDelayUntil k wakeupTime ticks poll s = Inl Diverges"
| "poll_ticks (Suc n) xTaskDelayUntil k wakeupTime ticks poll s =
     (let (wakeupTime, xWasDelayed) = xTaskDelayUntil k wakeupTime ticks in
      if \<not> xWasDelayed then poll_ticks n xTaskDelayUntil (Suc k) wakeupTime ticks poll s
      else c_bind (poll s) (\<lambda>(s1, carryon).
        if carryon then c_bind (poll_ticks n xTaskDelayUntil (Suc k) wakeupTime ticks poll s1)
            (\<lambda>(s2, ws). Inr (s2, wakeupTime # ws))
        else Inr (s1, [wakeupTime])))"

definition os_hal_start_poll_operation_freertos :: "nat \<Rightarrow> delay_until \<Rightarrow> u32 \<Rightarrow> u32 \<Rightarrow> ('s \<Rightarrow> ('s \<times> bool) c_result) \<Rightarrow> 's \<Rightarrow>
    ('s \<times> u32 list) c_result" where
  "os_hal_start_poll_operation_freertos fuel xTaskDelayUntil start ticks poll s =
     poll_ticks fuel xTaskDelayUntil 0 start ticks poll s"

section \<open>Keeping the period\<close>

text \<open>
  What the loop relies on of the clock and of \<open>usleep\<close>: after a sleep the clock has advanced by at least the time
  asked for, and less than a full cycle of the clock passes between two wake-ups.
\<close>

definition paced :: "(nat \<Rightarrow> u32) \<Rightarrow> u32 \<Rightarrow> bool" where
  "paced clock period \<longleftrightarrow> (\<forall>i.
     (\<forall>us \<in> set (poll_sleep period (clock (2 * i + 1)) (clock (2 * i))).
        unat us \<le> 1000 * unat (clock (2 * i + 2) - clock (2 * i + 1))) \<and>
     unat (clock (2 * i + 1) - clock (2 * i)) + unat (clock (2 * i + 2) - clock (2 * i + 1)) < 4294967296)"

lemma paced_wakeups:
  assumes "paced clock period" and "unat period * 1000 < 4294967296"
  shows "period \<le> clock (2 * i + 2) - clock (2 * i)"
proof -
  define since slept where "since = clock (2 * i + 1) - clock (2 * i)" and "slept = clock (2 * i + 2) - clock (2 * i + 1)"
  have p: "\<forall>us \<in> set (poll_sleep period (clock (2 * i + 1)) (clock (2 * i))). unat us \<le> 1000 * unat slept"
      "unat since + unat slept < 4294967296"
    using assms(1) unfolding paced_def since_def slept_def by blast+
  have sum: "unat (since + slept) = unat since + unat slept" using p(2) by (rule unat_add_u32)
  have "unat period \<le> unat since + unat slept"
  proof (cases "since < period")
    case True
    have d: "unat (period - since) = unat period - unat since" using True by (intro unat_sub_u32) simp
    then have "unat ((period - since) * 1000) = (unat period - unat since) * 1000"
      using assms(2) by (subst unat_mult_u32) (simp_all add: diff_mult_distrib)
    moreover have "unat ((period - since) * 1000) \<le> 1000 * unat slept"
      using p(1) True by (simp add: poll_sleep_def since_def)
    ultimately show ?thesis by linarith
  qed (simp add: word_le_nat_alt not_less)
  moreover have "clock (2 * i + 2) - clock (2 * i) = since + slept" by (simp add: since_def slept_def)
  ultimately show ?thesis using sum by (simp add: word_le_nat_alt)
qed

lemma trace_wakeups:
  "poll_operation n clock (2 * i + 1) w period poll s = Inr (s', tr) \<Longrightarrow>
   map snd tr = map (\<lambda>j. clock (2 * j + 2)) [i..<i + length tr] \<and> tr \<noteq> []"
proof (induction n arbitrary: i w s tr)
  case (Suc n)
  obtain s1 carryon where p: "poll s = Inr (s1, carryon)" using Suc.prems by (auto simp: Let_def c_bind_eq_Inr)
  show ?case
  proof (cases carryon)
    case True
    obtain tr' where t: "poll_operation n clock (2 * Suc i + 1) (clock (2 * i + 2)) period poll s1 = Inr (s', tr')"
        "map snd tr = clock (2 * i + 2) # map snd tr'" "length tr = Suc (length tr')"
      using Suc.prems p True by (auto simp: Let_def c_bind_eq_Inr)
    have "[i..<i + length tr] = i # [Suc i..<Suc i + length tr']" using t(3) by (simp add: upt_conv_Cons del: upt_Suc)
    with Suc.IH [OF t(1)] t(2,3) show ?thesis by auto
  next
    case False
    with Suc.prems p show ?thesis by (auto simp: Let_def)
  qed
qed simp

lemma posix_keeps_period:
  assumes "os_hal_start_poll_operation fuel clock period poll s = Inr (s', tr)" and "paced clock period"
    and "unat period * 1000 < 4294967296" and "Suc i < length tr"
  shows "period \<le> snd (tr ! Suc i) - snd (tr ! i)"
proof -
  have m: "map snd tr = map (\<lambda>j. clock (2 * j + 2)) [0..<length tr]"
    using trace_wakeups [of fuel clock 0 "clock 0" period poll s s' tr] assms(1) by (simp add: os_hal_start_poll_operation_def)
  have "snd (tr ! j) = clock (2 * j + 2)" if "j < length tr" for j
    using arg_cong [OF m, of "\<lambda>xs. xs ! j"] that by simp
  with assms(4) paced_wakeups [OF assms(2,3), of "Suc i"] show ?thesis by simp
qed

text \<open>
  The FreeRTOS variant polls on the grid of its period: the callback is only called for wake-up times the
  task was delayed for, and these are different multiples of the period after the start. The
  kernel adds the period to the wake-up time in every call.
\<close>

lemma freertos_keeps_grid:
  assumes "\<And>k w t. fst (xTaskDelayUntil k w t) = w + t"
  shows "poll_ticks n xTaskDelayUntil k (start + of_nat k * ticks) ticks poll s = Inr (s', ws) \<Longrightarrow>
    \<exists>ks. sorted_wrt (<) ks \<and> ws = map (\<lambda>j. start + of_nat (Suc j) * ticks) ks \<and>
      (\<forall>j \<in> set ks. k \<le> j \<and> snd (xTaskDelayUntil j (start + of_nat j * ticks) ticks))"
proof (induction n arbitrary: k s ws)
  case (Suc n)
  let ?w = "start + of_nat (Suc k) * ticks"
  obtain d where d: "xTaskDelayUntil k (start + of_nat k * ticks) ticks = (?w, d)"
    using assms [of k "start + of_nat k * ticks" ticks] by (cases "xTaskDelayUntil k (start + of_nat k * ticks) ticks") (simp add: algebra_simps)
  show ?case
  proof (cases d)
    case False
    then have "poll_ticks n xTaskDelayUntil (Suc k) ?w ticks poll s = Inr (s', ws)" using Suc.prems d by simp
    from Suc.IH [OF this] obtain ks where "sorted_wrt (<) ks" "ws = map (\<lambda>j. start + of_nat (Suc j) * ticks) ks"
        "\<forall>j \<in> set ks. Suc k \<le> j \<and> snd (xTaskDelayUntil j (start + of_nat j * ticks) ticks)" by blast
    then show ?thesis by (intro exI [of _ ks]) auto
  next
    case True
    obtain s1 carryon where p: "poll s = Inr (s1, carryon)" using Suc.prems d True by (auto simp: c_bind_eq_Inr)
    show ?thesis
    proof (cases carryon)
      case c: True
      obtain ws' where r: "poll_ticks n xTaskDelayUntil (Suc k) ?w ticks poll s1 = Inr (s', ws')" "ws = ?w # ws'"
        using Suc.prems d True p c by (auto simp: c_bind_eq_Inr)
      obtain ks where "sorted_wrt (<) ks" "ws' = map (\<lambda>j. start + of_nat (Suc j) * ticks) ks"
          "\<forall>j \<in> set ks. Suc k \<le> j \<and> snd (xTaskDelayUntil j (start + of_nat j * ticks) ticks)"
        using Suc.IH [OF r(1)] by blast
      with d True r(2) show ?thesis by (intro exI [of _ "k # ks"]) auto
    next
      case False
      with Suc.prems d True p show ?thesis by (intro exI [of _ "[k]"]) auto
    qed
  qed
qed simp

end
