(* ===== verification/Server.thy ===== *)
theory Server
  imports Protocol Poll
begin

text \<open>
  The sending side: \<open>src/dtp_server.c\<close>, polled by the loop of \<open>src/dtp_os_hal.c\<close> (theory Poll, POSIX). What the
  sender meets while it runs - whether a packet buffer is available, what the clock shows, whether
  another task has cleared \<open>keep_running\<close> or noted a sign of life of the client - is a sequence of
  events, one for each iteration of the packet loop; changes by other tasks take effect at the
  beginning of an iteration. The payload's \<open>read\<close> function is an argument: from payload id, offset and
  size to the number of bytes it reports and the contents of the buffer it was given.
\<close>

section \<open>State and environment\<close>

record dtp_server_transfer_t =
  bytes_sent :: u32
  sent_in_interval :: u32
  bytes_in_interval :: u32
  nof_packets_per_round :: u32
  nof_csp_packets :: u32

text \<open>
  \<open>sv_event\<close> is the number of events consumed, \<open>sv_sent\<close> the packets sent (source and destination
  node, packet), first one first, \<open>sv_leaked\<close> the number of buffers neither sent nor freed,
  \<open>sv_completed\<close> the calls of the completion callback.
\<close>

record server =
  sv_ctx :: dtp_server_transfer_ctx_t
  sv_transfer :: dtp_server_transfer_t
  sv_event :: nat
  sv_sent :: "(u16 \<times> u16 \<times> data_packet) list"
  sv_leaked :: nat
  sv_completed :: "(hook \<times> u8 \<times> u32) list"

record event =
  ev_buffer :: bool
  ev_now :: u32
  ev_stop :: bool
  ev_alive :: "u32 option"

type_synonym env = "nat \<Rightarrow> event"
type_synonym get_meta = "dtp_payload_meta_t \<Rightarrow> u8 \<Rightarrow> dtp_payload_meta_t \<times> bool"
type_synonym reader = "u8 \<Rightarrow> u32 \<Rightarrow> u32 \<Rightarrow> u32 \<times> u8 list"

definition other_tasks :: "env \<Rightarrow> server \<Rightarrow> server" where
  "other_tasks env sv = (let e = env (sv_event sv); ctx = sv_ctx sv in
     sv\<lparr>sv_ctx := ctx\<lparr>keep_running := keep_running ctx \<and> \<not> ev_stop e,
         client_alive_ts := (case ev_alive e of Some t \<Rightarrow> t | None \<Rightarrow> client_alive_ts ctx)\<rparr>\<rparr>)"

section \<open>The size of a transfer\<close>

definition size_step :: "dtp_server_transfer_ctx_t \<Rightarrow> u32 \<Rightarrow> nat \<Rightarrow> u32 c_result" where
  "size_step ctx acc i =
     (let chunk_size = chunk32 (mtu (request ctx)) in
      c_bind (c_index (intervals (request ctx)) i) (\<lambda>cur_int.
      Inr (if iv_end cur_int = UINT32_MAX
           then acc + (pm_size (payload_meta ctx) - iv_start cur_int * chunk_size)
           else acc + (iv_end cur_int * chunk_size - iv_start cur_int * chunk_size))))"

definition compute_transfer_size :: "dtp_server_transfer_ctx_t \<Rightarrow> u32 c_result" where
  "compute_transfer_size ctx = fold_c (size_step ctx) 0 [0..<unat (nof_intervals (request ctx))]"

section \<open>Sending\<close>

text \<open>The packet to send next: its length, and the packet count after the choice.\<close>

definition packet_length :: "server \<Rightarrow> u32 \<Rightarrow> u16 \<times> u32" where
  "packet_length sv pkt_cnt =
     (let t = sv_transfer sv; m = mtu (request (sv_ctx sv)); left = bytes_in_interval t - sent_in_interval t in
      if ucast left > chunk64 m then (m, pkt_cnt)
      else (ucast (ucast left + 8 :: u64), nof_packets_per_round t))"

definition client_lost :: "u32 \<Rightarrow> dtp_server_transfer_ctx_t \<Rightarrow> bool" where
  "client_lost now ctx \<longleftrightarrow> 0 < keep_alive_interval (request ctx) \<and>
     now - client_alive_ts ctx > ucast (keep_alive_interval (request ctx)) * 2 + 500"

text \<open>The loop of \<open>dtp_server_poll_loop\<close>.\<close>

fun poll_packets :: "nat \<Rightarrow> reader \<Rightarrow> env \<Rightarrow> u32 \<Rightarrow> server \<Rightarrow> server c_result" where
  "poll_packets 0 rd env pkt_cnt sv0 = Inl Diverges"
| "poll_packets (Suc n) rd env pkt_cnt sv0 =
     (let sv = other_tasks env sv0; e = env (sv_event sv); ctx = sv_ctx sv; t = sv_transfer sv in
      if \<not> (nof_packets_per_round t > pkt_cnt \<and> keep_running ctx) then Inr sv
      else if \<not> ev_buffer e then Inr (sv\<lparr>sv_event := Suc (sv_event sv)\<rparr>)
      else let (len, pkt_cnt) = packet_length sv pkt_cnt;
               (data_read, bytes) = rd (payload_id (request ctx)) (bytes_sent t) (ucast len - 8)
           in if data_read = 0 then Inr (sv\<lparr>sv_event := Suc (sv_event sv), sv_leaked := Suc (sv_leaked sv)\<rparr>)
              else poll_packets n rd env (pkt_cnt + 1)
                (sv\<lparr>sv_event := Suc (sv_event sv),
                    sv_transfer := t\<lparr>bytes_sent := bytes_sent t + data_read,
                      sent_in_interval := sent_in_interval t + data_read,
                      nof_csp_packets := nof_csp_packets t + 1\<rparr>,
                    sv_sent := sv_sent sv @ [(srv_node ctx, dest_port ctx,
                      \<lparr>pk_length = len, pk_offset = bytes_sent t, pk_session = session_id (request ctx),
                       pk_data = bytes\<rparr>)],
                    sv_ctx := (if client_lost (ev_now e) ctx then ctx\<lparr>keep_running := False\<rparr> else ctx)\<rparr>))"

definition dtp_server_poll_loop :: "reader \<Rightarrow> env \<Rightarrow> server \<Rightarrow> (server \<times> bool) c_result" where
  "dtp_server_poll_loop rd env sv0 =
     c_bind (poll_packets (unat (nof_packets_per_round (sv_transfer sv0)) + 2) rd env 0 sv0) (\<lambda>sv.
     let t = sv_transfer sv in
     Inr (sv, sent_in_interval t < bytes_in_interval t \<and> keep_running (sv_ctx sv)))"

text \<open>The bytes an interval stands for, and the interval with its end filled in.\<close>

definition interval_bytes :: "u32 \<Rightarrow> u16 \<Rightarrow> interval_t \<Rightarrow> (u32 \<times> u32 \<times> interval_t) c_result" where
  "interval_bytes psize m iv =
     (let interval_start = ucast (ucast (iv_start iv) * chunk64 m) in
      if iv_end iv \<noteq> UINT32_MAX then
        let stop = ucast (ucast (iv_end iv + 1) * chunk64 m)
        in Inr (interval_start, if stop > psize then psize else stop, iv)
      else
        c_bind (c_mod (ucast psize) (chunk64 m)) (\<lambda>r.
        c_bind (c_div (ucast psize) (chunk64 m)) (\<lambda>q.
        let fixed_end = ucast (if r \<noteq> 0 then q + 1 else q)
        in Inr (interval_start, psize, iv\<lparr>iv_end := fixed_end - 1\<rparr>))))"

definition send_interval :: "nat \<Rightarrow> (nat \<Rightarrow> u32) \<Rightarrow> reader \<Rightarrow> env \<Rightarrow> u32 \<Rightarrow> server \<Rightarrow> nat \<Rightarrow> server c_result" where
  "send_interval fuel clock rd env round_time sv i =
     (let ctx = sv_ctx sv; req = request ctx in
      if \<not> keep_running ctx then Inr sv
      else c_bind (c_index (intervals req) i) (\<lambda>iv.
           c_bind (interval_bytes (pm_size (payload_meta ctx)) (mtu req) iv) (\<lambda>(start, stop, iv').
           c_bind (os_hal_start_poll_operation fuel clock round_time (dtp_server_poll_loop rd env)
             (sv\<lparr>sv_ctx := ctx\<lparr>request := req\<lparr>intervals := (intervals req)[i := iv']\<rparr>\<rparr>,
                 sv_transfer := (sv_transfer sv)\<lparr>sent_in_interval := 0, bytes_sent := start,
                   bytes_in_interval := stop - start\<rparr>\<rparr>)) (\<lambda>(sv', sleeps). Inr sv'))))"

definition start_sending_data :: "nat \<Rightarrow> (nat \<Rightarrow> u32) \<Rightarrow> reader \<Rightarrow> env \<Rightarrow> server \<Rightarrow> (server \<times> dtp_result) c_result" where
  "start_sending_data fuel clock rd env sv =
     (let ctx = sv_ctx sv in
      c_bind (compute_dtp_metrics (request ctx) (pm_size (payload_meta ctx))) (\<lambda>metric.
      c_bind (fold_c (send_interval fuel clock rd env (round_time_ms metric))
        (sv\<lparr>sv_ctx := ctx\<lparr>client_alive_ts := ev_now (env (sv_event sv))\<rparr>,
            sv_transfer := (sv_transfer sv)\<lparr>bytes_sent := 0, nof_csp_packets := 0,
              nof_packets_per_round := packets_per_round metric\<rparr>\<rparr>)
        [0..<unat (nof_intervals (request ctx))]) (\<lambda>sv'.
      Inr (case pm_completed (payload_meta (sv_ctx sv')) of
             Some f \<Rightarrow> sv'\<lparr>sv_completed := sv_completed sv' @
               [(f, payload_id (request (sv_ctx sv')), bytes_sent (sv_transfer sv'))]\<rparr>
           | None \<Rightarrow> sv', DTP_OK))))"

section \<open>Requests\<close>

text \<open>
  \<open>get_meta\<close> is the platform's \<open>get_payload_meta\<close>, which fills in the object it is given and tells
  whether the payload exists; \<open>node\<close> and \<open>dst\<close> are destination and source of the request. The
  last result is the response, without the length of the packet it is in; \<open>None\<close> when the payload is unknown or
  no buffer is left.
\<close>

definition setup_server_transfer ::
  "bool \<Rightarrow> get_meta \<Rightarrow> bool \<Rightarrow> dtp_server_transfer_ctx_t \<Rightarrow> u16 \<Rightarrow> u16 \<Rightarrow> dtp_meta_req_t \<Rightarrow>
   (dtp_server_transfer_ctx_t \<times> dtp_meta_resp_t option) c_result" where
  "setup_server_transfer le get_meta buffer ctx dst node req =
     (let ctx1 = ctx\<lparr>request := req\<lparr>keep_alive_interval := keep_alive_from_wire le (keep_alive_interval req)\<rparr>,
                    srv_node := node, dest_port := dst\<rparr>;
          (pm, found) = get_meta (payload_meta ctx1) (payload_id req);
          ctx2 = ctx1\<lparr>payload_meta := pm\<rparr> in
      if \<not> found then Inr (ctx2, None)
      else c_bind (compute_transfer_size ctx2) (\<lambda>sz.
           let ctx3 = ctx2\<lparr>size_in_bytes := sz\<rparr> in
           Inr (ctx3, if buffer then Some \<lparr>resp_size_in_bytes = sz, resp_total_payload_size = pm_size pm\<rparr> else None)))"

text \<open>
  One turn of \<open>dtp_server_run\<close>: \<open>conn_req\<close> is what \<open>csp_accept\<close> and \<open>csp_read\<close> deliver: nothing, a
  connection that stays silent, or source, destination and request. The second result is the
  response sent, the third whether the connection is closed.
\<close>

datatype incoming = No_Connection | No_Request | Request u16 u16 dtp_meta_req_t

fun server_turn :: "nat \<Rightarrow> (nat \<Rightarrow> u32) \<Rightarrow> bool \<Rightarrow> get_meta \<Rightarrow> (hook \<Rightarrow> reader) \<Rightarrow> env \<Rightarrow>
    bool \<Rightarrow> incoming \<Rightarrow> server \<Rightarrow> (server \<times> dtp_meta_resp_t option \<times> bool) c_result" where
  "server_turn fuel clock le get_meta readers env buffer No_Connection sv = Inr (sv, None, False)"
| "server_turn fuel clock le get_meta readers env buffer No_Request sv = Inr (sv, None, False)"
| "server_turn fuel clock le get_meta readers env buffer (Request src dst req) sv =
     c_bind (setup_server_transfer le get_meta buffer (sv_ctx sv) src dst req) (\<lambda>(ctx, resp).
     let sv1 = sv\<lparr>sv_ctx := ctx\<lparr>keep_running := True\<rparr>\<rparr> in
     c_bind (case resp of None \<Rightarrow> Inr sv1
             | Some r \<Rightarrow> (case pm_read (payload_meta ctx) of
                  None \<Rightarrow> Inl Null_Deref
                | Some f \<Rightarrow> c_bind (start_sending_data fuel clock (readers f) env sv1) (\<lambda>(sv2, _). Inr sv2)))
       (\<lambda>sv2. Inr (sv2\<lparr>sv_ctx := (sv_ctx sv2)\<lparr>keep_running := False\<rparr>\<rparr>, resp, True)))"

text \<open>
  The loop of \<open>dtp_server_run\<close>: the turns it makes before it finds \<open>exit_server\<close> set, each with what arrives and
  whether a buffer for the response is available. The second result are the responses sent.
\<close>

fun dtp_server_run :: "nat \<Rightarrow> (nat \<Rightarrow> u32) \<Rightarrow> bool \<Rightarrow> get_meta \<Rightarrow> (hook \<Rightarrow> reader) \<Rightarrow> env \<Rightarrow> (bool \<times> incoming) list \<Rightarrow>
    server \<Rightarrow> (server \<times> dtp_meta_resp_t list) c_result" where
  "dtp_server_run fuel clock le get_meta readers env [] sv = Inr (sv, [])"
| "dtp_server_run fuel clock le get_meta readers env ((buffer, inc) # turns) sv =
     c_bind (server_turn fuel clock le get_meta readers env buffer inc sv) (\<lambda>(sv1, resp, _).
     c_bind (dtp_server_run fuel clock le get_meta readers env turns sv1) (\<lambda>(sv2, resps).
     Inr (sv2, (case resp of Some r \<Rightarrow> r # resps | None \<Rightarrow> resps))))"

section \<open>Transfers of memory\<close>

record dtp_msg_t =
  msg :: u32
  msg_srv_node :: u16
  msg_dest_port :: u16
  vaddr :: u64
  msg_size :: u32
  msg_meta :: dtp_meta_req_t

text \<open>\<open>read_data\<close> is the \<open>read\<close> member of the asynchronous interface: the bytes at an address.\<close>

definition dtp_payload_vmem_read :: "(u64 \<Rightarrow> u32 \<Rightarrow> u8 list) \<Rightarrow> dtp_msg_t \<Rightarrow> reader" where
  "dtp_payload_vmem_read read_data m pid off sz = (sz, read_data (vaddr m + ucast off) sz)"

text \<open>
  One message of \<open>dtp_vmem_server_run\<close>. \<open>vmem_read_hook\<close> and \<open>transfer_obj\<close> stand for the function
  and the object whose addresses are stored.
\<close>

definition vmem_server_turn :: "nat \<Rightarrow> (nat \<Rightarrow> u32) \<Rightarrow> (u64 \<Rightarrow> u32 \<Rightarrow> u8 list) \<Rightarrow> hook \<Rightarrow> nat \<Rightarrow> env \<Rightarrow>
    dtp_msg_t \<Rightarrow> server \<Rightarrow> server c_result" where
  "vmem_server_turn fuel clock read_data vmem_read_hook transfer_obj env m sv =
     (if msg m = 1 then
        let ctx = sv_ctx sv;
            ctx1 = ctx\<lparr>request := msg_meta m,
              payload_meta := (payload_meta ctx)\<lparr>pm_size := msg_size m, pm_base := vaddr m\<rparr>\<rparr> in
        c_bind (compute_transfer_size ctx1) (\<lambda>sz.
        let ctx2 = ctx1\<lparr>size_in_bytes := sz,
              payload_meta := (payload_meta ctx1)\<lparr>pm_context := Some transfer_obj, pm_read := Some vmem_read_hook,
                pm_completed := None\<rparr>,
              srv_node := msg_srv_node m, dest_port := msg_dest_port m, keep_running := True\<rparr> in
        c_bind (start_sending_data fuel clock (dtp_payload_vmem_read read_data m) env (sv\<lparr>sv_ctx := ctx2\<rparr>)) (\<lambda>(sv', _).
        Inr (sv'\<lparr>sv_ctx := (sv_ctx sv')\<lparr>keep_running := False\<rparr>\<rparr>)))
      else Inr sv)"

text \<open>The messages \<open>dtp_vmem_server_run\<close> takes from its queue, one after the other; the loop itself never ends.\<close>

definition dtp_vmem_server_run :: "nat \<Rightarrow> (nat \<Rightarrow> u32) \<Rightarrow> (u64 \<Rightarrow> u32 \<Rightarrow> u8 list) \<Rightarrow> hook \<Rightarrow> nat \<Rightarrow> env \<Rightarrow>
    dtp_msg_t list \<Rightarrow> server \<Rightarrow> server c_result" where
  "dtp_vmem_server_run fuel clock read_data vmem_read_hook transfer_obj env msgs sv =
     fold_c (\<lambda>sv m. vmem_server_turn fuel clock read_data vmem_read_hook transfer_obj env m sv) sv msgs"

end
