(* ===== verification/Server_Correct.thy ===== *)
theory Server_Correct
  imports Server
begin

text \<open>
  What the sender sends. The specification cuts a range of bytes of the payload into packets; the
  interface to the payload is a locale (a reader that delivers what it is asked for inside the
  payload), and inside it the packet loop, the polling operation and the whole transfer are shown to
  end and to send exactly the specified packets. The locale is interpreted on the memory reader of
  the server.
\<close>

section \<open>Specification\<close>

function spec_packets :: "nat \<Rightarrow> u32 \<Rightarrow> u8 list \<Rightarrow> nat \<Rightarrow> nat \<Rightarrow> data_packet list" where
  "spec_packets c sid content lo hi =
     (if c = 0 \<or> hi \<le> lo then []
      else \<lparr>pk_length = of_nat (min c (hi - lo) + 8), pk_offset = of_nat lo, pk_session = sid,
            pk_data = take (min c (hi - lo)) (drop lo content)\<rparr>
           # spec_packets c sid content (lo + min c (hi - lo)) hi)"
  by pat_completeness auto
termination by (relation "measure (\<lambda>(c, sid, content, lo, hi). hi - lo)") auto

declare spec_packets.simps [simp del]
declare poll_packets.simps(2) [simp del]

lemmas poll_packets_Suc = poll_packets.simps(2)

lemma spec_packets_empty [simp]: "spec_packets c sid content hi hi = []"
  by (simp add: spec_packets.simps)

definition chunk :: "dtp_meta_req_t \<Rightarrow> nat" where
  "chunk req = unat (mtu req) - 8"

text \<open>The byte range of an interval of packet numbers.\<close>

definition range_lo :: "dtp_meta_req_t \<Rightarrow> interval_t \<Rightarrow> nat" where
  "range_lo req iv = unat (iv_start iv) * chunk req"

definition range_hi :: "dtp_meta_req_t \<Rightarrow> nat \<Rightarrow> interval_t \<Rightarrow> nat" where
  "range_hi req psize iv = (if iv_end iv = UINT32_MAX then psize else min psize (Suc (unat (iv_end iv)) * chunk req))"

definition iv_ok :: "dtp_meta_req_t \<Rightarrow> nat \<Rightarrow> interval_t \<Rightarrow> bool" where
  "iv_ok req psize iv \<longleftrightarrow> range_lo req iv \<le> range_hi req psize iv \<and>
     (iv_end iv \<noteq> UINT32_MAX \<longrightarrow> Suc (unat (iv_end iv)) * chunk req < 2 ^ 32)"

definition requested_ivs :: "dtp_meta_req_t \<Rightarrow> interval_t list" where
  "requested_ivs req = take (unat (nof_intervals req)) (intervals req)"

text \<open>
  An environment in which a transfer is not disturbed: buffers are available, nobody stops the
  transfer, and a client that announced keep-alive messages sends them.
\<close>

definition steady :: "env \<Rightarrow> dtp_meta_req_t \<Rightarrow> bool" where
  "steady env req \<longleftrightarrow> (\<forall>k. ev_buffer (env k) \<and> \<not> ev_stop (env k) \<and>
     (0 < keep_alive_interval req \<longrightarrow> ev_alive (env k) = Some (ev_now (env k))))"

definition tag :: "server \<Rightarrow> data_packet \<Rightarrow> u16 \<times> u16 \<times> data_packet" where
  "tag sv p = (srv_node (sv_ctx sv), dest_port (sv_ctx sv), p)"

text \<open>What a run of the packet loop leaves alone.\<close>

definition same_job :: "server \<Rightarrow> server \<Rightarrow> bool" where
  "same_job sv sv' \<longleftrightarrow> request (sv_ctx sv') = request (sv_ctx sv) \<and> srv_node (sv_ctx sv') = srv_node (sv_ctx sv) \<and>
     dest_port (sv_ctx sv') = dest_port (sv_ctx sv) \<and> payload_meta (sv_ctx sv') = payload_meta (sv_ctx sv) \<and>
     nof_packets_per_round (sv_transfer sv') = nof_packets_per_round (sv_transfer sv) \<and>
     sv_completed sv' = sv_completed sv"

lemma same_job_trans: "same_job a b \<Longrightarrow> same_job b c \<Longrightarrow> same_job a c"
  by (simp add: same_job_def)

lemma tag_same_job: "same_job a b \<Longrightarrow> tag b = tag a"
  by (auto simp: same_job_def tag_def)

text \<open>The sender stands at byte \<open>lo\<close> of a range that ends at \<open>hi\<close>.\<close>

definition sending :: "nat \<Rightarrow> u8 \<Rightarrow> server \<Rightarrow> nat \<Rightarrow> nat \<Rightarrow> bool" where
  "sending len pid sv lo hi \<longleftrightarrow> (let t = sv_transfer sv; ctx = sv_ctx sv in
     unat (bytes_sent t) = lo \<and> lo \<le> hi \<and> hi \<le> len \<and> sent_in_interval t \<le> bytes_in_interval t \<and>
     unat (bytes_in_interval t) - unat (sent_in_interval t) = hi - lo \<and>
     keep_running ctx \<and> payload_id (request ctx) = pid \<and> 8 < mtu (request ctx))"

lemma sending_done: "sending len pid sv lo hi \<Longrightarrow> sent_in_interval (sv_transfer sv) < bytes_in_interval (sv_transfer sv) \<longleftrightarrow> lo < hi"
  by (auto simp: sending_def Let_def u32_nat)

section \<open>One packet\<close>

lemma other_tasks_steady:
  assumes "steady env (request (sv_ctx sv))"
  shows "sending len pid (other_tasks env sv) lo hi = sending len pid sv lo hi"
    and "same_job sv (other_tasks env sv)" and "sv_sent (other_tasks env sv) = sv_sent sv"
    and "sv_event (other_tasks env sv) = sv_event sv" and "sv_transfer (other_tasks env sv) = sv_transfer sv"
    and "\<not> client_lost (ev_now (env (sv_event sv))) (sv_ctx (other_tasks env sv))"
  using assms by (auto simp: steady_def other_tasks_def Let_def sending_def same_job_def client_lost_def)

lemma advance:
  "s \<le> b \<Longrightarrow> b - s = hi - lo \<Longrightarrow> lo + k \<le> hi \<Longrightarrow> b - (s + k) = hi - (lo + k) \<and> s + k \<le> b"
  for s b lo hi k :: nat
  by linarith

lemma of_nat_unat_ucast: "of_nat (unat w) = (ucast w :: u16)" for w :: u64
  by simp

lemma packet_length_sending:
  assumes "sending len pid sv lo hi" and "len < 2 ^ 32"
  shows "\<exists>l cnt'. packet_length sv cnt = (l, cnt') \<and> l = of_nat (min (chunk (request (sv_ctx sv))) (hi - lo) + 8) \<and>
    unat (ucast l - 8 :: u32) = min (chunk (request (sv_ctx sv))) (hi - lo) \<and>
    (cnt' = cnt \<or> hi - lo \<le> chunk (request (sv_ctx sv)))"
proof -
  let ?t = "sv_transfer sv" and ?m = "mtu (request (sv_ctx sv))" and ?c = "chunk (request (sv_ctx sv))"
  let ?left = "bytes_in_interval ?t - sent_in_interval ?t"
  have m: "8 < unat ?m" "unat ?m < 65536" "?c = unat ?m - 8" "unat (chunk64 ?m) = ?c"
    using assms(1) unat_lt_u16 [of ?m] unat_chunk64 [of ?m]
    by (simp_all add: sending_def Let_def word_less_nat_alt chunk_def word_le_nat_alt)
  have left: "unat ?left = hi - lo"
    using assms(1) by (simp add: sending_def Let_def unat_sub_u32)
  have big: "ucast ?left > chunk64 ?m \<longleftrightarrow> ?c < hi - lo"
    by (simp add: word_less_nat_alt m(4) left)
  have fit: "unat (of_nat (k + 8) :: u16) = k + 8" if "k \<le> ?c" for k
    by (rule unat_of_nat_u16) (use that m in linarith)
  then have sub: "unat (ucast (of_nat (k + 8) :: u16) - 8 :: u32) = k" if "k \<le> ?c" for k
    using that by (subst unat_sub_u32) (simp_all add: word_le_nat_alt fit del: of_nat_add)
  show ?thesis
  proof (cases "?c < hi - lo")
    case True
    then have "packet_length sv cnt = (?m, cnt)" using big by (simp add: packet_length_def Let_def)
    moreover have "?m = of_nat (?c + 8)" using m by (simp add: word_unat_eq_iff fit del: of_nat_add)
    ultimately show ?thesis using True sub [of ?c] by simp
  next
    case False
    have "unat (ucast ?left + 8 :: u64) = hi - lo + 8"
      using False m by (subst unat_add_lem [THEN iffD1]) (simp_all add: left)
    then have "(ucast (ucast ?left + 8 :: u64) :: u16) = of_nat (hi - lo + 8)"
      using of_nat_unat_ucast [of "ucast ?left + 8 :: u64"] by simp
    with False big have "packet_length sv cnt = (of_nat (hi - lo + 8), nof_packets_per_round ?t)"
      by (simp add: packet_length_def Let_def)
    then show ?thesis using False sub [of "hi - lo"] by simp
  qed
qed

section \<open>Byte ranges of intervals\<close>

lemma range_hi_le: "range_hi req psize iv \<le> psize"
  by (simp add: range_hi_def)

lemma interval_bytes_ok:
  assumes "8 < mtu req" and "iv_ok req (unat psize) iv"
  shows "\<exists>start stop iv'. interval_bytes psize (mtu req) iv = Inr (start, stop, iv') \<and>
    unat start = range_lo req iv \<and> unat stop = range_hi req (unat psize) iv"
proof -
  have "unat (iv_start iv) * (unat (mtu req) - 8) < 4294967296"
    using assms(2) range_hi_le [of req "unat psize" iv] unat_lt_u32 [of psize]
    by (simp add: iv_ok_def range_lo_def chunk_def)
  note lo = unat_scaled [OF assms(1) this]
  show ?thesis
  proof (cases "iv_end iv = UINT32_MAX")
    case True
    with lo chunk64_nonzero [OF assms(1)] show ?thesis
      by (simp add: interval_bytes_def Let_def range_lo_def range_hi_def chunk_def)
  next
    case False
    then have e: "unat (iv_end iv + 1) = Suc (unat (iv_end iv))" by (rule unat_add1_u32)
    with False assms(2) have "unat (iv_end iv + 1) * (unat (mtu req) - 8) < 4294967296"
      by (simp add: iv_ok_def chunk_def)
    from unat_scaled [OF assms(1) this] False lo show ?thesis
      by (simp add: interval_bytes_def Let_def range_lo_def range_hi_def chunk_def word_less_nat_alt e min_def)
  qed
qed

text \<open>
  The request while its intervals are worked off: only entries before \<open>i\<close> may have been completed.
\<close>

definition agrees :: "nat \<Rightarrow> dtp_meta_req_t \<Rightarrow> dtp_meta_req_t \<Rightarrow> bool" where
  "agrees i req r \<longleftrightarrow> r\<lparr>intervals := intervals req\<rparr> = req \<and> length (intervals r) = length (intervals req) \<and>
     (\<forall>j. i \<le> j \<and> j < length (intervals req) \<longrightarrow> intervals r ! j = intervals req ! j)"

lemma agrees_fields:
  assumes "agrees i req r"
  shows "mtu r = mtu req" "session_id r = session_id req" "payload_id r = payload_id req"
    "keep_alive_interval r = keep_alive_interval req" "chunk r = chunk req" "steady env r = steady env req"
proof -
  have r: "r\<lparr>intervals := intervals req\<rparr> = req" using assms by (simp add: agrees_def)
  show "mtu r = mtu req" by (subst r [symmetric]) simp
  then show "chunk r = chunk req" by (simp add: chunk_def)
  show "session_id r = session_id req" "payload_id r = payload_id req" by (subst r [symmetric], simp)+
  show k: "keep_alive_interval r = keep_alive_interval req" by (subst r [symmetric]) simp
  then show "steady env r = steady env req" by (simp add: steady_def)
qed

lemma agrees_next: "agrees i req r \<Longrightarrow> agrees (Suc i) req (r\<lparr>intervals := (intervals r)[i := iv]\<rparr>)"
  by (auto simp: agrees_def)

definition same_route :: "server \<Rightarrow> server \<Rightarrow> bool" where
  "same_route sv sv' \<longleftrightarrow> srv_node (sv_ctx sv') = srv_node (sv_ctx sv) \<and> dest_port (sv_ctx sv') = dest_port (sv_ctx sv) \<and>
     payload_meta (sv_ctx sv') = payload_meta (sv_ctx sv) \<and> sv_completed sv' = sv_completed sv"

lemma tag_same_route: "same_route a b \<Longrightarrow> tag b = tag a"
  by (auto simp: same_route_def tag_def)

text \<open>Ready to send interval \<open>i\<close> of a request, from a payload of \<open>len\<close> bytes.\<close>

definition ready :: "nat \<Rightarrow> dtp_meta_req_t \<Rightarrow> nat \<Rightarrow> server \<Rightarrow> bool" where
  "ready len req i sv \<longleftrightarrow> agrees i req (request (sv_ctx sv)) \<and> keep_running (sv_ctx sv) \<and>
     unat (pm_size (payload_meta (sv_ctx sv))) = len \<and> 0 < nof_packets_per_round (sv_transfer sv)"

section \<open>Transfers from a payload\<close>

locale payload_source =
  fixes rd :: reader and pid :: u8 and content :: "u8 list"
  assumes content_size: "length content < 2 ^ 32"
    and reads: "unat off + unat n \<le> length content \<Longrightarrow>
      rd pid off n = (n, take (unat n) (drop (unat off) content))"
begin

abbreviation standing :: "server \<Rightarrow> nat \<Rightarrow> nat \<Rightarrow> bool" where
  "standing \<equiv> sending (length content) pid"

abbreviation pkts :: "dtp_meta_req_t \<Rightarrow> nat \<Rightarrow> nat \<Rightarrow> data_packet list" where
  "pkts req \<equiv> spec_packets (chunk req) (session_id req) content"

lemma standing_le: "standing sv lo hi \<Longrightarrow> lo \<le> hi"
  by (simp add: sending_def Let_def)

lemma poll_packets_nothing_left:
  assumes "standing sv hi hi" and "steady env (request (sv_ctx sv))"
  shows "\<exists>sv'. poll_packets (Suc n) rd env cnt sv = Inr sv' \<and> standing sv' hi hi \<and> same_job sv sv' \<and> sv_sent sv' = sv_sent sv"
proof -
  let ?sv = "other_tasks env sv"
  note ot = other_tasks_steady [OF assms(2)]
  have at: "standing ?sv hi hi" using assms(1) by (simp add: ot(1))
  show ?thesis
  proof (cases "nof_packets_per_round (sv_transfer sv) > cnt")
    case False
    then have "poll_packets (Suc n) rd env cnt sv = Inr ?sv" by (simp add: poll_packets_Suc Let_def ot(5))
    with at ot(2,3) show ?thesis by blast
  next
    case True
    obtain l cnt' where l: "packet_length ?sv cnt = (l, cnt')" "unat (ucast l - 8 :: u32) = 0"
      using packet_length_sending [OF at content_size, of cnt] by auto
    then have l0: "ucast l - 8 = (0 :: u32)" by (simp add: word_unat_eq_iff)
    have "payload_id (request (sv_ctx ?sv)) = pid" "unat (bytes_sent (sv_transfer ?sv)) \<le> length content"
      using at by (simp_all add: sending_def Let_def)
    then have "rd (payload_id (request (sv_ctx ?sv))) (bytes_sent (sv_transfer ?sv)) 0 = (0, [])"
      using reads [of "bytes_sent (sv_transfer ?sv)" 0] by simp
    moreover have "ev_buffer (env (sv_event ?sv))" "keep_running (sv_ctx ?sv)"
      using assms(2) at by (simp_all add: steady_def sending_def Let_def)
    ultimately have "poll_packets (Suc n) rd env cnt sv =
        Inr (?sv\<lparr>sv_event := Suc (sv_event ?sv), sv_leaked := Suc (sv_leaked ?sv)\<rparr>)"
      using True l l0 by (simp add: poll_packets_Suc Let_def ot(5))
    with at ot(2,3) show ?thesis by (auto simp: sending_def same_job_def Let_def)
  qed
qed

lemma poll_packets_one:
  assumes "standing sv lo hi" and "lo < hi" and "steady env (request (sv_ctx sv))"
    and "cnt < nof_packets_per_round (sv_transfer sv)"
  shows "\<exists>sv' cnt' k. poll_packets (Suc n) rd env cnt sv = poll_packets n rd env cnt' sv' \<and> standing sv' (lo + k) hi \<and>
    0 < k \<and> same_job sv sv' \<and> (cnt' = cnt + 1 \<or> lo + k = hi) \<and>
    sv_sent sv' @ map (tag sv) (pkts (request (sv_ctx sv)) (lo + k) hi) =
    sv_sent sv @ map (tag sv) (pkts (request (sv_ctx sv)) lo hi)"
proof -
  let ?sv = "other_tasks env sv" and ?req = "request (sv_ctx sv)"
  let ?k = "min (chunk ?req) (hi - lo)"
  note ot = other_tasks_steady [OF assms(3)]
  have at: "standing ?sv lo hi" using assms(1) by (simp add: ot(1))
  have req: "request (sv_ctx ?sv) = ?req" "srv_node (sv_ctx ?sv) = srv_node (sv_ctx sv)"
      "dest_port (sv_ctx ?sv) = dest_port (sv_ctx sv)"
    using ot(2) by (simp_all add: same_job_def)
  have c: "0 < chunk ?req" "0 < ?k" using at assms(2) req by (simp_all add: sending_def Let_def chunk_def word_less_nat_alt)
  obtain l cnt' where l: "packet_length ?sv cnt = (l, cnt')" "l = of_nat (?k + 8)"
      "unat (ucast l - 8 :: u32) = ?k" "cnt' = cnt \<or> hi - lo \<le> chunk ?req"
    using packet_length_sending [OF at content_size, of cnt] req by auto
  let ?n = "ucast l - 8 :: u32" and ?t = "sv_transfer sv"
  have off: "unat (bytes_sent ?t) = lo" "hi \<le> length content" "payload_id ?req = pid" "keep_running (sv_ctx ?sv)"
      "sent_in_interval ?t \<le> bytes_in_interval ?t"
      "unat (bytes_in_interval ?t) - unat (sent_in_interval ?t) = hi - lo" "8 < mtu ?req"
    using at req ot(5) by (simp_all add: sending_def Let_def)
  then have rd: "rd pid (bytes_sent ?t) ?n = (?n, take ?k (drop lo content))"
    using reads [of "bytes_sent ?t" ?n] l(3) assms(2) by simp
  have n0: "?n \<noteq> 0" using c(2) l(3) by auto
  define sv' where "sv' = ?sv\<lparr>sv_event := Suc (sv_event ?sv),
      sv_transfer := ?t\<lparr>bytes_sent := bytes_sent ?t + ?n, sent_in_interval := sent_in_interval ?t + ?n,
        nof_csp_packets := nof_csp_packets ?t + 1\<rparr>,
      sv_sent := sv_sent ?sv @ [(srv_node (sv_ctx sv), dest_port (sv_ctx sv),
        \<lparr>pk_length = l, pk_offset = bytes_sent ?t, pk_session = session_id ?req, pk_data = take ?k (drop lo content)\<rparr>)],
      sv_ctx := sv_ctx ?sv\<rparr>"
  have "ev_buffer (env (sv_event ?sv))" using assms(3) by (simp add: steady_def)
  then have step: "poll_packets (Suc n) rd env cnt sv = poll_packets n rd env (cnt' + 1) sv'"
    using assms(4) off n0 rd l(1) ot(6) by (simp add: poll_packets_Suc Let_def ot(4,5) req sv'_def)
  have le: "lo + ?k \<le> hi" using assms(2) by simp
  then have sum: "unat (bytes_sent ?t + ?n) = lo + ?k"
    using off(1,2) l(3) content_size by (subst unat_add_u32) auto
  have sent: "unat (sent_in_interval ?t + ?n) = unat (sent_in_interval ?t) + ?k"
    using off(5,6) l(3) unat_lt_u32 [of "bytes_in_interval ?t"] assms(2)
    by (subst unat_add_u32) (auto simp: word_le_nat_alt)
  have "unat (bytes_in_interval ?t) - (unat (sent_in_interval ?t) + ?k) = hi - (lo + ?k)"
      "unat (sent_in_interval ?t) + ?k \<le> unat (bytes_in_interval ?t)"
    using advance [OF _ off(6) le] off(5) by (simp_all add: word_le_nat_alt)
  then have "standing sv' (lo + ?k) hi"
    using off sum sent le by (simp add: sending_def Let_def sv'_def word_le_nat_alt req)
  moreover have "same_job sv sv'" using ot(2) by (simp add: same_job_def sv'_def ot(5))
  moreover have "of_nat lo = bytes_sent ?t" using off(1) by auto
  then have "sv_sent sv' @ map (tag sv) (pkts ?req (lo + ?k) hi) = sv_sent sv @ map (tag sv) (pkts ?req lo hi)"
    using c assms(2) l(2) by (simp add: spec_packets.simps [of "chunk ?req" _ _ lo] sv'_def ot(3) tag_def)
  moreover have "cnt' + 1 = cnt + 1 \<or> lo + ?k = hi" using l(4) assms(2) by auto
  ultimately show ?thesis using step c(2) by blast
qed

lemma poll_packets_progress:
  "standing sv lo hi \<Longrightarrow> steady env (request (sv_ctx sv)) \<Longrightarrow>
   unat (nof_packets_per_round (sv_transfer sv)) - unat cnt + 2 \<le> n \<Longrightarrow>
   \<exists>sv' lo'. poll_packets n rd env cnt sv = Inr sv' \<and> standing sv' lo' hi \<and> lo \<le> lo' \<and> same_job sv sv' \<and>
     (lo < hi \<and> cnt < nof_packets_per_round (sv_transfer sv) \<longrightarrow> lo < lo') \<and>
     sv_sent sv' @ map (tag sv) (pkts (request (sv_ctx sv)) lo' hi) =
     sv_sent sv @ map (tag sv) (pkts (request (sv_ctx sv)) lo hi)"
proof (induction n arbitrary: sv lo cnt)
  case (Suc n)
  let ?ppr = "nof_packets_per_round (sv_transfer sv)" and ?req = "request (sv_ctx sv)"
  consider "lo = hi" | "lo < hi" "\<not> cnt < ?ppr" | "lo < hi" "cnt < ?ppr"
    using standing_le [OF Suc.prems(1)] by (cases "lo = hi"; cases "cnt < ?ppr") auto
  then show ?case
  proof cases
    case 1
    with poll_packets_nothing_left [of sv hi env n cnt] Suc.prems obtain sv' where
        "poll_packets (Suc n) rd env cnt sv = Inr sv'" "standing sv' hi hi" "same_job sv sv'" "sv_sent sv' = sv_sent sv"
      by blast
    with 1 show ?thesis by (intro exI [of _ sv'] exI [of _ hi]) simp
  next
    case 2
    then have "poll_packets (Suc n) rd env cnt sv = Inr (other_tasks env sv)"
      using other_tasks_steady(5) [OF Suc.prems(2)] by (simp add: poll_packets_Suc Let_def)
    with 2 other_tasks_steady(1-3) [OF Suc.prems(2)] Suc.prems(1) show ?thesis by auto
  next
    case 3
    obtain sv1 cnt1 k where s: "poll_packets (Suc n) rd env cnt sv = poll_packets n rd env cnt1 sv1"
        "standing sv1 (lo + k) hi" "0 < k" "same_job sv sv1" "cnt1 = cnt + 1 \<or> lo + k = hi"
        "sv_sent sv1 @ map (tag sv) (pkts ?req (lo + k) hi) = sv_sent sv @ map (tag sv) (pkts ?req lo hi)"
      using poll_packets_one [OF Suc.prems(1) 3(1) Suc.prems(2) 3(2), of n] by blast
    have j: "request (sv_ctx sv1) = ?req" "nof_packets_per_round (sv_transfer sv1) = ?ppr" "tag sv1 = tag sv"
      using s(4) by (simp_all add: same_job_def tag_same_job [OF s(4)])
    have "\<exists>sv' lo'. poll_packets n rd env cnt1 sv1 = Inr sv' \<and> standing sv' lo' hi \<and> lo + k \<le> lo' \<and> same_job sv1 sv' \<and>
        sv_sent sv' @ map (tag sv) (pkts ?req lo' hi) = sv_sent sv1 @ map (tag sv) (pkts ?req (lo + k) hi)"
    proof (cases "lo + k = hi")
      case True
      obtain n' where "n = Suc n'" using Suc.prems(3) by (cases n) auto
      moreover have "standing sv1 hi hi" "steady env (request (sv_ctx sv1))" using True s(2) Suc.prems(2) j(1) by simp_all
      ultimately obtain sv' where
          "poll_packets n rd env cnt1 sv1 = Inr sv'" "standing sv' hi hi" "same_job sv1 sv'" "sv_sent sv' = sv_sent sv1"
        using poll_packets_nothing_left [of sv1 hi env n' cnt1] by blast
      with True show ?thesis by (intro exI [of _ sv'] exI [of _ hi]) simp
    next
      case False
      have "cnt \<noteq> UINT32_MAX" using 3(2) by (rule u32_less_not_max)
      with False have "unat cnt1 = Suc (unat cnt)" using s(5) by (simp add: unat_add1_u32)
      then have "unat ?ppr - unat cnt1 + 2 \<le> n" using Suc.prems(3) 3(2) by (simp add: word_less_nat_alt)
      then show ?thesis using Suc.IH [of sv1 "lo + k" cnt1] s(2) Suc.prems(2) j by auto
    qed
    then obtain sv' lo' where "poll_packets n rd env cnt1 sv1 = Inr sv'" "standing sv' lo' hi" "lo + k \<le> lo'" "same_job sv1 sv'"
        "sv_sent sv' @ map (tag sv) (pkts ?req lo' hi) = sv_sent sv1 @ map (tag sv) (pkts ?req (lo + k) hi)" by blast
    then show ?thesis using s same_job_trans by (intro exI [of _ sv'] exI [of _ lo']) auto
  qed
qed simp

lemma poll_loop_progress:
  assumes "standing sv lo hi" and "steady env (request (sv_ctx sv))" and "0 < nof_packets_per_round (sv_transfer sv)"
  shows "\<exists>sv' lo'. dtp_server_poll_loop rd env sv = Inr (sv', lo' < hi) \<and> standing sv' lo' hi \<and>
     lo \<le> lo' \<and> (lo < hi \<longrightarrow> lo < lo') \<and> same_job sv sv' \<and>
     sv_sent sv' @ map (tag sv) (pkts (request (sv_ctx sv)) lo' hi) =
     sv_sent sv @ map (tag sv) (pkts (request (sv_ctx sv)) lo hi)"
proof -
  obtain sv' lo' where p: "poll_packets (unat (nof_packets_per_round (sv_transfer sv)) + 2) rd env 0 sv = Inr sv'"
      "standing sv' lo' hi" "same_job sv sv'" "lo < hi \<longrightarrow> lo < lo'" "lo \<le> lo'"
      "sv_sent sv' @ map (tag sv) (pkts (request (sv_ctx sv)) lo' hi) =
       sv_sent sv @ map (tag sv) (pkts (request (sv_ctx sv)) lo hi)"
    using poll_packets_progress [OF assms(1,2), of 0 "unat (nof_packets_per_round (sv_transfer sv)) + 2"] assms(3) by auto
  moreover have "keep_running (sv_ctx sv')" using p(2) by (simp add: sending_def Let_def)
  ultimately have "dtp_server_poll_loop rd env sv = Inr (sv', lo' < hi)"
    using sending_done [OF p(2)] by (simp add: dtp_server_poll_loop_def Let_def)
  with p show ?thesis by blast
qed

lemma poll_operation_completes:
  "standing sv lo hi \<Longrightarrow> steady env (request (sv_ctx sv)) \<Longrightarrow> 0 < nof_packets_per_round (sv_transfer sv) \<Longrightarrow>
   hi - lo < fuel \<Longrightarrow>
   \<exists>sv' sl. poll_operation fuel clock k w period (dtp_server_poll_loop rd env) sv = Inr (sv', sl) \<and>
     standing sv' hi hi \<and> same_job sv sv' \<and>
     sv_sent sv' = sv_sent sv @ map (tag sv) (pkts (request (sv_ctx sv)) lo hi)"
proof (induction fuel arbitrary: sv lo k w)
  case (Suc fuel)
  let ?req = "request (sv_ctx sv)"
  obtain sv1 lo1 where p: "dtp_server_poll_loop rd env sv = Inr (sv1, lo1 < hi)" "standing sv1 lo1 hi"
      "lo \<le> lo1 \<and> (lo < hi \<longrightarrow> lo < lo1)" "same_job sv sv1"
      "sv_sent sv1 @ map (tag sv) (pkts ?req lo1 hi) = sv_sent sv @ map (tag sv) (pkts ?req lo hi)"
    using poll_loop_progress [OF Suc.prems(1-3)] by blast
  show ?case
  proof (cases "lo1 < hi")
    case False
    then have "lo1 = hi" using standing_le [OF p(2)] by simp
    with p show ?thesis by simp
  next
    case True
    have j: "request (sv_ctx sv1) = ?req" "nof_packets_per_round (sv_transfer sv1) = nof_packets_per_round (sv_transfer sv)"
        "tag sv1 = tag sv"
      using p(4) by (simp_all add: same_job_def tag_same_job [OF p(4)])
    have "lo \<le> hi" using Suc.prems(1) by (rule standing_le)
    then have "hi - lo1 < fuel" using True p(3) Suc.prems(4) by (cases "lo = hi") auto
    then obtain sv' sl where "poll_operation fuel clock (k + 2) (clock (k + 1)) period (dtp_server_poll_loop rd env) sv1 = Inr (sv', sl)"
        "standing sv' hi hi" "same_job sv1 sv'" "sv_sent sv' = sv_sent sv1 @ map (tag sv) (pkts ?req lo1 hi)"
      using Suc.IH [OF p(2), of "k + 2" "clock (k + 1)"] Suc.prems(2,3) j by auto
    with p True same_job_trans [OF p(4)] show ?thesis by (auto simp: Let_def)
  qed
qed simp

lemma send_interval_ok:
  assumes "ready (length content) req i sv" and "payload_id req = pid" and "8 < mtu req"
    and "i < length (intervals req)" and "iv_ok req (length content) (intervals req ! i)"
    and "steady env req" and "length content < fuel"
  shows "\<exists>sv'. send_interval fuel clock rd env rt sv i = Inr sv' \<and> ready (length content) req (Suc i) sv' \<and>
    same_route sv sv' \<and> unat (bytes_sent (sv_transfer sv')) = range_hi req (length content) (intervals req ! i) \<and>
    sv_sent sv' = sv_sent sv @ map (tag sv) (pkts req (range_lo req (intervals req ! i))
      (range_hi req (length content) (intervals req ! i)))"
proof -
  let ?iv = "intervals req ! i" and ?ctx = "sv_ctx sv" and ?r = "request (sv_ctx sv)"
  have rdy: "agrees i req ?r" "keep_running ?ctx" "unat (pm_size (payload_meta ?ctx)) = length content"
      "0 < nof_packets_per_round (sv_transfer sv)" using assms(1) by (simp_all add: ready_def)
  have iv: "c_index (intervals ?r) i = Inr ?iv" using rdy(1) assms(4) by (simp add: agrees_def)
  obtain start stop iv' where b: "interval_bytes (pm_size (payload_meta ?ctx)) (mtu req) ?iv = Inr (start, stop, iv')"
      "unat start = range_lo req ?iv" "unat stop = range_hi req (length content) ?iv"
    using interval_bytes_ok [OF assms(3), of "pm_size (payload_meta ?ctx)" ?iv] assms(5) rdy(3) by auto
  have le: "start \<le> stop" using b assms(5) by (simp add: word_le_nat_alt iv_ok_def)
  define sv1 where "sv1 = sv\<lparr>sv_ctx := ?ctx\<lparr>request := ?r\<lparr>intervals := (intervals ?r)[i := iv']\<rparr>\<rparr>,
      sv_transfer := (sv_transfer sv)\<lparr>sent_in_interval := 0, bytes_sent := start, bytes_in_interval := stop - start\<rparr>\<rparr>"
  have ag: "agrees (Suc i) req (request (sv_ctx sv1))" using agrees_next [OF rdy(1)] by (simp add: sv1_def)
  note f = agrees_fields [OF ag] agrees_fields [OF rdy(1)]
  have st: "standing sv1 (range_lo req ?iv) (range_hi req (length content) ?iv)"
    using b(2,3) le rdy(2) range_hi_le [of req "length content" ?iv] assms(2,3,5) f
    by (simp add: sending_def Let_def sv1_def unat_sub_u32 iv_ok_def)
  moreover have "steady env (request (sv_ctx sv1))" "0 < nof_packets_per_round (sv_transfer sv1)"
      "range_hi req (length content) ?iv - range_lo req ?iv < fuel"
    using assms(6,7) rdy(4) range_hi_le [of req "length content" ?iv] f by (simp_all add: sv1_def)
  ultimately obtain sv' sl where p: "os_hal_start_poll_operation fuel clock rt (dtp_server_poll_loop rd env) sv1 = Inr (sv', sl)"
      "standing sv' (range_hi req (length content) ?iv) (range_hi req (length content) ?iv)" "same_job sv1 sv'"
      "sv_sent sv' = sv_sent sv1 @ map (tag sv1) (pkts req (range_lo req ?iv) (range_hi req (length content) ?iv))"
    using poll_operation_completes [of sv1 _ _ env fuel clock 1 "clock 0" rt] f
    unfolding os_hal_start_poll_operation_def by metis
  have "send_interval fuel clock rd env rt sv i = Inr sv'"
    using rdy(2) iv b(1) p(1) f by (simp add: send_interval_def Let_def sv1_def)
  moreover have "ready (length content) req (Suc i) sv'"
    using p(2,3) ag rdy(3,4) by (simp add: ready_def same_job_def sending_def Let_def sv1_def)
  moreover have "same_route sv sv'" using p(3) by (simp add: same_job_def same_route_def sv1_def)
  moreover have "tag sv1 = tag sv" "sv_sent sv1 = sv_sent sv" by (auto simp: sv1_def tag_def)
  ultimately show ?thesis using p(2,4) by (simp add: sending_def Let_def)
qed

lemma send_intervals_ok:
  assumes "payload_id req = pid" and "8 < mtu req" and "steady env req" and "length content < fuel"
    and "k \<le> length (intervals req)" and "\<forall>j < k. iv_ok req (length content) (intervals req ! j)"
  shows "ready (length content) req 0 sv \<Longrightarrow>
    \<exists>sv'. fold_c (send_interval fuel clock rd env rt) sv [0..<k] = Inr sv' \<and> ready (length content) req k sv' \<and>
    same_route sv sv' \<and>
    (0 < k \<longrightarrow> unat (bytes_sent (sv_transfer sv')) = range_hi req (length content) (intervals req ! (k - 1))) \<and>
    sv_sent sv' = sv_sent sv @ map (tag sv) (concat (map (\<lambda>iv. pkts req (range_lo req iv)
      (range_hi req (length content) iv)) (take k (intervals req))))"
  using assms(5,6)
proof (induction k)
  case 0
  then show ?case by (simp add: same_route_def)
next
  case (Suc k)
  then obtain sv1 where s: "fold_c (send_interval fuel clock rd env rt) sv [0..<k] = Inr sv1"
      "ready (length content) req k sv1" "same_route sv sv1"
      "sv_sent sv1 = sv_sent sv @ map (tag sv) (concat (map (\<lambda>iv. pkts req (range_lo req iv)
        (range_hi req (length content) iv)) (take k (intervals req))))" by auto
  obtain sv' where t: "send_interval fuel clock rd env rt sv1 k = Inr sv'" "ready (length content) req (Suc k) sv'"
      "same_route sv1 sv'" "unat (bytes_sent (sv_transfer sv')) = range_hi req (length content) (intervals req ! k)"
      "sv_sent sv' = sv_sent sv1 @ map (tag sv1) (pkts req (range_lo req (intervals req ! k))
        (range_hi req (length content) (intervals req ! k)))"
    using send_interval_ok [OF s(2) assms(1,2) _ _ assms(3,4), of clock rt] Suc.prems by auto
  have "same_route sv sv'" using s(3) t(3) by (simp add: same_route_def)
  with s t Suc.prems(2) tag_same_route [OF s(3)] show ?case
    by (auto simp: fold_c_append take_Suc_conv_app_nth)
qed

theorem start_sending_data_ok:
  assumes "servable req" and "request (sv_ctx sv) = req" and "keep_running (sv_ctx sv)"
    and "unat (pm_size (payload_meta (sv_ctx sv))) = length content" and "payload_id req = pid"
    and "\<forall>iv \<in> set (requested_ivs req). iv_ok req (length content) iv"
    and "steady env req" and "length content < fuel"
  shows "\<exists>sv'. start_sending_data fuel clock rd env sv = Inr (sv', DTP_OK) \<and>
    sv_sent sv' = sv_sent sv @ map (tag sv) (concat (map (\<lambda>iv. pkts req (range_lo req iv)
      (range_hi req (length content) iv)) (requested_ivs req))) \<and>
    keep_running (sv_ctx sv') \<and>
    sv_completed sv' = sv_completed sv @ (case pm_completed (payload_meta (sv_ctx sv)) of None \<Rightarrow> []
      | Some f \<Rightarrow> [(f, pid, of_nat (range_hi req (length content) (last (requested_ivs req))))])"
proof -
  let ?k = "unat (nof_intervals req)" and ?ctx = "sv_ctx sv"
  have srv: "length (intervals req) = 8" "1 \<le> ?k" "?k \<le> 8" "8 < mtu req"
    using assms(1) by (simp_all add: servable_def word_le_nat_alt)
  obtain mt where mt: "compute_dtp_metrics req (pm_size (payload_meta ?ctx)) = Inr mt" "0 < packets_per_round mt"
    by (rule metrics_shape [OF assms(1), of "pm_size (payload_meta ?ctx)"]) (auto simp: word_less_nat_alt word_le_nat_alt)
  define sv1 where "sv1 = sv\<lparr>sv_ctx := ?ctx\<lparr>client_alive_ts := ev_now (env (sv_event sv))\<rparr>,
      sv_transfer := (sv_transfer sv)\<lparr>bytes_sent := 0, nof_csp_packets := 0, nof_packets_per_round := packets_per_round mt\<rparr>\<rparr>"
  have rdy: "ready (length content) req 0 sv1"
    using assms(2-4) mt(2) by (simp add: ready_def agrees_def sv1_def)
  have ok: "\<forall>j < ?k. iv_ok req (length content) (intervals req ! j)"
    using assms(6) srv by (simp add: requested_ivs_def all_set_conv_all_nth)
  obtain sv' where s: "fold_c (send_interval fuel clock rd env (round_time_ms mt)) sv1 [0..<?k] = Inr sv'"
      "ready (length content) req ?k sv'" "same_route sv1 sv'"
      "unat (bytes_sent (sv_transfer sv')) = range_hi req (length content) (intervals req ! (?k - 1))"
      "sv_sent sv' = sv_sent sv1 @ map (tag sv1) (concat (map (\<lambda>iv. pkts req (range_lo req iv)
        (range_hi req (length content) iv)) (take ?k (intervals req))))"
    using send_intervals_ok [OF assms(5) srv(4) assms(7,8) _ ok rdy, of clock "round_time_ms mt"] srv by auto
  have last: "last (requested_ivs req) = intervals req ! (?k - 1)"
  proof -
    have "requested_ivs req \<noteq> []" using srv by (auto simp: requested_ivs_def)
    with srv show ?thesis by (simp add: last_conv_nth) (simp add: requested_ivs_def)
  qed
  have "payload_meta (sv_ctx sv') = payload_meta ?ctx" "sv_completed sv' = sv_completed sv"
      "payload_id (request (sv_ctx sv')) = pid" "keep_running (sv_ctx sv')"
    using s(2,3) agrees_fields(3) [of ?k req "request (sv_ctx sv')"] assms(5)
    by (simp_all add: same_route_def ready_def sv1_def)
  moreover have "bytes_sent (sv_transfer sv') = of_nat (range_hi req (length content) (last (requested_ivs req)))"
    unfolding last s(4) [symmetric] by simp
  moreover have "tag sv1 = tag sv" "sv_sent sv1 = sv_sent sv" by (auto simp: sv1_def tag_def)
  ultimately show ?thesis
    using s(1,5) mt(1) assms(2)
    by (simp add: start_sending_data_def Let_def sv1_def requested_ivs_def split: option.split)
qed

end

section \<open>Memory as a payload\<close>

text \<open>Memory as a function from addresses to bytes, read the way the asynchronous interface documents it.\<close>

definition mem_read :: "(u64 \<Rightarrow> u8) \<Rightarrow> u64 \<Rightarrow> u32 \<Rightarrow> u8 list" where
  "mem_read mem a n = map (\<lambda>k. mem (a + of_nat k)) [0..<unat n]"

definition mem_content :: "(u64 \<Rightarrow> u8) \<Rightarrow> dtp_msg_t \<Rightarrow> u8 list" where
  "mem_content mem m = map (\<lambda>k. mem (vaddr m + of_nat k)) [0..<unat (msg_size m)]"

interpretation vm: payload_source "dtp_payload_vmem_read (mem_read mem) m" pid "mem_content mem m"
  for mem :: "u64 \<Rightarrow> u8" and m :: dtp_msg_t and pid :: u8
proof
  show "length (mem_content mem m) < 2 ^ 32" using unat_lt_u32 [of "msg_size m"] by (simp add: mem_content_def)
  fix off n :: u32
  assume le: "unat off + unat n \<le> length (mem_content mem m)"
  have "(ucast off :: u64) + of_nat k = of_nat (unat off + k)" for k by simp
  then have "mem_read mem (vaddr m + ucast off) n = take (unat n) (drop (unat off) (mem_content mem m))"
    using le by (intro nth_equalityI) (auto simp: mem_read_def mem_content_def add.assoc)
  then show "dtp_payload_vmem_read (mem_read mem) m pid off n = (n, take (unat n) (drop (unat off) (mem_content mem m)))"
    by (simp add: dtp_payload_vmem_read_def)
qed

section \<open>The specification cuts a range completely and in order\<close>

lemma spec_packets_data:
  "0 < c \<Longrightarrow> hi \<le> length content \<Longrightarrow>
   concat (map pk_data (spec_packets c sid content lo hi)) = take (hi - lo) (drop lo content)"
proof (induction c sid content lo hi rule: spec_packets.induct)
  case (1 c sid content lo hi)
  show ?case
  proof (cases "hi \<le> lo")
    case True
    then show ?thesis by (simp add: spec_packets.simps)
  next
    case False
    let ?n = "min c (hi - lo)"
    have "concat (map pk_data (spec_packets c sid content lo hi)) =
        take ?n (drop lo content) @ take (hi - (lo + ?n)) (drop (lo + ?n) content)"
      using "1.IH" "1.prems" False by (subst spec_packets.simps) simp
    also have "\<dots> = take (?n + (hi - (lo + ?n))) (drop lo content)"
      by (simp only: take_add drop_drop add.commute)
    also have "?n + (hi - (lo + ?n)) = hi - lo" using False by simp
    finally show ?thesis .
  qed
qed

lemma spec_packets_session: "\<forall>p \<in> set (spec_packets c sid content lo hi). pk_session p = sid"
proof (induction c sid content lo hi rule: spec_packets.induct)
  case (1 c sid content lo hi)
  then show ?case by (subst spec_packets.simps) simp
qed

lemma spec_packets_numbers:
  "0 < c \<Longrightarrow> hi < 4294967296 \<Longrightarrow>
   map (\<lambda>p. unat (pk_offset p) div c) (spec_packets c sid content (s * c) hi) = [s..<(hi + (c - 1)) div c]"
proof (induction "hi - s * c" arbitrary: s rule: less_induct)
  case less
  let ?N = "(hi + (c - 1)) div c"
  have N: "s < ?N \<longleftrightarrow> s * c < hi"
  proof -
    have "s < ?N \<longleftrightarrow> Suc s * c \<le> hi + (c - 1)"
      using less.prems(1) by (metis Suc_le_eq less_eq_div_iff_mult_less_eq)
    also have "\<dots> \<longleftrightarrow> s * c < hi" using less.prems(1) by auto
    finally show ?thesis .
  qed
  show ?case
  proof (cases "s * c < hi")
    case False
    then show ?thesis using N by (simp add: spec_packets.simps)
  next
    case True
    have off: "unat (of_nat (s * c) :: u32) = s * c" using True less.prems(2) by (intro unat_of_nat_u32) simp
    show ?thesis
    proof (cases "c \<le> hi - s * c")
      case big: True
      then have "s * c + min c (hi - s * c) = Suc s * c" by simp
      moreover have "map (\<lambda>p. unat (pk_offset p) div c) (spec_packets c sid content (Suc s * c) hi) = [Suc s..<?N]"
        using less.hyps [of "Suc s"] less.prems True by auto
      ultimately show ?thesis using True N less.prems(1) off
        by (subst spec_packets.simps) (simp add: upt_conv_Cons del: of_nat_mult mult_Suc)
    next
      case small: False
      then have e: "s * c + min c (hi - s * c) = hi" using True by simp
      have "?N = Suc s" using small True less.prems(1) N
        by (intro antisym) (auto simp: less_Suc_eq_le [symmetric] div_less_iff_less_mult)
      then show ?thesis using True less.prems(1) off e
        by (subst spec_packets.simps) (simp del: of_nat_mult)
    qed
  qed
qed

section \<open>Properties of the server\<close>

text \<open>
  C4. For a request with a positive throughput, an MTU above eight and one to eight intervals inside
  the payload, and a payload whose reader delivers what it is asked for, \<open>start_sending_data\<close> ends
  and has sent exactly the requested byte ranges, interval by interval, each cut into packets of
  the MTU's size (the last one shorter), with their byte offsets and the session id, and
  then called the completion callback with the position reached. This holds in every environment
  that provides buffers, does not stop the transfer and keeps an announced keep-alive up; the number of
  polls needed is at most the size of the payload plus one.\<close>

theorem server_sends_requested_data:
  assumes "payload_source rd (payload_id req) content"
    and "servable req" and "request (sv_ctx sv) = req" and "keep_running (sv_ctx sv)"
    and "unat (pm_size (payload_meta (sv_ctx sv))) = length content"
    and "\<forall>iv \<in> set (requested_ivs req). iv_ok req (length content) iv"
    and "steady env req" and "length content < fuel"
  shows "\<exists>sv'. start_sending_data fuel clock rd env sv = Inr (sv', DTP_OK) \<and>
    sv_sent sv' = sv_sent sv @ map (tag sv) (concat (map (\<lambda>iv. spec_packets (chunk req) (session_id req) content
      (range_lo req iv) (range_hi req (length content) iv)) (requested_ivs req))) \<and>
    sv_completed sv' = sv_completed sv @ (case pm_completed (payload_meta (sv_ctx sv)) of None \<Rightarrow> []
      | Some f \<Rightarrow> [(f, payload_id req, of_nat (range_hi req (length content) (last (requested_ivs req))))])"
  using payload_source.start_sending_data_ok [OF assms(1-5) refl assms(6-8), of clock] by blast

text \<open>The states used in examples: a server at rest, an undisturbed environment.\<close>

definition idle_server :: server where
  "idle_server = \<lparr>sv_ctx = \<lparr>srv_node = 0, dest_port = 0, size_in_bytes = 0, keep_running = False,
      request = whole_request 1000 1024,
      payload_meta = \<lparr>pm_base = 0, pm_size = 0, pm_read = None, pm_completed = None, pm_context = None\<rparr>,
      client_alive_ts = 0\<rparr>,
    sv_transfer = \<lparr>bytes_sent = 0, sent_in_interval = 0, bytes_in_interval = 0, nof_packets_per_round = 0,
      nof_csp_packets = 0\<rparr>,
    sv_event = 0, sv_sent = [], sv_leaked = 0, sv_completed = []\<rparr>"

definition quiet :: env where
  "quiet k = \<lparr>ev_buffer = True, ev_now = 0, ev_stop = False, ev_alive = None\<rparr>"

definition attentive :: env where
  "attentive k = \<lparr>ev_buffer = True, ev_now = 0, ev_stop = False, ev_alive = Some 0\<rparr>"

lemma steady_attentive: "steady attentive req"
  by (simp add: steady_def attentive_def)

lemma steady_quiet: "keep_alive_interval req = 0 \<Longrightarrow> steady quiet req"
  by (simp add: steady_def quiet_def)

definition memory_message :: dtp_msg_t where
  "memory_message = \<lparr>msg = 1, msg_srv_node = 1, msg_dest_port = 2, vaddr = 0x1000, msg_size = 5000,
     msg_meta = whole_request 1000 1032\<rparr>"

theorem server_sends_requested_data_witness:
  "\<exists>sv'. start_sending_data 5001 (\<lambda>_. 0) (dtp_payload_vmem_read (mem_read (\<lambda>_. 7)) memory_message) quiet
      (idle_server\<lparr>sv_ctx := (sv_ctx idle_server)\<lparr>request := whole_request 1000 1032, keep_running := True,
         payload_meta := (payload_meta (sv_ctx idle_server))\<lparr>pm_size := 5000\<rparr>\<rparr>\<rparr>) = Inr (sv', DTP_OK) \<and>
    length (sv_sent sv') = 5"
proof -
  let ?req = "whole_request 1000 1032" and ?mem = "\<lambda>_ :: u64. 7 :: u8"
  let ?sv = "idle_server\<lparr>sv_ctx := (sv_ctx idle_server)\<lparr>request := ?req, keep_running := True,
         payload_meta := (payload_meta (sv_ctx idle_server))\<lparr>pm_size := 5000\<rparr>\<rparr>\<rparr>"
  have len: "length (mem_content ?mem memory_message) = 5000" by (simp add: mem_content_def memory_message_def)
  have r: "servable ?req" "steady quiet ?req" "chunk ?req = 1024" "sv_sent ?sv = []"
      "requested_ivs ?req = [\<lparr>iv_start = 0, iv_end = UINT32_MAX\<rparr>]"
    by (simp_all add: servable_def whole_request_def steady_quiet chunk_def requested_ivs_def idle_server_def)
  have n: "length (spec_packets 1024 (session_id ?req) (mem_content ?mem memory_message) 0 5000) = 5"
    using arg_cong [OF spec_packets_numbers [of 1024 5000 "session_id ?req" "mem_content ?mem memory_message" 0], of length]
    by simp
  have "payload_source (dtp_payload_vmem_read (mem_read ?mem) memory_message) (payload_id ?req)
      (mem_content ?mem memory_message)" by (rule vm.payload_source_axioms)
  from server_sends_requested_data [OF this r(1), of ?sv quiet 5001 "\<lambda>_. 0"] r n len
  show ?thesis by (auto simp: range_lo_def range_hi_def iv_ok_def)
qed

text \<open>The packets of a transfer of memory.\<close>

lemma transfer_size_defined:
  assumes "unat (nof_intervals (request ctx)) \<le> length (intervals (request ctx))"
  shows "\<exists>sz. compute_transfer_size ctx = Inr sz"
proof -
  have "\<exists>sz. fold_c (size_step ctx) a is = Inr sz" if "\<forall>i \<in> set is. i < length (intervals (request ctx))" for a "is"
    using that by (induction "is" arbitrary: a) (auto simp: size_step_def c_index_def Let_def)
  then show ?thesis using assms unfolding compute_transfer_size_def by simp
qed

lemma vmem_turn_ranges:
  assumes "msg m = 1" and "servable (msg_meta m)"
    and "\<forall>iv \<in> set (requested_ivs (msg_meta m)). iv_ok (msg_meta m) (unat (msg_size m)) iv"
    and "steady env (msg_meta m)" and "unat (msg_size m) < fuel"
  shows "\<exists>sv'. vmem_server_turn fuel clock (mem_read mem) f obj env m sv = Inr sv' \<and> \<not> keep_running (sv_ctx sv') \<and>
    sv_sent sv' = sv_sent sv @ map (\<lambda>p. (msg_srv_node m, msg_dest_port m, p))
      (concat (map (\<lambda>iv. spec_packets (chunk (msg_meta m)) (session_id (msg_meta m)) (mem_content mem m)
        (range_lo (msg_meta m) iv) (range_hi (msg_meta m) (unat (msg_size m)) iv)) (requested_ivs (msg_meta m))))"
proof -
  let ?req = "msg_meta m" and ?ctx = "sv_ctx sv"
  let ?ps = "concat (map (\<lambda>iv. spec_packets (chunk ?req) (session_id ?req) (mem_content mem m)
        (range_lo ?req iv) (range_hi ?req (unat (msg_size m)) iv)) (requested_ivs ?req))"
  define ctx1 where "ctx1 = ?ctx\<lparr>request := ?req, payload_meta := (payload_meta ?ctx)\<lparr>pm_size := msg_size m, pm_base := vaddr m\<rparr>\<rparr>"
  have "unat (nof_intervals (request ctx1)) \<le> length (intervals (request ctx1))"
    using assms(2) by (simp add: servable_def word_le_nat_alt ctx1_def)
  then obtain sz where sz: "compute_transfer_size ctx1 = Inr sz" using transfer_size_defined by blast
  define sv1 where "sv1 = sv\<lparr>sv_ctx := ctx1\<lparr>size_in_bytes := sz,
      payload_meta := (payload_meta ctx1)\<lparr>pm_context := Some obj, pm_read := Some f, pm_completed := None\<rparr>,
      srv_node := msg_srv_node m, dest_port := msg_dest_port m, keep_running := True\<rparr>\<rparr>"
  have len: "length (mem_content mem m) = unat (msg_size m)" by (simp add: mem_content_def)
  obtain sv' where s: "start_sending_data fuel clock (dtp_payload_vmem_read (mem_read mem) m) env sv1 = Inr (sv', DTP_OK)"
      "sv_sent sv' = sv_sent sv1 @ map (tag sv1) ?ps"
    using vm.start_sending_data_ok [OF assms(2), of sv1 mem m "payload_id ?req" env fuel clock] assms(3-5) len
    by (auto simp: sv1_def ctx1_def)
  have "vmem_server_turn fuel clock (mem_read mem) f obj env m sv = Inr (sv'\<lparr>sv_ctx := (sv_ctx sv')\<lparr>keep_running := False\<rparr>\<rparr>)"
    using assms(1) sz s(1) by (simp add: vmem_server_turn_def Let_def ctx1_def sv1_def)
  moreover have "tag sv1 = (\<lambda>p. (msg_srv_node m, msg_dest_port m, p))" "sv_sent sv1 = sv_sent sv"
    by (auto simp: tag_def sv1_def)
  ultimately show ?thesis using s(2) by (intro exI [of _ "sv'\<lparr>sv_ctx := (sv_ctx sv')\<lparr>keep_running := False\<rparr>\<rparr>"]) simp
qed

lemma vmem_turn_packets:
  assumes "msg m = 1" and "servable (msg_meta m)" and "nof_intervals (msg_meta m) = 1"
    and "intervals (msg_meta m) ! 0 = \<lparr>iv_start = 0, iv_end = UINT32_MAX\<rparr>"
    and "steady env (msg_meta m)" and "unat (msg_size m) < fuel"
  shows "\<exists>sv'. vmem_server_turn fuel clock (mem_read mem) f obj env m sv = Inr sv' \<and> \<not> keep_running (sv_ctx sv') \<and>
    sv_sent sv' = sv_sent sv @ map (\<lambda>p. (msg_srv_node m, msg_dest_port m, p))
      (spec_packets (chunk (msg_meta m)) (session_id (msg_meta m)) (mem_content mem m) 0 (unat (msg_size m)))"
proof -
  have ivs: "requested_ivs (msg_meta m) = [\<lparr>iv_start = 0, iv_end = UINT32_MAX\<rparr>]"
    using assms(2-4) by (cases "intervals (msg_meta m)") (simp_all add: requested_ivs_def servable_def)
  have "iv_ok (msg_meta m) (unat (msg_size m)) \<lparr>iv_start = 0, iv_end = UINT32_MAX\<rparr>"
    by (simp add: iv_ok_def range_lo_def range_hi_def)
  with vmem_turn_ranges [OF assms(1,2) _ assms(5,6), of clock mem f obj sv] show ?thesis
    by (simp add: ivs range_lo_def range_hi_def)
qed

text \<open>
  A memory transfer started by a message of type 1 with a request for the whole region sends
  packets whose payload bytes, put together, are the memory region, and whose packet numbers
  (offset divided by the payload size of a packet) count up from zero to the number of packets the
  region needs; afterwards the server no longer counts as running.\<close>

theorem vmem_transfer_delivers_memory:
  assumes "msg m = 1" and "servable (msg_meta m)" and "nof_intervals (msg_meta m) = 1"
    and "intervals (msg_meta m) ! 0 = \<lparr>iv_start = 0, iv_end = UINT32_MAX\<rparr>"
    and "steady env (msg_meta m)" and "unat (msg_size m) < fuel"
  shows "\<exists>sv' ps. vmem_server_turn fuel clock (mem_read mem) f obj env m sv = Inr sv' \<and>
    \<not> keep_running (sv_ctx sv') \<and>
    sv_sent sv' = sv_sent sv @ map (\<lambda>p. (msg_srv_node m, msg_dest_port m, p)) ps \<and>
    concat (map pk_data ps) = mem_content mem m \<and>
    map (\<lambda>p. unat (pk_offset p) div chunk (msg_meta m)) ps =
      [0..<(unat (msg_size m) + (chunk (msg_meta m) - 1)) div chunk (msg_meta m)] \<and>
    (\<forall>p \<in> set ps. pk_session p = session_id (msg_meta m))"
proof -
  let ?req = "msg_meta m" and ?c = "chunk (msg_meta m)"
  let ?ps = "spec_packets ?c (session_id ?req) (mem_content mem m) 0 (unat (msg_size m))"
  have c0: "0 < ?c" using assms(2) by (simp add: chunk_def servable_def word_less_nat_alt)
  have len: "length (mem_content mem m) = unat (msg_size m)" by (simp add: mem_content_def)
  have "concat (map pk_data ?ps) = mem_content mem m"
    using spec_packets_data [OF c0, of "unat (msg_size m)" "mem_content mem m" "session_id ?req" 0] len by simp
  moreover have "map (\<lambda>p. unat (pk_offset p) div ?c) ?ps = [0..<(unat (msg_size m) + (?c - 1)) div ?c]"
    using spec_packets_numbers [OF c0, of "unat (msg_size m)" "session_id ?req" "mem_content mem m" 0] unat_lt_u32 by simp
  moreover have "\<forall>p \<in> set ?ps. pk_session p = session_id ?req" by (rule spec_packets_session)
  ultimately show ?thesis using vmem_turn_packets [OF assms] by blast
qed

theorem vmem_transfer_delivers_memory_witness:
  "\<exists>sv' ps. vmem_server_turn 5001 (\<lambda>_. 0) (mem_read (\<lambda>a. ucast a)) 9 1 quiet memory_message idle_server = Inr sv' \<and>
    sv_sent sv' = map (\<lambda>p. (1, 2, p)) ps \<and> concat (map pk_data ps) = mem_content (\<lambda>a. ucast a) memory_message \<and>
    map (\<lambda>p. unat (pk_offset p) div 1024) ps = [0..<5]"
  using vmem_transfer_delivers_memory [of memory_message quiet 5001 "\<lambda>_. 0" "\<lambda>a. ucast a" 9 1 idle_server]
  by (auto simp: memory_message_def servable_def whole_request_def steady_quiet chunk_def idle_server_def)

lemma poll_operation_diverges:
  assumes "\<And>s. P s \<Longrightarrow> \<exists>s'. poll s = Inr (s', True) \<and> P s'"
  shows "P s \<Longrightarrow> poll_operation fuel clock k w period poll s = Inl Diverges"
proof (induction fuel arbitrary: s k w)
  case (Suc fuel)
  obtain s' where "poll s = Inr (s', True)" "P s'" using assms [OF Suc.prems] by blast
  with Suc.IH show ?case by (simp add: Let_def)
qed simp

text \<open>
  C36. When the payload's reader keeps reporting zero bytes (as it does for an unreadable payload, and
  as the server itself warns), a transfer that nobody stops never ends: the polling operation goes
  on for ever, without sending anything.\<close>

theorem failing_reader_polls_forever:
  assumes "\<And>off n. fst (rd (payload_id (request (sv_ctx sv))) off n) = 0" and "keep_running (sv_ctx sv)"
    and "sent_in_interval (sv_transfer sv) < bytes_in_interval (sv_transfer sv)" and "\<And>k. \<not> ev_stop (env k)"
  shows "os_hal_start_poll_operation fuel clock period (dtp_server_poll_loop rd env) sv = Inl Diverges"
  unfolding os_hal_start_poll_operation_def
proof (rule poll_operation_diverges [where P = "\<lambda>s. payload_id (request (sv_ctx s)) = payload_id (request (sv_ctx sv)) \<and>
    keep_running (sv_ctx s) \<and> sent_in_interval (sv_transfer s) < bytes_in_interval (sv_transfer s)"])
  let ?P = "\<lambda>s :: server. payload_id (request (sv_ctx s)) = payload_id (request (sv_ctx sv)) \<and> keep_running (sv_ctx s) \<and>
    sent_in_interval (sv_transfer s) < bytes_in_interval (sv_transfer s)"
  show "?P sv" using assms(2,3) by simp
  fix s assume p: "?P s"
  have o: "?P (other_tasks env s)" using p assms(4) by (simp add: other_tasks_def Let_def)
  have "\<exists>s'. poll_packets (Suc n) rd env cnt s = Inr s' \<and> ?P s'" for n cnt
  proof -
    have zero: "fst (rd (payload_id (request (sv_ctx (other_tasks env s)))) off m) = 0" for off m
      using o assms(1) by simp
    show ?thesis
      using o zero [of "bytes_sent (sv_transfer (other_tasks env s))"
          "ucast (fst (packet_length (other_tasks env s) cnt)) - 8"]
      by (auto simp: poll_packets_Suc Let_def split: prod.splits)
  qed
  from this [of "Suc (unat (nof_packets_per_round (sv_transfer s)))" 0] obtain s' where
    "poll_packets (unat (nof_packets_per_round (sv_transfer s)) + 2) rd env 0 s = Inr s'" "?P s'" by auto
  then show "\<exists>s'. dtp_server_poll_loop rd env s = Inr (s', True) \<and> ?P s'"
    by (auto simp: dtp_server_poll_loop_def Let_def)
qed

theorem failing_reader_polls_forever_witness:
  "os_hal_start_poll_operation 1000 (\<lambda>_. 0) 10 (dtp_server_poll_loop (\<lambda>p off n. (0, [])) quiet)
    (idle_server\<lparr>sv_ctx := (sv_ctx idle_server)\<lparr>keep_running := True\<rparr>,
      sv_transfer := (sv_transfer idle_server)\<lparr>bytes_in_interval := 100\<rparr>\<rparr>) = Inl Diverges"
  by (rule failing_reader_polls_forever) (simp_all add: quiet_def idle_server_def)

text \<open>
  Once \<open>keep_running\<close> has been cleared, by another task or earlier, the polling of the current
  interval ends at once without sending anything, and the remaining intervals are skipped.\<close>

theorem stop_ends_interval:
  assumes "ev_stop (env (sv_event sv)) \<or> \<not> keep_running (sv_ctx sv)"
  shows "\<exists>sv' sl. os_hal_start_poll_operation (Suc n) clock period (dtp_server_poll_loop rd env) sv = Inr (sv', sl) \<and>
    sv_sent sv' = sv_sent sv \<and> \<not> keep_running (sv_ctx sv') \<and>
    send_interval fuel clock rd env rt sv' i = Inr sv'"
proof -
  let ?s = "other_tasks env sv"
  have k: "\<not> keep_running (sv_ctx ?s)" "sv_sent ?s = sv_sent sv" using assms by (auto simp: other_tasks_def Let_def)
  then have "poll_packets (unat (nof_packets_per_round (sv_transfer sv)) + 2) rd env 0 sv = Inr ?s"
    by (simp add: poll_packets_Suc Let_def)
  then have "dtp_server_poll_loop rd env sv = Inr (?s, False)" using k by (simp add: dtp_server_poll_loop_def Let_def)
  with k show ?thesis by (simp add: os_hal_start_poll_operation_def Let_def send_interval_def)
qed

theorem stop_ends_interval_witness:
  "\<exists>sv' sl. os_hal_start_poll_operation 1 (\<lambda>_. 0) 10 (dtp_server_poll_loop (\<lambda>p off n. (n, [])) quiet) idle_server =
     Inr (sv', sl) \<and> sv_sent sv' = []"
  using stop_ends_interval [of quiet idle_server 0 "\<lambda>_. 0" 10 "\<lambda>p off n. (n, [])" 0 0 0]
  by (auto simp: idle_server_def)

text \<open>Once the transfer is stopped, the packet loop and the remaining intervals do nothing.\<close>

lemma stopped_loop_ends:
  assumes "\<not> keep_running (sv_ctx sv)"
  shows "poll_packets (Suc n) rd env cnt sv = Inr (other_tasks env sv)"
    and "\<not> keep_running (sv_ctx (other_tasks env sv))" and "sv_sent (other_tasks env sv) = sv_sent sv"
  using assms by (simp_all add: poll_packets_Suc other_tasks_def Let_def)

lemma stopped_intervals_skipped:
  "\<not> keep_running (sv_ctx sv) \<Longrightarrow> fold_c (send_interval fuel clock rd env rt) sv is = Inr sv"
  by (induction "is") (simp_all add: send_interval_def Let_def)

lemma lost_client_one_packet:
  assumes "payload_source rd pid content" and "sending (length content) pid sv lo hi" and "lo < hi"
    and "client_lost (ev_now (env (sv_event sv))) (sv_ctx sv)" and "ev_alive (env (sv_event sv)) = None"
    and "\<not> ev_stop (env (sv_event sv))" and "ev_buffer (env (sv_event sv))" and "0 < nof_packets_per_round (sv_transfer sv)"
  shows "\<exists>sv'. dtp_server_poll_loop rd env sv = Inr (sv', False) \<and> \<not> keep_running (sv_ctx sv') \<and>
    sv_sent sv' = sv_sent sv @ [tag sv (hd (spec_packets (chunk (request (sv_ctx sv))) (session_id (request (sv_ctx sv))) content lo hi))]"
proof -
  let ?req = "request (sv_ctx sv)" and ?t = "sv_transfer sv" and ?ppr = "nof_packets_per_round (sv_transfer sv)"
  let ?k = "min (chunk ?req) (hi - lo)"
  have len: "length content < 2 ^ 32" using payload_source.content_size [OF assms(1)] .
  have o: "other_tasks env sv = sv" using assms(5,6) by (simp add: other_tasks_def Let_def)
  obtain l cnt where l: "packet_length sv 0 = (l, cnt)" "l = of_nat (?k + 8)" "unat (ucast l - 8 :: u32) = ?k"
    using packet_length_sending [OF assms(2) len, of 0] by blast
  have s: "unat (bytes_sent ?t) = lo" "hi \<le> length content" "keep_running (sv_ctx sv)" "payload_id ?req = pid" "0 < chunk ?req"
    using assms(2) by (simp_all add: sending_def Let_def chunk_def word_less_nat_alt)
  have k: "0 < ?k" "lo + ?k \<le> hi" using s(5) assms(3) by auto
  have rd: "rd pid (bytes_sent ?t) (ucast l - 8) = (ucast l - 8, take ?k (drop lo content))"
    using payload_source.reads [OF assms(1), of "bytes_sent ?t" "ucast l - 8"] s(1,2) l(3) k(2) by simp
  have n0: "(ucast l - 8 :: u32) \<noteq> 0" using k(1) l(3) by auto
  have p: "tag sv (hd (spec_packets (chunk ?req) (session_id ?req) content lo hi)) = (srv_node (sv_ctx sv), dest_port (sv_ctx sv),
      \<lparr>pk_length = l, pk_offset = bytes_sent ?t, pk_session = session_id ?req, pk_data = take ?k (drop lo content)\<rparr>)"
    using assms(3) s(1,5) l(2) by (subst spec_packets.simps) (auto simp: tag_def)
  define sv1 where "sv1 = sv\<lparr>sv_event := Suc (sv_event sv),
      sv_transfer := ?t\<lparr>bytes_sent := bytes_sent ?t + (ucast l - 8), sent_in_interval := sent_in_interval ?t + (ucast l - 8),
        nof_csp_packets := nof_csp_packets ?t + 1\<rparr>,
      sv_sent := sv_sent sv @ [tag sv (hd (spec_packets (chunk ?req) (session_id ?req) content lo hi))],
      sv_ctx := (sv_ctx sv)\<lparr>keep_running := False\<rparr>\<rparr>"
  have one: "poll_packets (Suc n) rd env 0 sv = poll_packets n rd env (cnt + 1) sv1" for n
    using assms(4,7,8) l(1) s(3,4) rd n0 by (simp add: poll_packets_Suc Let_def o sv1_def p)
  have stop: "\<not> keep_running (sv_ctx sv1)" by (simp add: sv1_def)
  have "poll_packets (unat ?ppr + 2) rd env 0 sv = Inr (other_tasks env sv1)"
    using one [of "Suc (unat ?ppr)"] stopped_loop_ends(1) [OF stop] by simp
  with stopped_loop_ends(2,3) [OF stop, of env] show ?thesis
    by (intro exI [of _ "other_tasks env sv1"]) (simp add: dtp_server_poll_loop_def Let_def sv1_def)
qed

text \<open>
  C29. A client that announced keep-alive messages and has been silent for more than twice that interval plus 500
  milliseconds ends the transfer: the poll in which the server notices sends one more packet, the next one of the range,
  the polling loop returns, and the remaining intervals of the request are skipped.\<close>

theorem lost_client_ends_transfer:
  assumes "payload_source rd pid content" and "sending (length content) pid sv lo hi" and "lo < hi"
    and "client_lost (ev_now (env (sv_event sv))) (sv_ctx sv)" and "ev_alive (env (sv_event sv)) = None"
    and "\<not> ev_stop (env (sv_event sv))" and "ev_buffer (env (sv_event sv))" and "0 < nof_packets_per_round (sv_transfer sv)"
  shows "\<exists>sv' tr. os_hal_start_poll_operation (Suc n) clock period (dtp_server_poll_loop rd env) sv = Inr (sv', tr) \<and>
    sv_sent sv' = sv_sent sv @ [tag sv (hd (spec_packets (chunk (request (sv_ctx sv))) (session_id (request (sv_ctx sv))) content lo hi))] \<and>
    (\<forall>fuel clock' rt is. fold_c (send_interval fuel clock' rd env rt) sv' is = Inr sv')"
proof -
  obtain sv' where p: "dtp_server_poll_loop rd env sv = Inr (sv', False)" "\<not> keep_running (sv_ctx sv')"
      "sv_sent sv' = sv_sent sv @ [tag sv (hd (spec_packets (chunk (request (sv_ctx sv))) (session_id (request (sv_ctx sv))) content lo hi))]"
    using lost_client_one_packet [where env = env, OF assms] by blast
  have "os_hal_start_poll_operation (Suc n) clock period (dtp_server_poll_loop rd env) sv =
      Inr (sv', [(poll_sleep period (clock 1) (clock 0), clock 2)])"
    using p(1) by (simp add: os_hal_start_poll_operation_def Let_def numeral_2_eq_2)
  with p(3) stopped_intervals_skipped [OF p(2)] show ?thesis by blast
qed

text \<open>Ten seconds of silence against an interval of one second, in the middle of a memory region of 5000 bytes.\<close>

definition silent_client :: env where
  "silent_client k = \<lparr>ev_buffer = True, ev_now = 10000, ev_stop = False, ev_alive = None\<rparr>"

definition half_sent :: server where
  "half_sent = idle_server\<lparr>sv_ctx := (sv_ctx idle_server)\<lparr>keep_running := True,
       request := (whole_request 1000 1032)\<lparr>keep_alive_interval := 1000\<rparr>\<rparr>,
     sv_transfer := (sv_transfer idle_server)\<lparr>bytes_sent := 2048, sent_in_interval := 2048, bytes_in_interval := 5000,
       nof_packets_per_round := 2\<rparr>\<rparr>"

lemma half_sent_standing: "sending (length (mem_content mem memory_message)) 0 half_sent 2048 5000"
  by (simp add: sending_def half_sent_def idle_server_def whole_request_def mem_content_def memory_message_def)

theorem lost_client_ends_transfer_witness:
  "\<exists>sv' tr. os_hal_start_poll_operation 1 (\<lambda>_. 0) 10
      (dtp_server_poll_loop (dtp_payload_vmem_read (mem_read (\<lambda>_. 7)) memory_message) silent_client) half_sent = Inr (sv', tr) \<and>
    length (sv_sent sv') = 1"
proof -
  have "payload_source (dtp_payload_vmem_read (mem_read (\<lambda>_. 7)) memory_message) 0 (mem_content (\<lambda>_. 7) memory_message)"
    by (rule vm.payload_source_axioms)
  from lost_client_ends_transfer [OF this half_sent_standing, of silent_client 0 "\<lambda>_. 0" 10] show ?thesis
    by (auto simp: silent_client_def half_sent_def idle_server_def client_lost_def whole_request_def)
qed

section \<open>The rate limit\<close>

lemma poll_packets_bound:
  "poll_packets n rd env cnt sv = Inr sv' \<Longrightarrow> nof_packets_per_round (sv_transfer sv) \<noteq> UINT32_MAX \<Longrightarrow>
   nof_packets_per_round (sv_transfer sv') = nof_packets_per_round (sv_transfer sv) \<and>
   length (sv_sent sv') \<le> length (sv_sent sv) + (unat (nof_packets_per_round (sv_transfer sv)) - unat cnt)"
proof (induction n arbitrary: cnt sv)
  case (Suc n)
  let ?sv = "other_tasks env sv" and ?ppr = "nof_packets_per_round (sv_transfer sv)"
  have o: "sv_transfer ?sv = sv_transfer sv" "sv_sent ?sv = sv_sent sv" by (simp_all add: other_tasks_def Let_def)
  show ?case
  proof (cases "poll_packets (Suc n) rd env cnt sv = Inr sv' \<and> length (sv_sent sv') = length (sv_sent sv) \<and>
      nof_packets_per_round (sv_transfer sv') = ?ppr")
    case False
    obtain l cnt' where l: "packet_length ?sv cnt = (l, cnt')" by fastforce
    have c: "cnt' = cnt \<or> cnt' = ?ppr" using l o(1) by (auto simp: packet_length_def Let_def split: if_splits)
    obtain sv1 where r: "poll_packets n rd env (cnt' + 1) sv1 = Inr sv'" "cnt < ?ppr"
        "nof_packets_per_round (sv_transfer sv1) = ?ppr" "length (sv_sent sv1) = Suc (length (sv_sent sv))"
      using Suc.prems(1) False l
      by (auto simp: poll_packets_Suc Let_def o split: if_splits prod.splits)
    have "cnt' \<noteq> UINT32_MAX" using c u32_less_not_max [OF r(2)] Suc.prems(2) by auto
    then have "unat (cnt' + 1) = Suc (unat cnt')" by (simp add: unat_add1_u32)
    with Suc.IH [OF r(1)] r(2-4) Suc.prems(2) c show ?thesis by (auto simp: word_less_nat_alt)
  qed simp
qed simp

lemma poll_operation_bound:
  "poll_operation n clock k w period (dtp_server_poll_loop rd env) sv = Inr (sv', tr) \<Longrightarrow>
   nof_packets_per_round (sv_transfer sv) \<noteq> UINT32_MAX \<Longrightarrow>
   length (sv_sent sv') \<le> length (sv_sent sv) + unat (nof_packets_per_round (sv_transfer sv)) * length tr"
proof (induction n arbitrary: k w sv tr)
  case (Suc n)
  obtain sv1 carryon where p: "dtp_server_poll_loop rd env sv = Inr (sv1, carryon)"
    using Suc.prems(1) by (auto simp: Let_def c_bind_eq_Inr)
  then have b: "nof_packets_per_round (sv_transfer sv1) = nof_packets_per_round (sv_transfer sv)"
      "length (sv_sent sv1) \<le> length (sv_sent sv) + unat (nof_packets_per_round (sv_transfer sv))"
    using poll_packets_bound [OF _ Suc.prems(2), of _ rd env 0 sv1] by (auto simp: dtp_server_poll_loop_def Let_def c_bind_eq_Inr)
  show ?case
  proof (cases carryon)
    case True
    obtain tr' where t: "poll_operation n clock (k + 2) (clock (k + 1)) period (dtp_server_poll_loop rd env) sv1 = Inr (sv', tr')"
        "length tr = Suc (length tr')"
      using Suc.prems(1) p True by (auto simp: Let_def c_bind_eq_Inr)
    from Suc.IH [OF t(1)] b t(2) Suc.prems(2) show ?thesis by simp
  next
    case False
    with Suc.prems(1) p b(2) show ?thesis by (auto simp: Let_def)
  qed
qed simp

text \<open>
  C33. The server keeps to its rate: while it sends an interval, there are at most \<open>nof_packets_per_round\<close> packets for every call of
  the polling callback, and successive calls are at least the round time apart, on a clock that advances by what
  \<open>usleep\<close> is asked for. This holds for every reader and whatever other tasks do.\<close>

theorem send_rate_limited:
  assumes "os_hal_start_poll_operation fuel clock round_time (dtp_server_poll_loop rd env) sv = Inr (sv', tr)"
    and "paced clock round_time" and "unat round_time * 1000 < 4294967296"
    and "nof_packets_per_round (sv_transfer sv) \<noteq> UINT32_MAX"
  shows "length (sv_sent sv') \<le> length (sv_sent sv) + unat (nof_packets_per_round (sv_transfer sv)) * length tr \<and>
    (\<forall>i. Suc i < length tr \<longrightarrow> round_time \<le> snd (tr ! Suc i) - snd (tr ! i))"
  using posix_keeps_period [OF assms(1-3)] poll_operation_bound [OF _ assms(4)] assms(1)
  by (auto simp: os_hal_start_poll_operation_def)

text \<open>A clock on which a callback takes five milliseconds and a sleep what it is asked for.\<close>

lemma paced_example: "paced (\<lambda>n. of_nat (5 * n)) 10"
proof -
  have "of_nat (5 * (2 * i + 1)) - of_nat (5 * (2 * i)) = (5 :: u32)" "of_nat (5 * (2 * i + 2)) - of_nat (5 * (2 * i + 1)) = (5 :: u32)" for i
    by (simp_all add: algebra_simps)
  then show ?thesis unfolding paced_def poll_sleep_def by (simp only: Let_def) simp
qed

theorem send_rate_limited_witness:
  "\<exists>sv' tr. os_hal_start_poll_operation 5001 (\<lambda>n. of_nat (5 * n)) 10
      (dtp_server_poll_loop (dtp_payload_vmem_read (mem_read (\<lambda>_. 7)) memory_message) attentive) half_sent = Inr (sv', tr) \<and>
    length (sv_sent sv') = 3 \<and> 3 \<le> 2 * length tr \<and> (\<forall>i. Suc i < length tr \<longrightarrow> 10 \<le> snd (tr ! Suc i) - snd (tr ! i))"
proof -
  let ?rd = "dtp_payload_vmem_read (mem_read (\<lambda>_. 7)) memory_message" and ?m = "mem_content (\<lambda>_. 7) memory_message"
  let ?clock = "\<lambda>n. of_nat (5 * n) :: u32"
  have h: "0 < nof_packets_per_round (sv_transfer half_sent)" "nof_packets_per_round (sv_transfer half_sent) = 2" "sv_sent half_sent = []"
      "chunk (request (sv_ctx half_sent)) = 1024"
    by (simp_all add: half_sent_def idle_server_def whole_request_def chunk_def)
  obtain sv' tr where r: "poll_operation 5001 ?clock 1 (?clock 0) 10 (dtp_server_poll_loop ?rd attentive) half_sent = Inr (sv', tr)"
      "sv_sent sv' = map (tag half_sent) (spec_packets 1024 (session_id (request (sv_ctx half_sent))) ?m 2048 5000)"
    using vm.poll_operation_completes [OF half_sent_standing [of "\<lambda>_. 7"] steady_attentive h(1), of 5001 ?clock 1 "?clock 0" 10] h(3,4) by auto
  have "length (spec_packets 1024 (session_id (request (sv_ctx half_sent))) ?m 2048 5000) = 3"
    using arg_cong [OF spec_packets_numbers [of 1024 5000 "session_id (request (sv_ctx half_sent))" ?m 2], of length] by simp
  then have l: "length (sv_sent sv') = 3" using r(2) by simp
  have run: "os_hal_start_poll_operation 5001 ?clock 10 (dtp_server_poll_loop ?rd attentive) half_sent = Inr (sv', tr)"
    using r(1) by (simp add: os_hal_start_poll_operation_def)
  have "length (sv_sent sv') \<le> length (sv_sent half_sent) + unat (nof_packets_per_round (sv_transfer half_sent)) * length tr \<and>
      (\<forall>i. Suc i < length tr \<longrightarrow> 10 \<le> snd (tr ! Suc i) - snd (tr ! i))"
    by (rule send_rate_limited [OF run paced_example]) (simp_all add: h(2))
  with run l h(2,3) show ?thesis by (intro exI [of _ sv'] exI [of _ tr]) simp
qed

text \<open>
  The transfer size the server announces (\<open>size_in_bytes\<close>) for an interval with an explicit end is
  one packet short of the byte range that \<open>start_sending_data\<close> sends for it.\<close>

theorem transfer_size_one_packet_short:
  assumes "nof_intervals (request ctx) = 1" and "length (intervals (request ctx)) = 8" and "8 < mtu (request ctx)"
    and "intervals (request ctx) ! 0 = iv" and "iv_end iv \<noteq> UINT32_MAX" and "iv_start iv \<le> iv_end iv"
    and "Suc (unat (iv_end iv)) * chunk (request ctx) \<le> unat (pm_size (payload_meta ctx))"
  shows "\<exists>sz. compute_transfer_size ctx = Inr sz \<and>
    unat sz + chunk (request ctx) =
      range_hi (request ctx) (unat (pm_size (payload_meta ctx))) iv - range_lo (request ctx) iv"
proof -
  let ?c = "chunk (request ctx)" and ?m = "mtu (request ctx)"
  have c: "unat (chunk32 ?m) = ?c" using assms(3) by (simp add: unat_chunk32 chunk_def word_le_nat_alt word_less_nat_alt)
  have b: "Suc (unat (iv_end iv)) * ?c < 4294967296" using assms(7) unat_lt_u32 [of "pm_size (payload_meta ctx)"] by linarith
  have se: "unat (iv_start iv) * ?c \<le> unat (iv_end iv) * ?c" using assms(6) by (simp add: word_le_nat_alt)
  have "unat x * ?c < 4294967296 \<Longrightarrow> unat (x * chunk32 ?m) = unat x * ?c" for x
    using unat_mult_u32 [of x "chunk32 ?m"] c by simp
  note mul = this
  have b': "unat (iv_end iv) * ?c < 4294967296" using b by (simp add: mult_Suc)
  have e: "unat (iv_end iv * chunk32 ?m) = unat (iv_end iv) * ?c" "unat (iv_start iv * chunk32 ?m) = unat (iv_start iv) * ?c"
    using mul [OF b'] mul [OF le_less_trans [OF se b']] by blast+
  then have "unat (iv_end iv * chunk32 ?m - iv_start iv * chunk32 ?m) = unat (iv_end iv) * ?c - unat (iv_start iv) * ?c"
    using se by (subst unat_sub_u32) (simp_all add: word_le_nat_alt)
  with assms(1,2,4,5,7) se show ?thesis
    by (simp add: compute_transfer_size_def size_step_def Let_def range_hi_def range_lo_def)
qed

theorem transfer_size_one_packet_short_witness:
  "\<exists>sz. compute_transfer_size ((sv_ctx idle_server)\<lparr>request := (whole_request 1000 1032)\<lparr>intervals :=
      \<lparr>iv_start = 0, iv_end = 3\<rparr> # replicate 7 \<lparr>iv_start = 0, iv_end = 0\<rparr>\<rparr>,
      payload_meta := (payload_meta (sv_ctx idle_server))\<lparr>pm_size := 8192\<rparr>\<rparr>) = Inr sz \<and> unat sz + 1024 = 4096"
  using transfer_size_one_packet_short [of "(sv_ctx idle_server)\<lparr>request := (whole_request 1000 1032)\<lparr>intervals :=
      \<lparr>iv_start = 0, iv_end = 3\<rparr> # replicate 7 \<lparr>iv_start = 0, iv_end = 0\<rparr>\<rparr>,
      payload_meta := (payload_meta (sv_ctx idle_server))\<lparr>pm_size := 8192\<rparr>\<rparr>"  "\<lparr>iv_start = 0, iv_end = 3\<rparr>"]
  by (auto simp: whole_request_def chunk_def range_hi_def range_lo_def)

section \<open>The server loops\<close>

text \<open>
  A server that is not sending stays so between turns, whatever arrives, and it answers no more requests than
  it gets.
\<close>

lemma server_turn_idle:
  "server_turn fuel clock le get_meta readers env buffer inc sv = Inr (sv', resp, cl) \<Longrightarrow> \<not> keep_running (sv_ctx sv) \<Longrightarrow>
   \<not> keep_running (sv_ctx sv')"
  by (cases inc) (auto simp: c_bind_eq_Inr Let_def)

lemma server_run_idle:
  "dtp_server_run fuel clock le get_meta readers env turns sv = Inr (sv', resps) \<Longrightarrow> \<not> keep_running (sv_ctx sv) \<Longrightarrow>
   \<not> keep_running (sv_ctx sv') \<and> length resps \<le> length turns"
proof (induction turns arbitrary: sv resps)
  case (Cons t turns)
  obtain buffer inc where t: "t = (buffer, inc)" by fastforce
  obtain sv1 r c rs where r: "server_turn fuel clock le get_meta readers env buffer inc sv = Inr (sv1, r, c)"
      "dtp_server_run fuel clock le get_meta readers env turns sv1 = Inr (sv', rs)"
      "resps = (case r of Some x \<Rightarrow> x # rs | None \<Rightarrow> rs)"
    using Cons.prems(1) unfolding t dtp_server_run.simps by (auto simp only: c_bind_eq_Inr split_paired_all prod.case sum.inject prod.inject split_paired_Ex)
  from Cons.IH [OF r(2) server_turn_idle [OF r(1) Cons.prems(2)]] r(3) show ?case by (simp split: option.split)
qed simp

text \<open>The memory server sends one region after the other, in the order of the messages.\<close>

lemma vmem_run_packets:
  assumes "\<forall>m \<in> set ms. msg m = 1 \<and> servable (msg_meta m) \<and> nof_intervals (msg_meta m) = 1 \<and>
      intervals (msg_meta m) ! 0 = \<lparr>iv_start = 0, iv_end = UINT32_MAX\<rparr> \<and> steady env (msg_meta m) \<and> unat (msg_size m) < fuel"
  shows "\<exists>sv'. dtp_vmem_server_run fuel clock (mem_read mem) f obj env ms sv = Inr sv' \<and>
    sv_sent sv' = sv_sent sv @ concat (map (\<lambda>m. map (\<lambda>p. (msg_srv_node m, msg_dest_port m, p))
      (spec_packets (chunk (msg_meta m)) (session_id (msg_meta m)) (mem_content mem m) 0 (unat (msg_size m)))) ms)"
  using assms
proof (induction ms arbitrary: sv)
  case (Cons m ms)
  then obtain sv1 where "vmem_server_turn fuel clock (mem_read mem) f obj env m sv = Inr sv1"
      "sv_sent sv1 = sv_sent sv @ map (\<lambda>p. (msg_srv_node m, msg_dest_port m, p))
        (spec_packets (chunk (msg_meta m)) (session_id (msg_meta m)) (mem_content mem m) 0 (unat (msg_size m)))"
    using vmem_turn_packets [of m env fuel clock mem f obj sv] by auto
  with Cons.IH [of sv1] Cons.prems show ?case by (simp add: dtp_vmem_server_run_def)
qed (simp add: dtp_vmem_server_run_def)

end
