(* ===== verification/Client.thy ===== *)
theory Client
  imports Protocol Session_Pool
begin

text \<open>
  The receiving side: \<open>src/dtp_client.c\<close>. Session set-up works on the globals of the session pool; a
  transfer works on one session and the world its hooks act on. What the network delivers is a
  sequence of events, one for each iteration of the receive loop: a packet or a timeout of
  \<open>csp_recvfrom\<close>, the clock, and whether another task has stopped the transfer meanwhile. Log
  output (and the two variables that throttle it) is left out.
\<close>

section \<open>State and environment\<close>

record rx_event =
  rx_stop :: bool
  rx_packet :: "data_packet option"
  rx_now :: u32

text \<open>The local variables of the receive loop; \<open>rx_alives\<close> are the nodes alive messages were sent to.\<close>

record rx_state =
  packet_seq :: u32
  prev_packet_seq :: u32
  idle_ms :: u32
  now_ts_ms :: u32
  rx_nof_packets :: u32
  expected_eot_ts_ms :: u32
  start_ts_ms :: u32
  last_alive :: u32
  rx_alives :: "u16 list"

text \<open>
  The environment of a transfer: results of \<open>csp_connect\<close>, \<open>csp_buffer_get\<close> and \<open>csp_read\<close>, the clock
  when the transfer starts and when the loop starts, whether port 8 can be bound, and the events.
\<close>

record xfer_env =
  xe_conn :: "conn option"
  xe_buffer :: bool
  xe_resp :: "dtp_meta_resp_t option"
  xe_start :: u32
  xe_bind :: bool
  xe_now :: u32
  xe_rx :: "nat \<Rightarrow> rx_event"

section \<open>The receive loop\<close>

text \<open>The expected end of the transfer after a packet, from the throughput so far.\<close>

definition adjust_eot :: "u16 \<Rightarrow> dtp_metrics_t \<Rightarrow> rx_state \<Rightarrow> u32 c_result" where
  "adjust_eot m metric rx =
     (let sent = ucast (ucast (rx_nof_packets rx) * chunk64 m) :: u32;
          ts_diff = now_ts_ms rx - start_ts_ms rx in
      if ts_diff > 0 then
        c_bind (c_div sent ts_diff) (\<lambda>curr_throughput.
        if curr_throughput > 0 then
          c_bind (c_div (chunk64 m * ucast (nof_packets metric)) (ucast curr_throughput)) (\<lambda>adj_eot_ts_ms.
          let adjust = (start_ts_ms rx + ucast adj_eot_ts_ms) - expected_eot_ts_ms rx
          in Inr (if adjust \<noteq> 0 then expected_eot_ts_ms rx + adjust else expected_eot_ts_ms rx))
        else Inr (expected_eot_ts_ms rx))
      else Inr (expected_eot_ts_ms rx))"

definition send_alive :: "'c dtp_t \<Rightarrow> rx_state \<Rightarrow> rx_state" where
  "send_alive s rx =
     (let k = keep_alive_interval (request_meta s) in
      if k > 0 \<and> now_ts_ms rx - last_alive rx \<ge> ucast k
      then rx\<lparr>rx_alives := rx_alives rx @ [remote_node s], last_alive := now_ts_ms rx\<rparr> else rx)"

definition run_data_hook :: "('c, 'w) data_hook_fun \<Rightarrow> 'c dtp_t \<Rightarrow> data_packet \<Rightarrow> 'w \<Rightarrow> ('c dtp_t \<times> 'w) c_result" where
  "run_data_hook dhf s p w = (case on_data_packet (hooks s) of
       Some f \<Rightarrow> c_bind (dhf f s p w) (\<lambda>((s', w'), carry_on). Inr (s', w'))
     | None \<Rightarrow> Inr (s, w))"

text \<open>What the loop does with a packet; the last result is the transfer's result when the loop is left.\<close>

definition receive_packet :: "('c, 'w) data_hook_fun \<Rightarrow> dtp_metrics_t \<Rightarrow> u32 \<Rightarrow> data_packet \<Rightarrow>
    rx_state \<times> 'c dtp_t \<times> 'w \<Rightarrow> ((rx_state \<times> 'c dtp_t \<times> 'w) \<times> dtp_result option) c_result" where
  "receive_packet dhf metric now p = (\<lambda>(rx0, s, w).
     let m = mtu (request_meta s) in
     c_bind (c_div (ucast (pk_offset p)) (chunk64 m)) (\<lambda>q.
     let rx = rx0\<lparr>idle_ms := 0, now_ts_ms := now, packet_seq := ucast q\<rparr> in
     if packet_seq rx = prev_packet_seq rx then Inr ((rx, s, w), None)
     else
       let rx = rx\<lparr>prev_packet_seq := packet_seq rx, rx_nof_packets := rx_nof_packets rx + 1\<rparr>;
           s = s\<lparr>bytes_received := bytes_received s + (ucast (pk_length p) - 8)\<rparr> in
       c_bind (adjust_eot m metric rx) (\<lambda>eot.
       let rx = send_alive s (rx\<lparr>expected_eot_ts_ms := eot\<rparr>) in
       c_bind (run_data_hook dhf s p w) (\<lambda>(s, w).
       Inr ((rx, s, w),
         if packet_seq rx \<ge> last_packet metric
         then Some (if bytes_received s = payload_size s then DTP_OK else DTP_CANCELLED) else None)))))"

fun receive_loop :: "nat \<Rightarrow> ('c, 'w) data_hook_fun \<Rightarrow> dtp_metrics_t \<Rightarrow> (nat \<Rightarrow> rx_event) \<Rightarrow> nat \<Rightarrow>
    rx_state \<times> 'c dtp_t \<times> 'w \<Rightarrow> ((rx_state \<times> 'c dtp_t \<times> 'w) \<times> dtp_result) c_result" where
  "receive_loop 0 dhf metric evs k (rx, s0, w) = Inl Diverges"
| "receive_loop (Suc n) dhf metric evs k (rx, s0, w) =
     (if now_ts_ms rx + idle_ms rx < expected_eot_ts_ms rx \<and> rx_nof_packets rx < nof_packets metric then
        let e = evs k; s = s0\<lparr>active := active s0 \<and> \<not> rx_stop e\<rparr> in
        if \<not> active s then Inr ((rx, s, w), DTP_CANCELLED)
        else (case rx_packet e of
            None \<Rightarrow> let rx = rx\<lparr>idle_ms := idle_ms rx + round_time_ms metric\<rparr> in
              if idle_ms rx > ucast (timeout s) * 1000
              then Inr ((rx, s\<lparr>active := False\<rparr>, w), DTP_CANCELLED)
              else receive_loop n dhf metric evs (Suc k) (rx, s, w)
          | Some p \<Rightarrow> c_bind (receive_packet dhf metric (rx_now e) p (rx, s, w)) (\<lambda>(st, r).
              case r of Some res \<Rightarrow> Inr (st, res) | None \<Rightarrow> receive_loop n dhf metric evs (Suc k) st))
      else Inr ((rx, s0, w), DTP_CANCELLED))"

definition initial_rx :: "dtp_metrics_t \<Rightarrow> u32 \<Rightarrow> rx_state" where
  "initial_rx metric now = \<lparr>packet_seq = 0, prev_packet_seq = 0xFFFFFFFF, idle_ms = 0, now_ts_ms = now,
     rx_nof_packets = 0, expected_eot_ts_ms = now + total_duration_ms metric + round_time_ms metric * 2,
     start_ts_ms = now, last_alive = now, rx_alives = []\<rparr>"

definition start_receiving_data :: "nat \<Rightarrow> ('c, 'w) hook_fun \<Rightarrow> ('c, 'w) data_hook_fun \<Rightarrow> xfer_env \<Rightarrow>
    'c dtp_t \<Rightarrow> 'w \<Rightarrow> (('c dtp_t \<times> 'w) \<times> dtp_result) c_result" where
  "start_receiving_data fuel hf dhf xe s0 w0 =
     c_bind (run_hook hf (on_start (hooks s0)) (s0\<lparr>start_ts := xe_start xe\<rparr>) w0) (\<lambda>(s1, w1).
     let s2 = s1\<lparr>active := True\<rparr> in
     if \<not> xe_bind xe then Inr ((s2, w1), DTP_ERR)
     else
       c_bind (compute_dtp_metrics (request_meta s2) (payload_size s2)) (\<lambda>metric.
       c_bind (receive_loop fuel dhf metric (xe_rx xe) 0 (initial_rx metric (xe_now xe), s2, w1)) (\<lambda>((rx, s3, w3), res).
       c_bind (run_hook hf (on_end (hooks s3)) s3 w3) (\<lambda>(s4, w4). Inr ((s4, w4), res)))))"

section \<open>A transfer\<close>

text \<open>The last component of the result lists the connections closed.\<close>

definition dtp_start_transfer :: "nat \<Rightarrow> bool \<Rightarrow> ('c, 'w) hook_fun \<Rightarrow> ('c, 'w) data_hook_fun \<Rightarrow> xfer_env \<Rightarrow>
    'c dtp_t \<Rightarrow> 'w \<Rightarrow> (('c dtp_t \<times> 'w) \<times> dtp_result \<times> conn option list) c_result" where
  "dtp_start_transfer fuel le hf dhf xe s w =
     (case xe_conn xe of
        None \<Rightarrow> Inr ((s\<lparr>sess_errno := DTP_CONNECTION_FAILED\<rparr>, w), DTP_ERR, [None])
      | Some c \<Rightarrow>
          let s1 = s\<lparr>conn := Some c\<rparr>; (res, _) = send_remote_meta_req le (xe_buffer xe) s1 in
          if res \<noteq> DTP_OK then Inr ((s1, w), res, [Some c])
          else let (res, s2) = read_remote_meta_resp (xe_resp xe) s1 in
               if res \<noteq> DTP_OK then Inr ((s2, w), res, [Some c])
               else c_bind (start_receiving_data fuel hf dhf xe s2 w) (\<lambda>(sw, res). Inr (sw, res, [Some c])))"

definition dtp_vmem_client_main :: "nat \<Rightarrow> ('c, 'w) hook_fun \<Rightarrow> ('c, 'w) data_hook_fun \<Rightarrow> xfer_env \<Rightarrow>
    'c dtp_t \<Rightarrow> 'w \<Rightarrow> (('c dtp_t \<times> 'w) \<times> dtp_result) c_result" where
  "dtp_vmem_client_main fuel hf dhf xe s w = start_receiving_data fuel hf dhf xe s w"

section \<open>Sessions for a transfer\<close>

text \<open>The options of a fresh transfer, set one after the other; an error of \<open>dtp_set_opt\<close> ends the sequence.\<close>

fun set_opts :: "'c dtp_t \<Rightarrow> (dtp_option \<times> 'c dtp_params) list \<Rightarrow> ('c dtp_t \<times> dtp_result) c_result" where
  "set_opts s [] = Inr (s, DTP_OK)"
| "set_opts s ((opt, p) # ops) = c_bind (dtp_set_opt s opt p) (\<lambda>(s', res).
     if res \<noteq> DTP_OK then Inr (s', res) else set_opts s' ops)"

record prepare_args =
  pa_server :: u32
  pa_session_id :: u32
  pa_max_throughput :: u32
  pa_timeout :: u8
  pa_payload_id :: u8
  pa_ctx :: "string option"
  pa_mtu :: u16
  pa_resume :: bool
  pa_keep_alive :: u32

definition fresh_opts :: "prepare_args \<Rightarrow> (dtp_option \<times> 'c dtp_params) list" where
  "fresh_opts a = [(DTP_REMOTE_CFG, Remote_cfg (ucast (pa_server a))),
     (DTP_THROUGHPUT_CFG, Throughput_cfg (pa_max_throughput a)), (DTP_TIMEOUT_CFG, Timeout_cfg (pa_timeout a)),
     (DTP_PAYLOAD_ID_CFG, Payload_id_cfg (pa_payload_id a)), (DTP_MTU_CFG, Mtu_cfg (pa_mtu a)),
     (DTP_SESSION_ID_CFG, Session_id_cfg (pa_session_id a))]"

text \<open>Giving up on a session: it is released and NULL is returned.\<close>

definition give_up :: "('c, 'w) hook_fun \<Rightarrow> ('c, 'w) dtp_globals \<Rightarrow> handle \<Rightarrow> (('c, 'w) dtp_globals \<times> handle) c_result" where
  "give_up hf g h = c_bind (dtp_release_session hf g h) (\<lambda>(g', _). Inr (g', None))"

definition start_download :: "prepare_args \<Rightarrow> ('c, 'w) dtp_globals \<Rightarrow> nat \<Rightarrow> 'c dtp_t \<Rightarrow>
    ('c, 'w) dtp_globals \<times> handle" where
  "start_download a g i s = (put_session i
     (s\<lparr>request_meta := (request_meta s)\<lparr>keep_alive_interval := ucast (pa_keep_alive a)\<rparr>\<rparr>) g, Some i)"

definition fresh_download :: "('c, 'w) hook_fun \<Rightarrow> prepare_args \<Rightarrow> ('c, 'w) dtp_globals \<Rightarrow> nat \<Rightarrow> 'c dtp_t \<Rightarrow>
    (('c, 'w) dtp_globals \<times> handle) c_result" where
  "fresh_download hf a g i s =
     c_bind (set_opts s (fresh_opts a)) (\<lambda>(s', res).
     if res \<noteq> DTP_OK then give_up hf (put_session i s' g) (Some i) else Inr (start_download a g i s'))"

definition dtp_prepare_session :: "'c dtp_opt_session_hooks_cfg \<Rightarrow> ('c, 'w) hook_fun \<Rightarrow> prepare_args \<Rightarrow>
    ('c, 'w) dtp_globals \<Rightarrow> (('c, 'w) dtp_globals \<times> handle) c_result" where
  "dtp_prepare_session dh hf a g0 =
     (case dtp_acquire_session dh g0 of
        (g, None) \<Rightarrow> c_bind (dtp_set_errno g None DTP_ENOMORE_SESSIONS) (\<lambda>g. give_up hf g None)
      | (g, Some i) \<Rightarrow>
          c_bind (deref g (Some i)) (\<lambda>s0.
          let s = dtp_session_set_user_ctx s0 (pa_ctx a) in
          if pa_resume a then
            c_bind (dtp_deserialize_session hf s (world g)) (\<lambda>((s1, w1), res).
            let g = g\<lparr>world := w1\<rparr> in
            if res = DTP_OK \<and> sess_errno s1 = DTP_NO_ERR then
              if bytes_received s1 = payload_size s1 \<or> nof_intervals (request_meta s1) = 0
              then give_up hf (put_session i (s1\<lparr>sess_errno := DTP_SESSION_EXHAUSTED\<rparr>) g) (Some i)
              else Inr (start_download a g i s1)
            else fresh_download hf a g i s1)
          else fresh_download hf a g i s))"

text \<open>\<open>want_session\<close>: whether the caller passes a place for the session. The last result is that session.\<close>

definition dtp_client_main :: "nat \<Rightarrow> bool \<Rightarrow> 'c dtp_opt_session_hooks_cfg \<Rightarrow> ('c, 'w) hook_fun \<Rightarrow>
    ('c, 'w) data_hook_fun \<Rightarrow> xfer_env \<Rightarrow> prepare_args \<Rightarrow> bool \<Rightarrow> ('c, 'w) dtp_globals \<Rightarrow>
    (('c, 'w) dtp_globals \<times> dtp_result \<times> handle) c_result" where
  "dtp_client_main fuel le dh hf dhf xe a want_session g0 =
     c_bind (dtp_prepare_session dh hf (a\<lparr>pa_session_id := 0x900dface\<rparr>) g0) (\<lambda>(g, h).
     c_bind (case h of
         None \<Rightarrow> Inr (g, DTP_ERR)
       | Some i \<Rightarrow> c_bind (deref g h) (\<lambda>s.
           c_bind (dtp_start_transfer fuel le hf dhf xe s (world g)) (\<lambda>((s', w), res, closed).
           Inr ((put_session i s' g)\<lparr>world := w, csp_closed := rev closed @ csp_closed g\<rparr>, res)))) (\<lambda>(g, res).
     if (res = DTP_OK \<or> res = DTP_CANCELLED) \<and> want_session then Inr (g, res, h)
     else c_bind (dtp_release_session hf g h) (\<lambda>(g', _). Inr (g', res, None))))"

end
