(* ===== verification/Client_Correct.thy ===== *)
theory Client_Correct
  imports Client
begin

text \<open>
  That the receive loop ends when the network falls silent, that an undisturbed transfer is received
  completely, and when it is not. What a result means to the caller is in Client_Outcomes.
\<close>

declare receive_loop.simps(2) [simp del]
lemmas receive_loop_Suc = receive_loop.simps(2)

section \<open>Silence ends a transfer\<close>

lemma round_time_bound:
  assumes "servable req" and "compute_dtp_metrics req psize = Inr mt"
  shows "10 \<le> unat (round_time_ms mt) \<and> unat (round_time_ms mt) \<le> 65528000"
proof -
  obtain rt ppr g d r n l where i: "initial_round (throughput req) (chunk32 (mtu req)) = Inr (rt, ppr)"
      "10 \<le> rt div g" "round_time_ms mt = rt div g"
    by (rule metrics_shape [OF assms(1), of psize]) (use assms(2) in auto)
  have m: "unat (chunk32 (mtu req)) < 65528" "0 < throughput req"
    using assms(1) chunk32_pos [of "mtu req"] by (simp_all add: servable_def)
  have "unat (chunk32 (mtu req)) div unat (throughput req) \<le> 65528"
    using m(1) div_le_dividend [of "unat (chunk32 (mtu req))" "unat (throughput req)"] by linarith
  then have "unat (chunk32 (mtu req) div throughput req * 1000) \<le> 65528000"
    by (subst unat_mult_u32) (simp_all add: unat_div)
  then have "unat rt \<le> 65528000"
    using i(1) m by (auto simp: initial_round_def c_bind_eq_Inr split: if_splits)
  moreover have "unat (rt div g) \<le> unat rt" by (simp add: unat_div)
  ultimately show ?thesis using i(2,3) by (simp add: word_le_nat_alt)
qed

lemma silent_loop_ends:
  assumes "\<And>j. j0 \<le> j \<Longrightarrow> rx_packet (evs j) = None" and "10 \<le> unat (round_time_ms metric)"
    and "unat (round_time_ms metric) \<le> 65528000"
  shows "j0 \<le> k \<Longrightarrow> unat (idle_ms rx) \<le> unat (timeout s) * 1000 \<Longrightarrow> unat (timeout s) * 1000 - unat (idle_ms rx) < n * 10 \<Longrightarrow>
    \<exists>rx' a. receive_loop n dhf metric evs k (rx, s, w) = Inr ((rx', s\<lparr>active := a\<rparr>, w), DTP_CANCELLED)"
proof (induction n arbitrary: k rx s)
  case (Suc n)
  have t: "unat (timeout s) < 256" by (rule unat_lt_u8)
  have lim: "unat (ucast (timeout s) * 1000 :: u32) = unat (timeout s) * 1000"
    using t by (subst unat_mult_u32) (simp_all add: unsigned_ucast_eq take_bit_eq_mod)
  have idle: "unat (idle_ms rx + round_time_ms metric) = unat (idle_ms rx) + unat (round_time_ms metric)"
    using t assms(3) Suc.prems(2) by (intro unat_add_u32) linarith
  let ?s = "s\<lparr>active := active s \<and> \<not> rx_stop (evs k)\<rparr>" and ?rx = "rx\<lparr>idle_ms := idle_ms rx + round_time_ms metric\<rparr>"
  show ?case
  proof (cases "unat (idle_ms rx) + unat (round_time_ms metric) > unat (timeout s) * 1000")
    case True
    then show ?thesis using assms(1) [OF Suc.prems(1)]
      by (auto simp: receive_loop_Suc Let_def word_less_nat_alt lim idle intro: exI [of _ "active s"])
  next
    case False
    then have "unat (idle_ms ?rx) \<le> unat (timeout ?s) * 1000"
        "unat (timeout ?s) * 1000 - unat (idle_ms ?rx) < n * 10"
      using Suc.prems(3) assms(2) by (simp_all add: idle)
    from Suc.IH [OF _ this, of "Suc k"] False show ?thesis
      using assms(1) [OF Suc.prems(1)] Suc.prems(1) by (auto simp: receive_loop_Suc Let_def word_less_nat_alt lim idle intro: exI [of _ "active s"])
  qed
qed simp

section \<open>The expected end of a transfer\<close>

text \<open>The end the client expects after \<open>j\<close> of \<open>N\<close> packets of \<open>c\<close> bytes in \<open>ts\<close> milliseconds, from the start.\<close>

definition expected_duration :: "nat \<Rightarrow> nat \<Rightarrow> nat \<Rightarrow> nat \<Rightarrow> nat" where
  "expected_duration c N j ts = c * N div (j * c div ts)"

lemma of_nat_unat_u32: "of_nat (unat x) = x" for x :: u32
  by simp

lemma adjust_eot_nat:
  assumes "8 < m" and "c = unat m - 8" and "unat (rx_nof_packets rx) * c < 4294967296"
    and "unat (nof_packets metric) * c < 4294967296" and "ts = unat (now_ts_ms rx - start_ts_ms rx)"
  shows "adjust_eot m metric rx = Inr (if 0 < ts \<and> 0 < unat (rx_nof_packets rx) * c div ts
    then start_ts_ms rx + of_nat (expected_duration c (unat (nof_packets metric)) (unat (rx_nof_packets rx)) ts)
    else expected_eot_ts_ms rx)"
proof -
  let ?sent = "ucast (ucast (rx_nof_packets rx) * chunk64 m) :: u32" and ?d = "now_ts_ms rx - start_ts_ms rx"
  let ?curr = "?sent div ?d" and ?N = "nof_packets metric"
  have sent: "unat ?sent = unat (rx_nof_packets rx) * c" using unat_scaled [OF assms(1)] assms(2,3) by blast
  have curr: "unat ?curr = unat (rx_nof_packets rx) * c div ts" by (simp add: unat_div sent assms(5))
  have cN: "c * unat ?N < 4294967296" using assms(4) by (simp only: mult.commute)
  have "unat (chunk64 m) = c" using assms(1,2) by (simp add: unat_chunk64 word_less_nat_alt word_le_nat_alt)
  then have tot: "unat (chunk64 m * ucast ?N) = c * unat ?N"
    using cN by (subst unat_mult_lem [THEN iffD1]) simp_all
  have "unat ((chunk64 m * ucast ?N) div ucast ?curr) = c * unat ?N div unat ?curr"
    by (simp add: unat_div tot)
  moreover have "c * unat ?N div unat ?curr < 4294967296"
    using cN by (rule le_less_trans [OF div_le_dividend])
  ultimately have "unat (ucast ((chunk64 m * ucast ?N) div ucast ?curr) :: u32) = c * unat ?N div unat ?curr"
    by (simp add: unat_ucast_u64_u32)
  then have adj: "(ucast ((chunk64 m * ucast ?N) div ucast ?curr) :: u32) = of_nat (c * unat ?N div unat ?curr)"
    by (metis of_nat_unat_u32)
  have pos: "0 < ?d \<longleftrightarrow> 0 < ts" "0 < ?curr \<longleftrightarrow> 0 < unat (rx_nof_packets rx) * c div ts"
    by (simp_all add: word_less_nat_alt assms(5) curr)
  show ?thesis
  proof (cases "0 < ts \<and> 0 < unat (rx_nof_packets rx) * c div ts")
    case True
    then have "?d \<noteq> 0" "(ucast ?curr :: u64) \<noteq> 0" using pos curr assms(5) by (auto simp: word_unat_eq_iff)
    with True pos show ?thesis
      by (simp add: adjust_eot_def Let_def adj expected_duration_def curr)
  next
    case False
    then have "\<not> 0 < ?d \<or> (?d \<noteq> 0 \<and> \<not> 0 < ?curr)" using pos assms(5) by auto
    with False show ?thesis by (auto simp: adjust_eot_def Let_def)
  qed
qed

text \<open>The state after a packet that is no duplicate.\<close>

lemma send_alive_keeps [simp]:
  "expected_eot_ts_ms (send_alive s rx) = expected_eot_ts_ms rx" "now_ts_ms (send_alive s rx) = now_ts_ms rx"
  "idle_ms (send_alive s rx) = idle_ms rx" "rx_nof_packets (send_alive s rx) = rx_nof_packets rx"
  "packet_seq (send_alive s rx) = packet_seq rx" "prev_packet_seq (send_alive s rx) = prev_packet_seq rx"
  "start_ts_ms (send_alive s rx) = start_ts_ms rx"
  by (simp_all add: send_alive_def Let_def)

lemma receive_packet_new:
  assumes "receive_packet dhf metric now p (rx, s, w) = Inr ((rx', s', w'), r)"
    and "packet_seq rx' \<noteq> prev_packet_seq rx"
  shows "\<exists>eot. adjust_eot (mtu (request_meta s)) metric (rx\<lparr>idle_ms := 0, now_ts_ms := now, packet_seq := packet_seq rx',
      prev_packet_seq := packet_seq rx', rx_nof_packets := rx_nof_packets rx + 1\<rparr>) = Inr eot \<and>
    expected_eot_ts_ms rx' = eot \<and> now_ts_ms rx' = now \<and> idle_ms rx' = 0 \<and>
    rx_nof_packets rx' = rx_nof_packets rx + 1 \<and> prev_packet_seq rx' = packet_seq rx'"
  using assms by (auto simp: receive_packet_def Let_def c_bind_eq_Inr split: if_splits prod.splits)

lemma unat_plus_of_nat_le:
  "start \<le> now \<Longrightarrow> n \<le> unat now - unat start \<Longrightarrow> unat (start + of_nat n) = unat start + n" for start now :: u32
proof -
  assume a: "start \<le> now" "n \<le> unat now - unat start"
  have "unat (of_nat n :: u32) = n" using a(2) unat_lt_u32 [of now] by (intro unat_of_nat_u32) linarith
  then show ?thesis using a unat_lt_u32 [of now] by (subst unat_add_u32) (auto simp: word_le_nat_alt)
qed

section \<open>A fast transfer ends early\<close>

text \<open>
  After a packet that is not the last one, the loop replaces the expected end of the transfer by
  the start time plus the total size divided by the throughput so far, rounded down to
  milliseconds. When that is no later than the time already spent - which happens whenever
  packets arrive faster than one per millisecond and few enough are left - the loop ends with
  \<open>DTP_CANCELLED\<close> although the transfer is running well and packets are still to come.\<close>

theorem fast_transfer_cancelled:
  assumes "receive_packet dhf metric now p (rx, s, w) = Inr ((rx', s', w'), None)"
    and "ts = unat (now - start_ts_ms rx)" and "nof = unat (rx_nof_packets rx) + 1" and "c = unat (mtu (request_meta s)) - 8"
    and "8 < mtu (request_meta s)" and "start_ts_ms rx \<le> now" and "0 < ts" and "rx_nof_packets rx < nof_packets metric"
    and "unat (nof_packets metric) * c < 2 ^ 32" and "(c * unat (nof_packets metric)) div (nof * c div ts) \<le> ts"
    and "0 < nof * c div ts" and "packet_seq rx' \<noteq> prev_packet_seq rx"
  shows "receive_loop (Suc n) dhf metric evs k (rx', s', w') = Inr ((rx', s', w'), DTP_CANCELLED)"
proof -
  let ?rx = "rx\<lparr>idle_ms := 0, now_ts_ms := now, packet_seq := packet_seq rx', prev_packet_seq := packet_seq rx',
      rx_nof_packets := rx_nof_packets rx + 1\<rparr>"
  have j: "unat (rx_nof_packets rx + 1) = nof" using assms(3,8) u32_less_not_max unat_add1_u32 by auto
  have "nof * c \<le> unat (nof_packets metric) * c"
    using assms(3,8) by (intro mult_le_mono1) (simp add: word_less_nat_alt)
  then have b: "nof * c < 4294967296" by (rule le_less_trans) (use assms(9) in simp)
  obtain eot where e: "adjust_eot (mtu (request_meta s)) metric ?rx = Inr eot"
      "expected_eot_ts_ms rx' = eot" "now_ts_ms rx' = now" "idle_ms rx' = 0"
    using receive_packet_new [OF assms(1,12)] by auto
  have "eot = start_ts_ms rx + of_nat (expected_duration c (unat (nof_packets metric)) nof ts)"
    using adjust_eot_nat [OF assms(5,4), of ?rx metric ts] e(1) assms(2,7,9,11) b j by simp
  moreover have "expected_duration c (unat (nof_packets metric)) nof ts \<le> ts"
    using assms(10) by (simp add: expected_duration_def)
  moreover have ts: "ts = unat now - unat (start_ts_ms rx)" using assms(2,6) by (simp add: unat_sub_u32)
  ultimately have "unat eot \<le> unat now"
    using unat_plus_of_nat_le [of "start_ts_ms rx" now "expected_duration c (unat (nof_packets metric)) nof ts"] assms(6)
    by (simp add: word_le_nat_alt)
  then have "\<not> now_ts_ms rx' + idle_ms rx' < expected_eot_ts_ms rx'" using e by (simp add: word_less_nat_alt)
  then show ?thesis by (simp add: receive_loop_Suc)
qed

section \<open>An undisturbed transfer is received completely\<close>

text \<open>What the loop does to session and world for a packet that is no duplicate.\<close>

definition deliver :: "('c, 'w) data_hook_fun \<Rightarrow> 'c dtp_t \<times> 'w \<Rightarrow> data_packet \<Rightarrow> ('c dtp_t \<times> 'w) c_result" where
  "deliver dhf sw p = (case sw of (s, w) \<Rightarrow>
     run_data_hook dhf (s\<lparr>bytes_received := bytes_received s + (ucast (pk_length p) - 8)\<rparr>) p w)"

text \<open>
  The client relies on the data hook to change nothing of the session but the hook's own object.
\<close>

locale data_hook =
  fixes dhf :: "('c, 'w) data_hook_fun"
  assumes keeps_session: "dhf f s p w = Inr ((s', w'), b) \<Longrightarrow> \<exists>c. s' = s\<lparr>hooks := (hooks s)\<lparr>hook_ctx := c\<rparr>\<rparr>"
begin

lemma deliver_keeps:
  assumes "deliver dhf (s, w) p = Inr (s', w')"
  shows "request_meta s' = request_meta s \<and> active s' = active s \<and> payload_size s' = payload_size s \<and>
    timeout s' = timeout s \<and> bytes_received s' = bytes_received s + (ucast (pk_length p) - 8) \<and>
    on_end (hooks s') = on_end (hooks s) \<and> on_data_packet (hooks s') = on_data_packet (hooks s) \<and>
    user_context s' = user_context s"
  using assms
  by (auto simp: deliver_def run_data_hook_def c_bind_eq_Inr split: option.splits dest!: keeps_session)

lemma deliver_all_keeps:
  "fold_c (deliver dhf) (s, w) ps = Inr (s', w') \<Longrightarrow>
   request_meta s' = request_meta s \<and> active s' = active s \<and> payload_size s' = payload_size s \<and>
   timeout s' = timeout s \<and> bytes_received s' = bytes_received s + (\<Sum>p \<leftarrow> ps. ucast (pk_length p) - 8) \<and>
   on_end (hooks s') = on_end (hooks s) \<and> user_context s' = user_context s"
proof (induction ps arbitrary: s w)
  case (Cons p ps)
  then obtain s1 w1 where d: "deliver dhf (s, w) p = Inr (s1, w1)" "fold_c (deliver dhf) (s1, w1) ps = Inr (s', w')"
    by (auto simp: c_bind_eq_Inr)
  from deliver_keeps [OF d(1)] Cons.IH [OF d(2)] show ?case by simp
qed simp

end

interpretation default_data: data_hook "default_on_data_packet :: ('c, 'w) data_hook_fun"
proof
  fix f p and s s' :: "'c dtp_t" and w w' :: 'w and b
  assume "default_on_data_packet f s p w = Inr ((s', w'), b)"
  then have "s' = s\<lparr>hooks := (hooks s)\<lparr>hook_ctx := hook_ctx (hooks s)\<rparr>\<rparr>" by (simp add: default_on_data_packet_def)
  then show "\<exists>c. s' = s\<lparr>hooks := (hooks s)\<lparr>hook_ctx := c\<rparr>\<rparr>" by blast
qed

text \<open>
  A transfer on schedule: the packets of a run arrive one after the other, at most one per millisecond on
  average and at least one byte per millisecond, within the range of the clock.
\<close>

definition on_schedule :: "nat \<Rightarrow> nat \<Rightarrow> (nat \<Rightarrow> rx_event) \<Rightarrow> u32 \<Rightarrow> data_packet list \<Rightarrow> bool" where
  "on_schedule c N evs start ps \<longleftrightarrow> unat start + c * N < 4294967296 \<and>
     (\<forall>j < length ps. rx_packet (evs j) = Some (ps ! j) \<and> \<not> rx_stop (evs j) \<and> start \<le> rx_now (evs j) \<and>
        Suc j \<le> unat (rx_now (evs j)) - unat start \<and> unat (rx_now (evs j)) - unat start \<le> Suc j * c)"

definition numbered :: "nat \<Rightarrow> data_packet list \<Rightarrow> bool" where
  "numbered c ps \<longleftrightarrow> (\<forall>j < length ps. unat (pk_offset (ps ! j)) div c = j)"

lemma on_time:
  assumes "0 < j * c div ts" and "j \<le> ts" and "j < N"
  shows "ts < expected_duration c N j ts"
proof -
  define q where "q = j * c div ts"
  have "0 < ts" using assms(1) by (cases ts) auto
  have "q * ts \<le> j * c" unfolding q_def by (rule div_times_less_eq_dividend)
  moreover have "q \<le> c"
  proof -
    have "q \<le> ts * c div ts" unfolding q_def using assms(2) by (intro div_le_mono mult_le_mono1)
    also have "\<dots> = c" using \<open>0 < ts\<close> by simp
    finally show ?thesis .
  qed
  moreover have "Suc j * c \<le> N * c" using assms(3) by (intro mult_le_mono1) simp
  ultimately have "Suc ts * q \<le> c * N" by (simp add: algebra_simps)
  then have "Suc ts \<le> c * N div q" using assms(1) by (simp add: less_eq_div_iff_mult_less_eq q_def)
  then show ?thesis by (simp add: expected_duration_def q_def)
qed

definition rx_at :: "dtp_metrics_t \<Rightarrow> u32 \<Rightarrow> nat \<Rightarrow> rx_state \<Rightarrow> bool" where
  "rx_at metric start j rx \<longleftrightarrow> idle_ms rx = 0 \<and> unat (rx_nof_packets rx) = j \<and> prev_packet_seq rx = of_nat j - 1 \<and>
     start_ts_ms rx = start \<and> now_ts_ms rx < expected_eot_ts_ms rx"

context data_hook
begin

lemma receive_next:
  assumes "rx_at metric start j rx" and "on_schedule c (unat (nof_packets metric)) evs start ps" and "numbered c ps"
    and "j < length ps" and "length ps \<le> unat (nof_packets metric)" and "8 < mtu (request_meta s)"
    and "c = unat (mtu (request_meta s)) - 8" and "deliver dhf (s, w) (ps ! j) = Inr (s', w')"
  shows "\<exists>rx'. receive_packet dhf metric (rx_now (evs j)) (ps ! j) (rx, s, w) = Inr ((rx', s', w'),
      if last_packet metric \<le> of_nat j then Some (if bytes_received s' = payload_size s' then DTP_OK else DTP_CANCELLED)
      else None) \<and> packet_seq rx' = of_nat j \<and>
    (Suc j < unat (nof_packets metric) \<longrightarrow> rx_at metric start (Suc j) rx')"
proof -
  let ?p = "ps ! j" and ?now = "rx_now (evs j)" and ?N = "unat (nof_packets metric)" and ?m = "mtu (request_meta s)"
  let ?rx = "rx\<lparr>idle_ms := 0, now_ts_ms := ?now, packet_seq := of_nat j, prev_packet_seq := of_nat j,
      rx_nof_packets := rx_nof_packets rx + 1\<rparr>"
  let ?s = "s\<lparr>bytes_received := bytes_received s + (ucast (pk_length ?p) - 8)\<rparr>"
  let ?ts = "unat (?now - start)"
  have rx: "idle_ms rx = 0" "unat (rx_nof_packets rx) = j" "prev_packet_seq rx = of_nat j - 1" "start_ts_ms rx = start"
    using assms(1) by (simp_all add: rx_at_def)
  have sch: "unat start + c * ?N < 4294967296" "start \<le> ?now" "Suc j \<le> ?ts" "?ts \<le> Suc j * c"
    using assms(2,4) by (simp_all add: on_schedule_def unat_sub_u32)
  have jN: "Suc j \<le> ?N" using assms(4,5) by simp
  have "unat (chunk64 ?m) = c" using assms(6,7) by (simp add: unat_chunk64 word_less_nat_alt word_le_nat_alt)
  then have "unat (ucast (pk_offset ?p) div chunk64 ?m :: u64) = j"
    using assms(3,4) by (simp add: unat_div numbered_def)
  then have "unat (ucast (ucast (pk_offset ?p) div chunk64 ?m :: u64) :: u32) = j"
    using jN unat_lt_u32 [of "nof_packets metric"] by (subst unat_ucast_u64_u32) simp_all
  then have seq: "(ucast (ucast (pk_offset ?p) div chunk64 ?m :: u64) :: u32) = of_nat j" by (metis of_nat_unat_u32)
  have nof: "unat (rx_nof_packets rx + 1) = Suc j"
    using unat_add_u32 [of "rx_nof_packets rx" 1] rx(2) jN unat_lt_u32 [of "nof_packets metric"] by simp
  have "Suc j * c \<le> ?N * c" using jN by (rule mult_le_mono1)
  moreover have Nc: "?N * c < 4294967296" using sch(1) by (simp add: mult.commute)
  ultimately have jc: "Suc j * c < 4294967296" by (rule le_less_trans)
  have pos: "0 < ?ts" "0 < Suc j * c div ?ts" using sch(3,4) by (auto simp: div_greater_zero_iff)
  have eot: "adjust_eot ?m metric ?rx = Inr (start + of_nat (expected_duration c ?N (Suc j) ?ts))"
    using adjust_eot_nat [OF assms(6,7), of ?rx metric ?ts] nof jc Nc pos rx(4) by simp
  have run: "run_data_hook dhf ?s ?p w = Inr (s', w')" using assms(8) by (simp add: deliver_def)
  let ?rx' = "send_alive ?s (?rx\<lparr>expected_eot_ts_ms := start + of_nat (expected_duration c ?N (Suc j) ?ts)\<rparr>)"
  have step: "receive_packet dhf metric ?now ?p (rx, s, w) = Inr ((?rx', s', w'),
      if last_packet metric \<le> of_nat j then Some (if bytes_received s' = payload_size s' then DTP_OK else DTP_CANCELLED)
      else None)"
    using chunk64_nonzero [OF assms(6)] seq rx(3) eot run by (simp add: receive_packet_def Let_def)
  have "rx_at metric start (Suc j) ?rx'" if "Suc j < ?N"
  proof -
    have late: "?ts < expected_duration c ?N (Suc j) ?ts" using on_time [OF pos(2) sch(3) that] .
    have "expected_duration c ?N (Suc j) ?ts \<le> c * ?N" by (simp add: expected_duration_def)
    then have "unat (start + of_nat (expected_duration c ?N (Suc j) ?ts)) = unat start + expected_duration c ?N (Suc j) ?ts"
      using sch(1) by (subst unat_add_u32) (simp_all add: unat_of_nat_u32)
    then have "?now < start + of_nat (expected_duration c ?N (Suc j) ?ts)"
      using late sch(2) by (simp add: word_less_nat_alt word_le_nat_alt unat_sub_u32)
    then show ?thesis using nof rx(4) by (simp add: rx_at_def)
  qed
  with step show ?thesis by (intro exI [of _ ?rx']) simp
qed

lemma receive_loop_packet:
  assumes "rx_at metric start j rx" and "active s" and "\<not> rx_stop (evs j)" and "rx_packet (evs j) = Some p"
    and "j < unat (nof_packets metric)"
  shows "receive_loop (Suc n) dhf metric evs j (rx, s, w) =
    c_bind (receive_packet dhf metric (rx_now (evs j)) p (rx, s, w)) (\<lambda>(st, r).
      case r of Some res \<Rightarrow> Inr (st, res) | None \<Rightarrow> receive_loop n dhf metric evs (Suc j) st)"
  using assms by (cases s) (simp add: receive_loop_Suc Let_def rx_at_def word_less_nat_alt)

lemma receive_prefix:
  assumes "rx_at metric start 0 rx" and "on_schedule c (unat (nof_packets metric)) evs start ps" and "numbered c ps"
    and "length ps \<le> unat (nof_packets metric)" and "8 < mtu (request_meta s)"
    and "c = unat (mtu (request_meta s)) - 8" and "active s" and "fold_c (deliver dhf) (s, w) ps = Inr sw"
  shows "k \<le> length ps \<Longrightarrow> k \<le> unat (last_packet metric) \<Longrightarrow> k < unat (nof_packets metric) \<Longrightarrow>
    \<exists>rx' s' w'. receive_loop (n + k) dhf metric evs 0 (rx, s, w) = receive_loop n dhf metric evs k (rx', s', w') \<and>
      rx_at metric start k rx' \<and> fold_c (deliver dhf) (s, w) (take k ps) = Inr (s', w')"
proof (induction k arbitrary: n)
  case 0
  show ?case using assms(1) by (intro exI [of _ rx] exI [of _ s] exI [of _ w]) simp
next
  case (Suc k)
  then obtain rx1 s1 w1 where i: "receive_loop (Suc n + k) dhf metric evs 0 (rx, s, w) = receive_loop (Suc n) dhf metric evs k (rx1, s1, w1)"
      "rx_at metric start k rx1" "fold_c (deliver dhf) (s, w) (take k ps) = Inr (s1, w1)"
    using Suc.IH [of "Suc n"] by auto
  have k: "k < length ps" using Suc.prems(1) by simp
  then have "ps = take k ps @ ps ! k # drop (Suc k) ps" by (rule id_take_nth_drop)
  then have "fold_c (deliver dhf) (s, w) (take k ps @ ps ! k # drop (Suc k) ps) = Inr sw" using assms(8) by simp
  then obtain s2 w2 where d: "deliver dhf (s1, w1) (ps ! k) = Inr (s2, w2)"
    using i(3) by (auto simp: fold_c_append c_bind_eq_Inr simp del: append_take_drop_id)
  have kp: "request_meta s1 = request_meta s" "active s1" using deliver_all_keeps [OF i(3)] assms(7) by simp_all
  obtain rx2 where r: "receive_packet dhf metric (rx_now (evs k)) (ps ! k) (rx1, s1, w1) = Inr ((rx2, s2, w2),
      if last_packet metric \<le> of_nat k then Some (if bytes_received s2 = payload_size s2 then DTP_OK else DTP_CANCELLED)
      else None)" "rx_at metric start (Suc k) rx2"
    using receive_next [OF i(2) assms(2,3) k assms(4) _ _ d] assms(5,6) kp Suc.prems(3) by auto
  have "\<not> last_packet metric \<le> of_nat k"
    using Suc.prems(2) unat_lt_u32 [of "last_packet metric"] by (simp add: word_le_nat_alt unat_of_nat_u32)
  then have "receive_loop (Suc n) dhf metric evs k (rx1, s1, w1) = receive_loop n dhf metric evs (Suc k) (rx2, s2, w2)"
    using receive_loop_packet [OF i(2) kp(2), of evs "ps ! k" n w1] r(1) assms(2) k Suc.prems(3)
    by (simp add: on_schedule_def)
  moreover have "fold_c (deliver dhf) (s, w) (take (Suc k) ps) = Inr (s2, w2)"
    using i(3) d k by (simp add: take_Suc_conv_app_nth fold_c_append)
  ultimately show ?case using i(1) r(2) by auto
qed

lemma receive_all:
  assumes "rx_at metric start 0 rx" and "on_schedule c (unat (nof_packets metric)) evs start ps" and "numbered c ps"
    and "length ps \<le> unat (nof_packets metric)" and "8 < mtu (request_meta s)"
    and "c = unat (mtu (request_meta s)) - 8" and "active s" and "fold_c (deliver dhf) (s, w) ps = Inr (s', w')"
    and "length ps = Suc (unat (last_packet metric))" and "length ps \<le> n"
  shows "\<exists>rx'. receive_loop n dhf metric evs 0 (rx, s, w) =
    Inr ((rx', s', w'), if bytes_received s' = payload_size s' then DTP_OK else DTP_CANCELLED)"
proof -
  let ?k = "unat (last_packet metric)"
  obtain n' where n': "n = Suc n' + ?k" using assms(9,10) by (metis add.commute le_Suc_ex add_Suc_shift)
  obtain rx1 s1 w1 where i: "receive_loop n dhf metric evs 0 (rx, s, w) = receive_loop (Suc n') dhf metric evs ?k (rx1, s1, w1)"
      "rx_at metric start ?k rx1" "fold_c (deliver dhf) (s, w) (take ?k ps) = Inr (s1, w1)"
    using receive_prefix [OF assms(1-8), of ?k "Suc n'"] assms(4,9) unfolding n' by auto
  have k: "?k < length ps" using assms(9) by simp
  then have "ps = take ?k ps @ [ps ! ?k]" using assms(9) by (metis take_Suc_conv_app_nth take_all order_refl)
  then have "fold_c (deliver dhf) (s, w) (take ?k ps @ [ps ! ?k]) = Inr (s', w')" using assms(8) by simp
  then have d: "deliver dhf (s1, w1) (ps ! ?k) = Inr (s', w')" by (simp add: fold_c_append i(3) c_bind_eq_Inr)
  have kp: "request_meta s1 = request_meta s" "active s1" using deliver_all_keeps [OF i(3)] assms(7) by simp_all
  obtain rx2 where "receive_packet dhf metric (rx_now (evs ?k)) (ps ! ?k) (rx1, s1, w1) = Inr ((rx2, s', w'),
      Some (if bytes_received s' = payload_size s' then DTP_OK else DTP_CANCELLED))"
    using receive_next [OF i(2) assms(2,3) k assms(4) _ _ d] assms(5,6) kp by auto
  then show ?thesis
    using receive_loop_packet [OF i(2) kp(2), of evs "ps ! ?k" n' w1] i(1) assms(2,4) k
    by (auto simp: on_schedule_def)
qed

end

section \<open>Metrics of a request for the whole payload\<close>

definition whole :: "dtp_meta_req_t \<Rightarrow> bool" where
  "whole req \<longleftrightarrow> nof_intervals req = 1 \<and> intervals req ! 0 = \<lparr>iv_start = 0, iv_end = UINT32_MAX\<rparr>"

lemma metrics_whole:
  assumes "servable req" and "whole req" and "compute_dtp_metrics req psize = Inr mt" and "psize \<noteq> UINT32_MAX"
  shows "unat (last_packet mt) = unat psize div (unat (mtu req) - 8) \<and>
    unat (nof_packets mt) = Suc (unat psize div (unat (mtu req) - 8)) \<and> 1000 \<le> unat (total_duration_ms mt)"
proof -
  have m: "8 < mtu req" "length (intervals req) = 8" using assms(1) by (simp_all add: servable_def)
  have u: "unat (chunk32 (mtu req)) = unat (mtu req) - 8"
    using m(1) by (simp add: unat_chunk32 word_less_nat_alt word_le_nat_alt)
  have d: "unat (psize div chunk32 (mtu req)) = unat psize div (unat (mtu req) - 8)" by (simp add: unat_div u)
  have "unat psize div (unat (mtu req) - 8) \<le> unat psize" by (rule div_le_dividend)
  moreover have "unat psize < 4294967295" using assms(4) unat_lt_u32 [of psize] by (simp add: word_unat_eq_iff)
  ultimately have "unat psize div (unat (mtu req) - 8) < 4294967295" by (rule le_less_trans)
  then have d1: "unat (psize div chunk32 (mtu req) + 1) = Suc (unat psize div (unat (mtu req) - 8))"
    using unat_add_u32 [of "psize div chunk32 (mtu req)" 1] by (simp add: d)
  have tk: "take (unat (nof_intervals req)) (intervals req) = [\<lparr>iv_start = 0, iv_end = UINT32_MAX\<rparr>]"
    using assms(2) m(2) by (cases "intervals req") (simp_all add: whole_def)
  have "nof_packets mt = psize div chunk32 (mtu req) + 1 \<and> last_packet mt = psize div chunk32 (mtu req) \<and>
      1000 \<le> total_duration_ms mt"
    by (rule metrics_shape [OF assms(1), of psize])
      (use assms(2,3) tk in \<open>auto simp: last_seq_def whole_def\<close>)
  with d d1 show ?thesis by (simp add: word_le_nat_alt)
qed

lemma initial_rx_at:
  "unat now + unat (total_duration_ms metric) + 2 * unat (round_time_ms metric) < 4294967296 \<Longrightarrow>
   1000 \<le> unat (total_duration_ms metric) \<Longrightarrow> rx_at metric now 0 (initial_rx metric now)"
proof -
  assume a: "unat now + unat (total_duration_ms metric) + 2 * unat (round_time_ms metric) < 4294967296"
    "1000 \<le> unat (total_duration_ms metric)"
  have "unat (round_time_ms metric * 2) = unat (round_time_ms metric) * 2"
    using a by (subst unat_mult_u32) simp_all
  moreover have "unat (now + total_duration_ms metric) = unat now + unat (total_duration_ms metric)"
    using a by (intro unat_add_u32) simp
  ultimately have "unat (now + total_duration_ms metric + round_time_ms metric * 2) =
      unat now + unat (total_duration_ms metric) + unat (round_time_ms metric) * 2"
    using a by (subst unat_add_u32) simp_all
  with a show ?thesis by (simp add: rx_at_def initial_rx_def word_less_nat_alt)
qed

definition example_metric :: "u32 \<Rightarrow> dtp_metrics_t" where
  "example_metric r = \<lparr>round_time_ms = 1000, packets_per_round = 1, resulting_throughput = r, nof_packets = 2,
     last_packet = 1, total_duration_ms = 2000\<rparr>"

lemma example_metrics:
  "p = 1500 \<or> p = 1024 \<Longrightarrow> \<exists>r. compute_dtp_metrics (whole_request 1000 1032) p = Inr (example_metric r)"
proof -
  assume p: "p = 1500 \<or> p = 1024"
  have "optimise_round (Suc 9) 1000 1024 1000 1 1 = Inr 10" using rate_error_zero [of 1000] by (subst optimise_round.simps(2)) simp
  then have "optimise_round 10 1000 1024 1000 1 1 = Inr 10" by simp
  with p show ?thesis
    by (auto simp: compute_dtp_metrics_def whole_request_def chunk32_def initial_round_def count_step_def
      interval_end_def example_metric_def simp del: optimise_round.simps)
qed

section \<open>Properties of an undisturbed transfer\<close>

text \<open>
  C9. A transfer of a whole payload that is not cut exactly at packet boundaries, whose packets arrive
  completely, in order and on schedule (at most one per millisecond, at least a byte per
  millisecond), ends with \<open>DTP_OK\<close>: every packet has been handed to the data hook exactly once, in
  order, and all bytes are counted. The data hook may be any that leaves the session alone.\<close>

theorem scheduled_transfer_received:
  assumes "data_hook dhf" and "servable (request_meta s)" and "whole (request_meta s)" and "active s"
    and "compute_dtp_metrics (request_meta s) (payload_size s) = Inr metric" and "payload_size s \<noteq> UINT32_MAX"
    and "c = unat (mtu (request_meta s)) - 8" and "unat (payload_size s) mod c \<noteq> 0"
    and "unat now + unat (total_duration_ms metric) + 2 * unat (round_time_ms metric) < 4294967296"
    and "length ps = Suc (unat (payload_size s) div c)" and "numbered c ps" and "on_schedule c (length ps) evs now ps"
    and "fold_c (deliver dhf) (s, w) ps = Inr (s', w')"
    and "bytes_received s + (\<Sum>p \<leftarrow> ps. ucast (pk_length p) - 8) = payload_size s" and "length ps \<le> fuel"
  shows "\<exists>rx'. receive_loop fuel dhf metric evs 0 (initial_rx metric now, s, w) = Inr ((rx', s', w'), DTP_OK) \<and>
    bytes_received s' = payload_size s"
proof -
  have mt: "unat (last_packet metric) = unat (payload_size s) div c"
      "unat (nof_packets metric) = length ps" "1000 \<le> unat (total_duration_ms metric)"
    using metrics_whole [OF assms(2,3,5,6)] assms(7,10) by simp_all
  have m: "8 < mtu (request_meta s)" using assms(2) by (simp add: servable_def)
  obtain rx' where "receive_loop fuel dhf metric evs 0 (initial_rx metric now, s, w) =
      Inr ((rx', s', w'), if bytes_received s' = payload_size s' then DTP_OK else DTP_CANCELLED)"
    using data_hook.receive_all [OF assms(1) initial_rx_at [OF assms(9) mt(3)], of c evs ps s w s' w' fuel] mt m assms
    by auto
  with data_hook.deliver_all_keeps [OF assms(1,13)] assms(14) show ?thesis by auto
qed

text \<open>Two packets of a payload of 1500 bytes, one millisecond apart, and silence.\<close>

definition two_packets :: "data_packet list" where
  "two_packets = [\<lparr>pk_length = 1032, pk_offset = 0, pk_session = 0, pk_data = replicate 1024 1\<rparr>,
     \<lparr>pk_length = 484, pk_offset = 1024, pk_session = 0, pk_data = replicate 476 2\<rparr>]"

definition packets_then_silence :: "data_packet list \<Rightarrow> nat \<Rightarrow> rx_event" where
  "packets_then_silence ps j = \<lparr>rx_stop = False, rx_packet = if j < length ps then Some (ps ! j) else None,
     rx_now = of_nat (Suc j)\<rparr>"

definition example_session :: "unit dtp_t" where
  "example_session = zero_session\<lparr>active := True, payload_size := 1500, request_meta := whole_request 1000 1032\<rparr>"

lemma example_session_ok: "servable (request_meta example_session)" "whole (request_meta example_session)" "active example_session"
  by (simp_all add: example_session_def servable_def whole_def whole_request_def)

lemma example_deliver:
  "\<exists>s'. fold_c (deliver default_on_data_packet) (example_session\<lparr>payload_size := z\<rparr>, ()) ps = Inr (s', ())"
proof -
  have "\<exists>s'. fold_c (deliver default_on_data_packet) (s, ()) ps = Inr (s', ())" if "on_data_packet (hooks s) = None" for s :: "unit dtp_t"
    using that by (induction ps arbitrary: s) (simp_all add: deliver_def run_data_hook_def)
  then show ?thesis by (simp add: example_session_def zero_session_def zero_hooks_def)
qed

theorem scheduled_transfer_received_witness:
  "\<exists>metric rx' s'. receive_loop 2 default_on_data_packet metric (packets_then_silence two_packets) 0
      (initial_rx metric 0, example_session, ()) = Inr ((rx', s', ()), DTP_OK) \<and> bytes_received s' = 1500"
proof -
  have z: "example_session\<lparr>payload_size := 1500\<rparr> = example_session" by (simp add: example_session_def)
  obtain r where "compute_dtp_metrics (whole_request 1000 1032) 1500 = Inr (example_metric r)" using example_metrics by blast
  then have m: "compute_dtp_metrics (request_meta example_session) (payload_size example_session) = Inr (example_metric r)"
    by (simp add: example_session_def)
  obtain s' where f: "fold_c (deliver default_on_data_packet) (example_session, ()) two_packets = Inr (s', ())"
    using example_deliver [of 1500 two_packets] z by auto
  have l: "length two_packets = 2" by (simp add: two_packets_def)
  have sch: "numbered 1024 two_packets" "on_schedule 1024 (length two_packets) (packets_then_silence two_packets) 0 two_packets"
    by (simp_all add: numbered_def on_schedule_def two_packets_def packets_then_silence_def All_less_Suc)
  have "\<exists>rx'. receive_loop 2 default_on_data_packet (example_metric r) (packets_then_silence two_packets) 0
      (initial_rx (example_metric r) 0, example_session, ()) = Inr ((rx', s', ()), DTP_OK) \<and>
      bytes_received s' = payload_size example_session"
  proof (rule scheduled_transfer_received [OF default_data.data_hook_axioms example_session_ok m _ _ _ _ _ sch f])
    show "bytes_received example_session + (\<Sum>p\<leftarrow>two_packets. ucast (pk_length p) - 8) = payload_size example_session"
      by (simp add: two_packets_def example_session_def zero_session_def)
  qed (simp_all add: l, simp_all add: example_session_def whole_request_def example_metric_def)
  then show ?thesis by (auto simp: example_session_def)
qed

text \<open>
  C37. When the payload ends exactly at a packet boundary, the same transfer does not succeed: the
  metrics count a packet that does not exist, the client waits for it, and gives up with
  \<open>DTP_CANCELLED\<close> although it has received every byte.\<close>

theorem boundary_transfer_cancelled:
  assumes "data_hook dhf" and "servable (request_meta s)" and "whole (request_meta s)" and "active s"
    and "compute_dtp_metrics (request_meta s) (payload_size s) = Inr metric" and "payload_size s \<noteq> UINT32_MAX"
    and "c = unat (mtu (request_meta s)) - 8" and "unat (payload_size s) mod c = 0"
    and "unat now + unat (total_duration_ms metric) + 2 * unat (round_time_ms metric) < 4294967296"
    and "length ps = unat (payload_size s) div c" and "numbered c ps" and "on_schedule c (Suc (length ps)) evs now ps"
    and "\<And>j. length ps \<le> j \<Longrightarrow> rx_packet (evs j) = None"
    and "fold_c (deliver dhf) (s, w) ps = Inr (s', w')" and "length ps + 25501 \<le> fuel"
    and "bytes_received s + (\<Sum>p \<leftarrow> ps. ucast (pk_length p) - 8) = payload_size s"
  shows "\<exists>rx' a. receive_loop fuel dhf metric evs 0 (initial_rx metric now, s, w) = Inr ((rx', s'\<lparr>active := a\<rparr>, w'), DTP_CANCELLED) \<and>
    bytes_received s' = payload_size s'"
proof -
  have mt: "unat (last_packet metric) = length ps" "unat (nof_packets metric) = Suc (length ps)"
      "1000 \<le> unat (total_duration_ms metric)"
    using metrics_whole [OF assms(2,3,5,6)] assms(7,10) by simp_all
  have m: "8 < mtu (request_meta s)" using assms(2) by (simp add: servable_def)
  define n where "n = fuel - length ps"
  have n: "fuel = n + length ps" "25501 \<le> n" using assms(15) by (simp_all add: n_def)
  obtain rx' where p: "receive_loop fuel dhf metric evs 0 (initial_rx metric now, s, w) = receive_loop n dhf metric evs (length ps) (rx', s', w')"
      "rx_at metric now (length ps) rx'"
    using data_hook.receive_prefix [OF assms(1) initial_rx_at [OF assms(9) mt(3)], of c evs ps s w "(s', w')" "length ps" n]
      mt m assms n by auto
  have k: "payload_size s' = payload_size s" "bytes_received s' = payload_size s" "timeout s' = timeout s"
    using data_hook.deliver_all_keeps [OF assms(1,14)] assms(16) by auto
  have "unat (timeout s') * 1000 < 25501 * 10" using unat_lt_u8 [of "timeout s'"] by simp
  then have "unat (timeout s') * 1000 < n * 10" using n(2) by linarith
  then obtain rx2 a where "receive_loop n dhf metric evs (length ps) (rx', s', w') = Inr ((rx2, s'\<lparr>active := a\<rparr>, w'), DTP_CANCELLED)"
    using silent_loop_ends [of "length ps" evs metric "length ps" rx' s' n dhf w'] round_time_bound [OF assms(2,5)] assms(13) p(2)
    by (auto simp: rx_at_def)
  with p(1) k show ?thesis by auto
qed

theorem boundary_transfer_cancelled_witness:
  "\<exists>metric rx' s'. receive_loop 25502 default_on_data_packet metric (packets_then_silence (take 1 two_packets)) 0
      (initial_rx metric 0, example_session\<lparr>payload_size := 1024\<rparr>, ()) = Inr ((rx', s', ()), DTP_CANCELLED) \<and>
    bytes_received s' = payload_size s'"
proof -
  let ?s = "example_session\<lparr>payload_size := 1024\<rparr>" and ?ps = "take 1 two_packets"
  obtain r where "compute_dtp_metrics (whole_request 1000 1032) 1024 = Inr (example_metric r)" using example_metrics by blast
  then have m: "compute_dtp_metrics (request_meta ?s) (payload_size ?s) = Inr (example_metric r)"
    by (simp add: example_session_def)
  have ok: "servable (request_meta ?s)" "whole (request_meta ?s)" "active ?s" using example_session_ok by simp_all
  obtain s' where f: "fold_c (deliver default_on_data_packet) (?s, ()) ?ps = Inr (s', ())"
    using example_deliver [of 1024 ?ps] by auto
  have l: "length ?ps = 1" by (simp add: two_packets_def)
  have sch: "numbered 1024 ?ps" "on_schedule 1024 (Suc (length ?ps)) (packets_then_silence ?ps) 0 ?ps"
    by (simp_all add: numbered_def on_schedule_def two_packets_def packets_then_silence_def)
  have "\<exists>rx' a. receive_loop 25502 default_on_data_packet (example_metric r) (packets_then_silence ?ps) 0
      (initial_rx (example_metric r) 0, ?s, ()) = Inr ((rx', s'\<lparr>active := a\<rparr>, ()), DTP_CANCELLED) \<and>
      bytes_received s' = payload_size s'"
  proof (rule boundary_transfer_cancelled [OF default_data.data_hook_axioms ok m _ _ _ _ _ sch _ f])
    show "bytes_received ?s + (\<Sum>p\<leftarrow>?ps. ucast (pk_length p) - 8) = payload_size ?s"
      by (simp add: two_packets_def example_session_def zero_session_def)
    show "rx_packet (packets_then_silence ?ps j) = None" if "length ?ps \<le> j" for j
      using that l by (auto simp: packets_then_silence_def)
  qed (simp_all only: l, simp_all add: example_session_def whole_request_def example_metric_def)
  then show ?thesis by force
qed

section \<open>An environment, and an example of haste\<close>

definition example_env :: xfer_env where
  "example_env = \<lparr>xe_conn = Some 3, xe_buffer = True,
     xe_resp = Some \<lparr>resp_size_in_bytes = 1500, resp_total_payload_size = 1500\<rparr>, xe_start = 0, xe_bind = True, xe_now = 0,
     xe_rx = packets_then_silence two_packets\<rparr>"

text \<open>Four of five packets within a millisecond.\<close>

theorem fast_transfer_cancelled_witness:
  "\<exists>rx' s'. receive_packet default_on_data_packet \<lparr>round_time_ms = 100, packets_per_round = 100,
      resulting_throughput = 0, nof_packets = 5, last_packet = 4, total_duration_ms = 1000\<rparr> 1
      \<lparr>pk_length = 1032, pk_offset = 3072, pk_session = 0, pk_data = replicate 1024 0\<rparr>
      (\<lparr>packet_seq = 2, prev_packet_seq = 2, idle_ms = 0, now_ts_ms = 1, rx_nof_packets = 3,
        expected_eot_ts_ms = 1, start_ts_ms = 0, last_alive = 0, rx_alives = []\<rparr>, example_session, ()) = Inr ((rx', s', ()), None) \<and>
    rx_nof_packets rx' = 4 \<and>
    receive_loop 1 default_on_data_packet \<lparr>round_time_ms = 100, packets_per_round = 100,
      resulting_throughput = 0, nof_packets = 5, last_packet = 4, total_duration_ms = 1000\<rparr> (packets_then_silence []) 0 (rx', s', ()) =
      Inr ((rx', s', ()), DTP_CANCELLED)"
proof -
  let ?mt = "\<lparr>round_time_ms = 100, packets_per_round = 100,
      resulting_throughput = 0, nof_packets = 5, last_packet = 4, total_duration_ms = 1000\<rparr>"
  let ?rx = "\<lparr>packet_seq = 2, prev_packet_seq = 2, idle_ms = 0, now_ts_ms = 1, rx_nof_packets = 3,
        expected_eot_ts_ms = 1, start_ts_ms = 0, last_alive = 0, rx_alives = []\<rparr>"
  let ?p = "\<lparr>pk_length = 1032, pk_offset = 3072, pk_session = 0, pk_data = replicate 1024 0\<rparr>"
  have "\<exists>rx' s'. receive_packet default_on_data_packet ?mt 1 ?p (?rx, example_session, ()) = Inr ((rx', s', ()), None) \<and>
      rx_nof_packets rx' = 4 \<and> packet_seq rx' = 3"
    by (simp add: receive_packet_def Let_def example_session_def whole_request_def chunk64_def adjust_eot_def
        send_alive_def run_data_hook_def zero_session_def zero_hooks_def)
  then obtain rx' s' where r: "receive_packet default_on_data_packet ?mt 1 ?p (?rx, example_session, ()) = Inr ((rx', s', ()), None)"
      "rx_nof_packets rx' = 4" "packet_seq rx' = 3" by blast
  have "receive_loop (Suc 0) default_on_data_packet ?mt (packets_then_silence []) 0 (rx', s', ()) = Inr ((rx', s', ()), DTP_CANCELLED)"
    by (rule fast_transfer_cancelled [OF r(1) refl refl refl])
      (simp_all add: example_session_def whole_request_def r(3))
  with r show ?thesis by auto
qed

end
