(* ===== verification/Client_Sessions.thy ===== *)
theory Client_Sessions
  imports Client_Correct
begin

text \<open>
  The client and the session pool: what \<open>dtp_prepare_session\<close> hands out, which errors reach the caller,
  and that \<open>dtp_client_main\<close> gives back every session it does not pass on.
\<close>

section \<open>Setting up a session\<close>

lemma set_opts_fresh:
  "set_opts s (fresh_opts a) = Inr (s\<lparr>remote_node := ucast (pa_server a), timeout := pa_timeout a,
     request_meta := (request_meta s)\<lparr>throughput := pa_max_throughput a, payload_id := pa_payload_id a,
       mtu := pa_mtu a, session_id := pa_session_id a\<rparr>\<rparr>, DTP_OK)"
  by (simp add: fresh_opts_def)

lemma held_put_session: "i < length (static_sessions g) \<Longrightarrow> held (put_session i s g) = held g"
  by (auto simp: held_def put_session_def nth_list_update)

lemma held_world [simp]: "held (g\<lparr>world := w\<rparr>) = held g" "held (g\<lparr>csp_closed := c\<rparr>) = held g"
  by (simp_all add: held_def)

lemma pool_inv_put_held:
  "pool_inv g \<Longrightarrow> i \<in> held g \<Longrightarrow> pool_inv (put_session i s g)"
  using pool_inv_work [where g = g and i = i and s = s and w = "world g" and e = "last_error g"] by (rule pool_inv_cong) simp_all

lemma pool_inv_world [simp]: "pool_inv (g\<lparr>world := w\<rparr>) = pool_inv g" "pool_inv (g\<lparr>csp_closed := c\<rparr>) = pool_inv g"
  by (simp_all add: pool_inv_def)

lemma deref_put [simp]: "i < length (static_sessions g) \<Longrightarrow> deref (put_session i s g) (Some i) = Inr s"
  by (simp add: deref_def put_session_def)

lemma held_lt: "i \<in> held g \<Longrightarrow> i < length (static_sessions g)"
  by (simp add: held_def)

text \<open>What \<open>dtp_prepare_session\<close> does to the pool: it keeps at most the session it returns.\<close>

lemma give_up_held:
  assumes "pool_inv g" and "give_up hf g (Some i) = Inr (g', h)"
  shows "h = None \<and> pool_inv g' \<and> held g' = held g - {i}"
proof -
  obtain r where "dtp_release_session hf g (Some i) = Inr (g', r)" "h = None"
    using assms(2) by (auto simp: give_up_def c_bind_eq_Inr)
  with assms(1) show ?thesis using pool_inv_release held_release by blast
qed

lemma start_download_held:
  assumes "pool_inv g" and "i \<in> held g"
  shows "pool_inv (fst (start_download a g i s)) \<and> held (fst (start_download a g i s)) = held g \<and>
    snd (start_download a g i s) = Some i"
  using assms by (simp add: start_download_def pool_inv_put_held held_put_session held_lt)

lemma fresh_download_eq:
  "fresh_download hf a g i s = Inr (start_download a g i (s\<lparr>remote_node := ucast (pa_server a), timeout := pa_timeout a,
     request_meta := (request_meta s)\<lparr>throughput := pa_max_throughput a, payload_id := pa_payload_id a,
       mtu := pa_mtu a, session_id := pa_session_id a\<rparr>\<rparr>))"
  by (simp add: fresh_download_def set_opts_fresh)

lemma prepare_outcomes:
  assumes "dtp_prepare_session dh hf a g = Inr (g', h)" and "dtp_acquire_session dh g = (g1, Some i)"
  shows "(\<exists>v s. start_download a (g1\<lparr>world := v\<rparr>) i s = (g', h)) \<or>
    (\<exists>v s. give_up hf (put_session i s (g1\<lparr>world := v\<rparr>)) (Some i) = Inr (g', h))"
proof -
  obtain s0 where d: "deref g1 (Some i) = Inr s0"
    using assms by (auto simp: dtp_prepare_session_def c_bind_eq_Inr)
  show ?thesis
  proof (cases "pa_resume a")
    case False
    with assms d obtain s where "start_download a (g1\<lparr>world := world g1\<rparr>) i s = (g', h)"
      by (auto simp: dtp_prepare_session_def fresh_download_eq Let_def)
    then show ?thesis by blast
  next
    case True
    with assms d show ?thesis
      by (auto simp: dtp_prepare_session_def fresh_download_eq Let_def c_bind_eq_Inr split: if_splits)
  qed
qed

lemma prepare_session_held:
  assumes "pool_inv g" and "dtp_prepare_session dh hf a g = Inr (g', h)"
  shows "pool_inv g' \<and> (case h of None \<Rightarrow> held g' = held g | Some i \<Rightarrow> i \<notin> held g \<and> held g' = insert i (held g))"
proof (cases "dtp_acquire_session dh g")
  case (Pair g1 r)
  have inv1: "pool_inv (g1\<lparr>world := v\<rparr>)" for v using pool_inv_acquire [OF assms(1), of dh] Pair by simp
  show ?thesis
  proof (cases r)
    case None
    with Pair assms(2) have "h = None" "g' = g1\<lparr>last_error := DTP_ESESSION_NOT_FOUND\<rparr>"
      by (auto simp: dtp_prepare_session_def dtp_set_errno_def give_up_def dtp_release_session_def)
    with None held_acquire(2) [OF assms(1) Pair] inv1 show ?thesis by (simp add: held_def pool_inv_def)
  next
    case (Some i)
    have h1: "i \<notin> held g" "held g1 = insert i (held g)" using held_acquire(1) [OF assms(1) Pair Some] by auto
    then have i: "i \<in> held (g1\<lparr>world := v\<rparr>)" for v by simp
    from prepare_outcomes [OF assms(2)] Pair Some consider
        v s where "start_download a (g1\<lparr>world := v\<rparr>) i s = (g', h)"
      | v s where "give_up hf (put_session i s (g1\<lparr>world := v\<rparr>)) (Some i) = Inr (g', h)" by blast
    then show ?thesis
    proof cases
      case 1
      then show ?thesis using start_download_held [OF inv1 i, of a v s] h1 by simp
    next
      case 2
      with give_up_held [OF pool_inv_put_held [OF inv1 i] 2] h1 show ?thesis
        by (simp add: held_put_session [OF held_lt [OF i]])
    qed
  qed
qed

lemma prepare_fresh:
  assumes "pool_inv g" and "\<not> pa_resume a" and "card (held g) < 5"
  shows "\<exists>g' i s. dtp_prepare_session dh hf a g = Inr (g', Some i) \<and> i \<notin> held g \<and> held g' = insert i (held g) \<and>
    deref g' (Some i) = Inr s \<and> remote_node s = ucast (pa_server a) \<and> timeout s = pa_timeout a \<and>
    user_context s = pa_ctx a \<and> throughput (request_meta s) = pa_max_throughput a \<and>
    payload_id (request_meta s) = pa_payload_id a \<and> mtu (request_meta s) = pa_mtu a \<and>
    session_id (request_meta s) = pa_session_id a \<and> keep_alive_interval (request_meta s) = ucast (pa_keep_alive a) \<and>
    nof_intervals (request_meta s) = 1 \<and> \<not> active s \<and> sess_errno s = DTP_NO_ERR \<and> bytes_received s = 0"
proof -
  obtain g1 r where acq: "dtp_acquire_session dh g = (g1, r)" by fastforce
  then obtain i where r: "r = Some i"
    using pool.acquire_succeeds [OF assms(1), of dh] assms(3) by (auto simp: DTP_NOF_STATIC_SESSIONS_def)
  obtain s where s: "deref g1 (Some i) = Inr s" "\<not> active s" "sess_errno s = DTP_NO_ERR"
      "bytes_received s = 0" "nof_intervals (request_meta s) = 1"
    using acquired_is_clean [OF assms(1)] acq r by blast
  have h1: "i \<notin> held g" "held g1 = insert i (held g)" using held_acquire(1) [OF assms(1) acq r] by auto
  then have l: "i < length (static_sessions g1)" by (intro held_lt) simp
  with s h1 acq r assms(2) show ?thesis
    by (simp add: dtp_prepare_session_def fresh_download_eq start_download_def Let_def
        dtp_session_set_user_ctx_def held_put_session)
qed

lemma prepare_exhausted:
  assumes "pool_inv g" and "dtp_acquire_session dh g = (g1, Some i)" and "deref g1 (Some i) = Inr s0" and "pa_resume a"
    and "dtp_deserialize_session hf (dtp_session_set_user_ctx s0 (pa_ctx a)) (world g1) = Inr ((s, w), DTP_OK)"
    and "sess_errno s = DTP_NO_ERR \<and> (bytes_received s = payload_size s \<or> nof_intervals (request_meta s) = 0)"
    and "run_hook hf (on_release (hooks s)) (s\<lparr>sess_errno := DTP_SESSION_EXHAUSTED\<rparr>) w = Inr (s2, w2)"
    and "sess_errno s2 = DTP_SESSION_EXHAUSTED"
  shows "\<exists>g'. dtp_prepare_session dh hf a g = Inr (g', None) \<and> held g' = held g \<and>
    dtp_errno g' None = Inr DTP_SESSION_EXHAUSTED"
proof -
  have h1: "i \<notin> held g" "held g1 = insert i (held g)" using held_acquire(1) [OF assms(1), of dh g1 "Some i" i] assms(2) by auto
  have l: "i < length (static_sessions g1)" using h1 by (intro held_lt) simp
  have N: "i < DTP_NOF_STATIC_SESSIONS" using held_bounds [OF pool_inv_acquire [OF assms(1), of dh]] h1 assms(2) by auto
  let ?g = "put_session i (s\<lparr>sess_errno := DTP_SESSION_EXHAUSTED\<rparr>) (g1\<lparr>world := w\<rparr>)"
  have d: "deref ?g (Some i) = Inr (s\<lparr>sess_errno := DTP_SESSION_EXHAUSTED\<rparr>)" using l by simp
  obtain g' where r: "dtp_release_session hf ?g (Some i) = Inr (g', DTP_OK)" "last_error g' = DTP_SESSION_EXHAUSTED"
    using assms(6-8) N d by (simp add: dtp_release_session_def put_session_def)
  have "dtp_prepare_session dh hf a g = give_up hf ?g (Some i)"
    using assms(2-6) by (simp add: dtp_prepare_session_def Let_def)
  with r have p: "dtp_prepare_session dh hf a g = Inr (g', None)" by (simp add: give_up_def)
  with prepare_session_held [OF assms(1) p] r(2) show ?thesis
    by (simp add: dtp_errno_def)
qed

section \<open>Properties\<close>

text \<open>
  Without resuming, \<open>dtp_prepare_session\<close> returns a session exactly when the pool has one left; it
  carries the caller's parameters (the server address and the keep-alive interval cut to 16
  bits), asks for one interval, is inactive and without error.\<close>

theorem prepare_fresh_session:
  assumes "pool_reachable dh hf g" and "\<not> pa_resume a" and "card (held g) < 5"
  shows "\<exists>g' i s. dtp_prepare_session dh hf a g = Inr (g', Some i) \<and> i \<notin> held g \<and> held g' = insert i (held g) \<and>
    deref g' (Some i) = Inr s \<and> remote_node s = ucast (pa_server a) \<and> timeout s = pa_timeout a \<and>
    user_context s = pa_ctx a \<and> throughput (request_meta s) = pa_max_throughput a \<and>
    payload_id (request_meta s) = pa_payload_id a \<and> mtu (request_meta s) = pa_mtu a \<and>
    session_id (request_meta s) = pa_session_id a \<and> keep_alive_interval (request_meta s) = ucast (pa_keep_alive a) \<and>
    nof_intervals (request_meta s) = 1 \<and> \<not> active s \<and> sess_errno s = DTP_NO_ERR \<and> bytes_received s = 0"
  using prepare_fresh [OF pool_reachable_inv [OF assms(1)] assms(2,3)] .

definition example_args :: prepare_args where
  "example_args = \<lparr>pa_server = 0x10005, pa_session_id = 7, pa_max_throughput = 1000, pa_timeout = 5, pa_payload_id = 1,
     pa_ctx = Some ''f'', pa_mtu = 1032, pa_resume = False, pa_keep_alive = 500\<rparr>"

theorem prepare_fresh_session_witness:
  "\<exists>g' i s. dtp_prepare_session default_session_hooks default_hook example_args (initial_globals () :: (unit, unit) dtp_globals) =
      Inr (g', Some i) \<and> deref g' (Some i) = Inr s \<and> remote_node s = 5 \<and> mtu (request_meta s) = 1032"
proof -
  have "pool_reachable default_session_hooks default_hook (initial_globals () :: (unit, unit) dtp_globals)"
    by (rule pool_reachable.start)
  from prepare_fresh_session [OF this, of example_args] show ?thesis
    by (auto simp: example_args_def held_initial)
qed

text \<open>
  C38. The caller of \<open>dtp_prepare_session\<close> does not learn why it got no session when the pool is
  empty: the clean-up releases the NULL session, which replaces \<open>DTP_ENOMORE_SESSIONS\<close> by
  \<open>DTP_ESESSION_NOT_FOUND\<close>. A resumed session with nothing left to fetch is given back, and
  \<open>DTP_SESSION_EXHAUSTED\<close> is the global error.\<close>

theorem prepare_session_errors:
  assumes "pool_inv g"
  shows "(card (held g) = 5 \<longrightarrow> (\<exists>g'. dtp_prepare_session dh hf a g = Inr (g', None) \<and> held g' = held g \<and>
      dtp_errno g' None = Inr DTP_ESESSION_NOT_FOUND)) \<and>
    (\<forall>g1 i s0 s w s2 w2. dtp_acquire_session dh g = (g1, Some i) \<and> deref g1 (Some i) = Inr s0 \<and> pa_resume a \<and>
      dtp_deserialize_session hf (dtp_session_set_user_ctx s0 (pa_ctx a)) (world g1) = Inr ((s, w), DTP_OK) \<and>
      sess_errno s = DTP_NO_ERR \<and> (bytes_received s = payload_size s \<or> nof_intervals (request_meta s) = 0) \<and>
      run_hook hf (on_release (hooks s)) (s\<lparr>sess_errno := DTP_SESSION_EXHAUSTED\<rparr>) w = Inr (s2, w2) \<and>
      sess_errno s2 = DTP_SESSION_EXHAUSTED \<longrightarrow>
      (\<exists>g'. dtp_prepare_session dh hf a g = Inr (g', None) \<and> held g' = held g \<and>
        dtp_errno g' None = Inr DTP_SESSION_EXHAUSTED))"
proof (intro conjI impI allI)
  assume "card (held g) = 5"
  then obtain g1 where acq: "dtp_acquire_session dh g = (g1, None)"
    using pool.acquire_succeeds [OF assms, of dh] by (cases "dtp_acquire_session dh g") (auto simp: DTP_NOF_STATIC_SESSIONS_def)
  then have "dtp_prepare_session dh hf a g = Inr (g1\<lparr>last_error := DTP_ESESSION_NOT_FOUND\<rparr>, None)"
    by (simp add: dtp_prepare_session_def dtp_set_errno_def give_up_def dtp_release_session_def)
  with held_acquire(2) [OF assms acq] show "\<exists>g'. dtp_prepare_session dh hf a g = Inr (g', None) \<and> held g' = held g \<and>
      dtp_errno g' None = Inr DTP_ESESSION_NOT_FOUND"
    by (simp add: dtp_errno_def held_def)
next
  fix g1 i s0 s w s2 w2
  assume "dtp_acquire_session dh g = (g1, Some i) \<and> deref g1 (Some i) = Inr s0 \<and> pa_resume a \<and>
      dtp_deserialize_session hf (dtp_session_set_user_ctx s0 (pa_ctx a)) (world g1) = Inr ((s, w), DTP_OK) \<and>
      sess_errno s = DTP_NO_ERR \<and> (bytes_received s = payload_size s \<or> nof_intervals (request_meta s) = 0) \<and>
      run_hook hf (on_release (hooks s)) (s\<lparr>sess_errno := DTP_SESSION_EXHAUSTED\<rparr>) w = Inr (s2, w2) \<and>
      sess_errno s2 = DTP_SESSION_EXHAUSTED"
  then show "\<exists>g'. dtp_prepare_session dh hf a g = Inr (g', None) \<and> held g' = held g \<and>
      dtp_errno g' None = Inr DTP_SESSION_EXHAUSTED"
    using prepare_exhausted [OF assms, of dh g1 i s0 a hf s w s2 w2] by blast
qed

text \<open>
  C23. \<open>dtp_client_main\<close> does not lose sessions: whatever happens in between, afterwards the pool is
  as full as before, except for the one session it hands to a caller who asked for it - which it does
  only with the results \<open>DTP_OK\<close> and \<open>DTP_CANCELLED\<close>.\<close>

theorem client_main_returns_sessions:
  assumes "pool_reachable dh hf g"
    and "dtp_client_main fuel le dh hf dhf xe a want g = Inr (g', res, h)"
  shows "(h = None \<longrightarrow> held g' = held g) \<and>
    (\<forall>i. h = Some i \<longrightarrow> want \<and> res \<noteq> DTP_ERR \<and> i \<notin> held g \<and> held g' = insert i (held g))"
proof -
  have inv: "pool_inv g" using assms(1) by (rule pool_reachable_inv)
  obtain g1 h1 where p: "dtp_prepare_session dh hf (a\<lparr>pa_session_id := 0x900dface\<rparr>) g = Inr (g1, h1)"
    using assms(2) by (auto simp: dtp_client_main_def c_bind_eq_Inr)
  note held1 = prepare_session_held [OF inv p]
  show ?thesis
  proof (cases h1)
    case None
    then have "g' = g1\<lparr>last_error := DTP_ESESSION_NOT_FOUND\<rparr>" "h = None"
      using assms(2) p by (auto simp: dtp_client_main_def dtp_release_session_def)
    with None held1 show ?thesis by (simp add: held_def)
  next
    case (Some i)
    with held1 have h: "pool_inv g1" "i \<notin> held g" "held g1 = insert i (held g)" by simp_all
    then have i: "i \<in> held g1" by simp
    obtain x s' v res0 cs where t: "deref g1 (Some i) = Inr x"
        "dtp_start_transfer fuel le hf dhf xe x (world g1) = Inr ((s', v), res0, cs)"
      using assms(2) p Some by (auto simp: dtp_client_main_def c_bind_eq_Inr)
    define closed where "closed = rev cs @ csp_closed g1"
    have r: "(if (res0 = DTP_OK \<or> res0 = DTP_CANCELLED) \<and> want
        then Inr ((put_session i s' g1)\<lparr>world := v, csp_closed := closed\<rparr>, res0, Some i)
        else c_bind (dtp_release_session hf ((put_session i s' g1)\<lparr>world := v, csp_closed := closed\<rparr>) (Some i))
          (\<lambda>(g', _). Inr (g', res0, None))) = Inr (g', res, h)"
      unfolding closed_def using assms(2) by (simp add: dtp_client_main_def p Some t split del: if_split)
    let ?g = "(put_session i s' g1)\<lparr>world := v, csp_closed := closed\<rparr>"
    have g: "pool_inv ?g" "held ?g = insert i (held g)"
      using pool_inv_put_held [OF h(1) i] held_put_session [OF held_lt [OF i]] h(3) by simp_all
    show ?thesis
    proof (cases "(res0 = DTP_OK \<or> res0 = DTP_CANCELLED) \<and> want")
      case True
      with r g h(2) show ?thesis by auto
    next
      case False
      with r obtain q where "dtp_release_session hf ?g (Some i) = Inr (g', q)" "h = None"
        by (auto simp: c_bind_eq_Inr)
      with held_release [OF g(1)] g(2) h(2) show ?thesis by auto
    qed
  qed
qed

theorem client_main_returns_sessions_witness:
  "\<exists>g' h. dtp_client_main 1 True default_session_hooks default_hook default_on_data_packet
      (example_env\<lparr>xe_conn := None\<rparr>) example_args True (initial_globals () :: (unit, unit) dtp_globals) = Inr (g', DTP_ERR, h) \<and>
    held g' = {}"
proof -
  let ?g = "initial_globals () :: (unit, unit) dtp_globals"
  let ?main = "dtp_client_main 1 True default_session_hooks default_hook default_on_data_packet
      (example_env\<lparr>xe_conn := None\<rparr>) example_args True ?g"
  have reach: "pool_reachable default_session_hooks default_hook ?g" by (rule pool_reachable.start)
  obtain g1 i s where p: "dtp_prepare_session default_session_hooks default_hook (example_args\<lparr>pa_session_id := 0x900dface\<rparr>) ?g = Inr (g1, Some i)"
      "deref g1 (Some i) = Inr s" "held g1 = {i}"
    using prepare_fresh [OF pool_inv_initial, of "example_args\<lparr>pa_session_id := 0x900dface\<rparr>" "()" default_session_hooks default_hook]
    by (auto simp: example_args_def held_initial)
  have i: "i < length (static_sessions g1)" using p(3) by (intro held_lt) simp
  have "\<exists>g' h. ?main = Inr (g', DTP_ERR, h)"
    using p i by (auto simp: dtp_client_main_def dtp_start_transfer_def example_env_def dtp_release_session_def run_hook_def
        default_hook_def deref_def put_session_def c_bind_eq_Inr split: option.split)
  then obtain g' h where m: "?main = Inr (g', DTP_ERR, h)" by blast
  from client_main_returns_sessions [OF reach m] m show ?thesis by (cases h) (auto simp: held_initial)
qed

theorem prepare_session_errors_witness:
  "\<exists>g'. dtp_prepare_session default_session_hooks default_hook example_args
      (fst (acquire_sessions default_session_hooks 5 (initial_globals () :: (unit, unit) dtp_globals))) = Inr (g', None) \<and>
    dtp_errno g' None = Inr DTP_ESESSION_NOT_FOUND"
proof -
  let ?g = "initial_globals () :: (unit, unit) dtp_globals"
  obtain g5 "is" where a: "pool.acquire_many default_session_hooks 5 ?g = (g5, is)" by fastforce
  have m: "pool_inv g5" "card (held g5) = 5"
    using pool.acquire_many_distinct [OF pool_inv_initial a] distinct_card [of "is"]
    by (auto simp: held_initial DTP_NOF_STATIC_SESSIONS_def)
  from prepare_session_errors [OF m(1), of default_session_hooks default_hook example_args] m(2) a show ?thesis
    by (auto simp: acquire_sessions_many)
qed

end
