(* ===== verification/Stdio.thy ===== *)
theory Stdio
  imports Dtp_Prelude
begin

text \<open>
  The part of the C library's \<open>stdio.h\<close> the POSIX code uses: files as lists of bytes under a path,
  streams with a position, opening, seeking, reading, writing and closing, and the bytes of an
  integer object in the byte order of the host. A stream pointer is the number of the stream
  (\<open>None\<close> is NULL); numbers are never reused, so that a closed stream stays recognisable. Writing
  succeeds; whether a path can be opened is a parameter of the file system.
\<close>

section \<open>The bytes of an integer object\<close>

fun to_bytes :: "nat \<Rightarrow> nat \<Rightarrow> u8 list" where
  "to_bytes 0 k = []"
| "to_bytes (Suc n) k = of_nat (k mod 256) # to_bytes n (k div 256)"

fun from_bytes :: "u8 list \<Rightarrow> nat" where
  "from_bytes [] = 0"
| "from_bytes (b # bs) = unat b + 256 * from_bytes bs"

text \<open>\<open>le\<close>: the host is little-endian.\<close>

definition host_bytes :: "bool \<Rightarrow> ('w::len) word \<Rightarrow> u8 list" where
  "host_bytes le w = (let bs = to_bytes (size w div 8) (unat w) in if le then bs else rev bs)"

definition host_value :: "bool \<Rightarrow> u8 list \<Rightarrow> ('w::len) word" where
  "host_value le bs = of_nat (from_bytes (if le then bs else rev bs))"

section \<open>Files and streams\<close>

record stream =
  st_path :: string
  st_pos :: nat

type_synonym file_ptr = "nat option"

record file_system =
  contents :: "string \<Rightarrow> u8 list option"
  may_open :: "string \<Rightarrow> bool"
  streams :: "nat \<Rightarrow> stream option"
  next_stream :: nat

definition file_bytes :: "file_system \<Rightarrow> string \<Rightarrow> u8 list" where
  "file_bytes fs path = (case contents fs path of None \<Rightarrow> [] | Some bs \<Rightarrow> bs)"

definition new_stream :: "file_system \<Rightarrow> string \<Rightarrow> file_system \<times> file_ptr" where
  "new_stream fs path =
     (fs\<lparr>streams := (streams fs)(next_stream fs := Some \<lparr>st_path = path, st_pos = 0\<rparr>),
         next_stream := Suc (next_stream fs)\<rparr>, Some (next_stream fs))"

text \<open>Modes \<open>rb\<close> and \<open>r+b\<close> need an existing file; mode \<open>wb\<close> creates the file or cuts it to length 0.\<close>

definition fopen_existing :: "file_system \<Rightarrow> string \<Rightarrow> file_system \<times> file_ptr" where
  "fopen_existing fs path =
     (if may_open fs path \<and> contents fs path \<noteq> None then new_stream fs path else (fs, None))"

definition fopen_wb :: "file_system \<Rightarrow> string \<Rightarrow> file_system \<times> file_ptr" where
  "fopen_wb fs path =
     (if may_open fs path then new_stream (fs\<lparr>contents := (contents fs)(path := Some [])\<rparr>) path else (fs, None))"

definition stream_of :: "file_system \<Rightarrow> file_ptr \<Rightarrow> (nat \<times> stream) c_result" where
  "stream_of fs f = (case f of None \<Rightarrow> Inl Null_Deref
     | Some n \<Rightarrow> (case streams fs n of None \<Rightarrow> Inl Use_After_Free | Some st \<Rightarrow> Inr (n, st)))"

definition fclose :: "file_system \<Rightarrow> file_ptr \<Rightarrow> file_system c_result" where
  "fclose fs f = c_bind (stream_of fs f) (\<lambda>(n, st). Inr (fs\<lparr>streams := (streams fs)(n := None)\<rparr>))"

text \<open>\<open>fseek\<close> with \<open>SEEK_SET\<close>.\<close>

definition fseek :: "file_system \<Rightarrow> file_ptr \<Rightarrow> nat \<Rightarrow> file_system c_result" where
  "fseek fs f pos = c_bind (stream_of fs f) (\<lambda>(n, st).
     Inr (fs\<lparr>streams := (streams fs)(n := Some (st\<lparr>st_pos := pos\<rparr>))\<rparr>))"

text \<open>Bytes written behind the end leave a gap of zeros; writing no bytes changes nothing.\<close>

definition write_at :: "u8 list \<Rightarrow> nat \<Rightarrow> u8 list \<Rightarrow> u8 list" where
  "write_at bs pos xs = (if xs = [] then bs
     else take pos (bs @ replicate (pos - length bs) 0) @ xs @ drop (pos + length xs) bs)"

definition fwrite :: "file_system \<Rightarrow> file_ptr \<Rightarrow> u8 list \<Rightarrow> file_system c_result" where
  "fwrite fs f xs = c_bind (stream_of fs f) (\<lambda>(n, st).
     Inr (fs\<lparr>contents := (contents fs)(st_path st := Some (write_at (file_bytes fs (st_path st)) (st_pos st) xs)),
             streams := (streams fs)(n := Some (st\<lparr>st_pos := st_pos st + length xs\<rparr>))\<rparr>))"

definition fread :: "file_system \<Rightarrow> file_ptr \<Rightarrow> nat \<Rightarrow> (file_system \<times> u8 list) c_result" where
  "fread fs f len = c_bind (stream_of fs f) (\<lambda>(n, st).
     let got = take len (drop (st_pos st) (file_bytes fs (st_path st)))
     in Inr (fs\<lparr>streams := (streams fs)(n := Some (st\<lparr>st_pos := st_pos st + length got\<rparr>))\<rparr>, got))"

text \<open>
  Writing and reading one integer object. At the end of the file the object stays as it is; after
  an incomplete read its value is indeterminate.
\<close>

definition fwrite_word :: "bool \<Rightarrow> file_system \<Rightarrow> file_ptr \<Rightarrow> ('w::len) word \<Rightarrow> file_system c_result" where
  "fwrite_word le fs f w = fwrite fs f (host_bytes le w)"

definition fread_word :: "bool \<Rightarrow> file_system \<Rightarrow> file_ptr \<Rightarrow> ('w::len) word \<Rightarrow> (file_system \<times> 'w word) c_result" where
  "fread_word le fs f old = c_bind (fread fs f (size old div 8)) (\<lambda>(fs', got).
     if length got = size old div 8 then Inr (fs', host_value le got)
     else if got = [] then Inr (fs', old) else Inl Indeterminate)"

section \<open>Integer objects survive a round trip\<close>

lemma length_to_bytes [simp]: "length (to_bytes n k) = n"
  by (induction n arbitrary: k) simp_all

lemma from_to_bytes: "k < 256 ^ n \<Longrightarrow> from_bytes (to_bytes n k) = k"
proof (induction n arbitrary: k)
  case (Suc n)
  then have "k div 256 < 256 ^ n" by (simp add: less_mult_imp_div_less)
  with Suc.IH show ?case by (simp add: unat_of_nat)
qed simp

lemma length_host_bytes [simp]: "length (host_bytes le w) = size w div 8"
  by (simp add: host_bytes_def Let_def)

lemma host_roundtrip:
  assumes "8 dvd LENGTH('w)"
  shows "host_value le (host_bytes le w) = (w :: 'w::len word)"
proof -
  have "(256::nat) ^ (LENGTH('w) div 8) = 2 ^ LENGTH('w)"
    using assms power_mult [of "2::nat" 8 "LENGTH('w) div 8"] by simp
  then have "unat w < 256 ^ (size w div 8)" by (simp add: word_size)
  then show ?thesis by (simp add: host_bytes_def host_value_def Let_def from_to_bytes)
qed

section \<open>Streams on one file\<close>

text \<open>A file being written from its start, and a file being read.\<close>

definition written :: "file_system \<Rightarrow> nat \<Rightarrow> string \<Rightarrow> u8 list \<Rightarrow> file_system" where
  "written fs n path bs = fs\<lparr>contents := (contents fs)(path := Some bs),
     streams := (streams fs)(n := Some \<lparr>st_path = path, st_pos = length bs\<rparr>)\<rparr>"

definition positioned :: "file_system \<Rightarrow> nat \<Rightarrow> string \<Rightarrow> nat \<Rightarrow> file_system" where
  "positioned fs n path pos = fs\<lparr>streams := (streams fs)(n := Some \<lparr>st_path = path, st_pos = pos\<rparr>)\<rparr>"

lemma write_at_end [simp]: "write_at bs (length bs) xs = bs @ xs"
  by (simp add: write_at_def)

lemma fwrite_written [simp]: "fwrite (written fs n path bs) (Some n) xs = Inr (written fs n path (bs @ xs))"
  by (simp add: fwrite_def stream_of_def written_def file_bytes_def)

lemma fwrite_word_written [simp]:
  "fwrite_word le (written fs n path bs) (Some n) w = Inr (written fs n path (bs @ host_bytes le w))"
  by (simp add: fwrite_word_def)

lemma fread_positioned:
  "fread (positioned fs n path pos) (Some n) len =
     (let got = take len (drop pos (file_bytes fs path)) in Inr (positioned fs n path (pos + length got), got))"
  by (simp add: fread_def stream_of_def positioned_def file_bytes_def Let_def)

lemma fread_word_positioned:
  fixes w old :: "'w::len word"
  assumes "8 dvd LENGTH('w)" and "file_bytes fs path = pre @ host_bytes le w @ rest" and "pos = length pre"
  shows "fread_word le (positioned fs n path pos) (Some n) old =
    Inr (positioned fs n path (pos + LENGTH('w) div 8), w)"
  using assms by (simp add: fread_word_def fread_positioned Let_def word_size host_roundtrip)

end
