(* ===== verification/Hooks.thy ===== *)
theory Hooks
  imports Segments Session_Pool Stdio
begin

text \<open>
  The session hooks of the POSIX client, \<open>src/dtp_client_posix_session_hooks.c\<close>: received data goes
  to a file, received packet numbers to a segment list, and an interrupted session to a meta file
  from which it can be resumed. The world the hooks act on is the heap of list nodes, the file
  system, the clock and standard output; the output of \<open>dbg_log\<close> and \<open>dbg_warn\<close> is left out. The two
  context objects are allocated without a check in the source; here their allocation succeeds.
\<close>

section \<open>State\<close>

record hook_ctx_t =
  last_packet_ts :: u32
  ctx_segments :: "segments_ctx_t option"
  received_segments :: "segments_ctx_t option"
  out_file :: file_ptr

text \<open>
  \<open>hw_clock n\<close> is the \<open>n\<close>-th reading of \<open>csp_get_ms\<close>, \<open>hw_ticks\<close> the number of readings so far. A
  printed line is a format (less control characters) with the numbers filled in.
\<close>

type_synonym printed = "string \<times> nat list"

record hook_world =
  hw_heap :: heap
  hw_files :: file_system
  hw_clock :: "nat \<Rightarrow> u32"
  hw_ticks :: nat
  hw_out :: "printed list"

type_synonym apm_session = "hook_ctx_t dtp_t"

definition apm_session_hooks :: "hook_ctx_t dtp_opt_session_hooks_cfg" where
  "apm_session_hooks = \<lparr>on_start = Some 6, on_data_packet = Some 7, on_end = Some 8, on_release = Some 11,
     on_serialize = Some 9, on_deserialize = Some 10, on_dump_info = Some 12, hook_ctx = None\<rparr>"

definition set_ctx :: "hook_ctx_t option \<Rightarrow> apm_session \<Rightarrow> apm_session" where
  "set_ctx c s = s\<lparr>hooks := (hooks s)\<lparr>hook_ctx := c\<rparr>\<rparr>"

definition get_ctx :: "apm_session \<Rightarrow> hook_ctx_t c_result" where
  "get_ctx s = (case hook_ctx (hooks s) of None \<Rightarrow> Inl Null_Deref | Some c \<Rightarrow> Inr c)"

definition say :: "string \<Rightarrow> nat list \<Rightarrow> hook_world \<Rightarrow> hook_world" where
  "say fmt xs w = w\<lparr>hw_out := hw_out w @ [(fmt, xs)]\<rparr>"

definition segment_line :: "u32 \<times> u32 \<times> u32 \<Rightarrow> printed" where
  "segment_line l = (case l of (i, s, e) \<Rightarrow> (''Segment #%u, start=%u, end=%u'', [unat i, unat s, unat e]))"

definition say_segments :: "(u32 \<times> u32 \<times> u32) list \<Rightarrow> hook_world \<Rightarrow> hook_world" where
  "say_segments ls w = w\<lparr>hw_out := hw_out w @ map segment_line ls\<rparr>"

text \<open>\<open>sprintf\<close> of a file name and a suffix into a buffer of \<open>n\<close> bytes.\<close>

definition sprintf_name :: "nat \<Rightarrow> string option \<Rightarrow> string \<Rightarrow> string c_result" where
  "sprintf_name n name suffix = (case name of None \<Rightarrow> Inl Null_Deref
     | Some nm \<Rightarrow> if length (nm @ suffix) < n then Inr (nm @ suffix) else Inl Out_Of_Bounds)"

section \<open>Receiving\<close>

definition fresh_ctx :: hook_ctx_t where
  "fresh_ctx = \<lparr>last_packet_ts = 0, ctx_segments = Some init_segments_ctx, received_segments = None, out_file = None\<rparr>"

definition apm_on_start :: "apm_session \<Rightarrow> hook_world \<Rightarrow> (apm_session \<times> hook_world) c_result" where
  "apm_on_start s w =
     (let ctx = (case hook_ctx (hooks s) of None \<Rightarrow> fresh_ctx | Some c \<Rightarrow> c) in
      c_bind (sprintf_name 1024 (dtp_session_get_user_ctx s) '''') (\<lambda>dtp_file_name.
      let (fs, f) = (if bytes_received s > 0 then fopen_existing (hw_files w) dtp_file_name
                     else fopen_wb (hw_files w) dtp_file_name)
      in Inr (set_ctx (Some (ctx\<lparr>out_file := f\<rparr>)) s, w\<lparr>hw_files := fs\<rparr>)))"

text \<open>The bytes \<open>fwrite\<close> takes from a packet: \<open>length\<close> less the two leading words.\<close>

definition packet_bytes :: "data_packet \<Rightarrow> u8 list c_result" where
  "packet_bytes p = (if 8 \<le> pk_length p \<and> unat (pk_length p) - 8 \<le> length (pk_data p)
     then Inr (take (unat (pk_length p) - 8) (pk_data p)) else Inl Out_Of_Bounds)"

text \<open>The progress line, at most every 150 ms and at the end.\<close>

definition show_progress :: "u32 \<Rightarrow> apm_session \<Rightarrow> hook_ctx_t \<times> hook_world \<Rightarrow> hook_ctx_t \<times> hook_world" where
  "show_progress now s cw = (case cw of (ctx, w) \<Rightarrow>
     if now - last_packet_ts ctx > 150 \<or> bytes_received s = payload_size s
     then (ctx\<lparr>last_packet_ts := now\<rparr>, say ''%u/%u'' [unat (bytes_received s), unat (payload_size s)] w)
     else (ctx, w))"

definition apm_on_data_packet :: "apm_session \<Rightarrow> data_packet \<Rightarrow> hook_world \<Rightarrow>
    ((apm_session \<times> hook_world) \<times> bool) c_result" where
  "apm_on_data_packet s p w0 =
     c_bind (get_ctx s) (\<lambda>ctx0.
     let now = hw_clock w0 (hw_ticks w0); w1 = w0\<lparr>hw_ticks := Suc (hw_ticks w0)\<rparr>; m = mtu (request_meta s) in
     c_bind (c_div (ucast (pk_offset p)) (chunk64 m)) (\<lambda>q.
     let packet_seq = ucast q; (ctx, w) = show_progress now s (ctx0, w1) in
     c_bind (fseek (hw_files w) (out_file ctx) (unat (ucast packet_seq * chunk64 m))) (\<lambda>fs.
     c_bind (packet_bytes p) (\<lambda>bytes.
     c_bind (fwrite fs (out_file ctx) bytes) (\<lambda>fs.
     case ctx_segments ctx of
       None \<Rightarrow> Inl Null_Deref
     | Some sg \<Rightarrow> c_bind (update_segments (hw_heap w) sg packet_seq) (\<lambda>(h, sg, ok).
         Inr ((set_ctx (Some (ctx\<lparr>ctx_segments := Some sg\<rparr>)) s, w\<lparr>hw_heap := h, hw_files := fs\<rparr>), ok)))))))"

section \<open>End and release\<close>

text \<open>The record of this transfer, joined with the one read from the meta file when there is one.\<close>

definition join_received :: "heap \<Rightarrow> segments_ctx_t \<Rightarrow> segments_ctx_t option \<Rightarrow> (heap \<times> segments_ctx_t) c_result" where
  "join_received h sg received = (case received of
       None \<Rightarrow> Inr (h, sg)
     | Some r \<Rightarrow> c_bind (merge_segments h sg r) (\<lambda>(h1, merged).
         c_bind (free_segments h1 (Some sg)) (\<lambda>h2. Inr (h2, merged))))"

definition packet_count :: "apm_session \<Rightarrow> u32 c_result" where
  "packet_count s =
     c_bind (c_div (ucast (payload_size s)) (chunk64 (mtu (request_meta s)))) (\<lambda>q.
     c_bind (c_mod (ucast (payload_size s)) (chunk64 (mtu (request_meta s)))) (\<lambda>r.
     Inr (if r \<noteq> 0 then ucast q + 1 else ucast q)))"

definition apm_on_end :: "apm_session \<Rightarrow> hook_world \<Rightarrow> (apm_session \<times> hook_world) c_result" where
  "apm_on_end s w0 =
     c_bind (get_ctx s) (\<lambda>ctx.
     c_bind (if out_file ctx \<noteq> None then fclose (hw_files w0) (out_file ctx) else Inr (hw_files w0)) (\<lambda>fs.
     case ctx_segments ctx of
       None \<Rightarrow> Inl Null_Deref
     | Some sg0 \<Rightarrow>
         c_bind (close_segments (hw_heap w0) sg0) (\<lambda>(h1, sg1).
         c_bind (print_segments h1 sg1) (\<lambda>received.
         c_bind (join_received h1 sg1 (received_segments ctx)) (\<lambda>(h2, sg2).
         c_bind (packet_count s) (\<lambda>count.
         c_bind (get_complement_segment h2 sg2 0 (count - 1)) (\<lambda>(h3, complements).
         c_bind (print_segments h3 complements) (\<lambda>missing.
         c_bind (free_segments h3 (Some complements)) (\<lambda>h4.
         Inr (set_ctx (Some (ctx\<lparr>ctx_segments := Some sg2\<rparr>)) s,
              say_segments missing (say_segments received (w0\<lparr>hw_files := fs, hw_heap := h4\<rparr>))))))))))))"

definition apm_on_release :: "apm_session \<Rightarrow> hook_world \<Rightarrow> (apm_session \<times> hook_world) c_result" where
  "apm_on_release s w = (case hook_ctx (hooks s) of
       None \<Rightarrow> Inr (set_ctx None s, w)
     | Some ctx \<Rightarrow>
         c_bind (free_segments (hw_heap w) (ctx_segments ctx)) (\<lambda>h1.
         c_bind (free_segments h1 (received_segments ctx)) (\<lambda>h2.
         Inr (set_ctx None s, w\<lparr>hw_heap := h2\<rparr>))))"

section \<open>Saving a session\<close>

definition write_segment_to_file :: "bool \<Rightarrow> file_ptr \<Rightarrow> u32 \<Rightarrow> u32 \<Rightarrow> u32 \<Rightarrow> file_system \<Rightarrow> (file_system \<times> bool) c_result" where
  "write_segment_to_file le f i start stop fs =
     c_bind (fwrite_word le fs f start) (\<lambda>fs.
     c_bind (fwrite_word le fs f stop) (\<lambda>fs. Inr (fs, True)))"

definition write_header :: "bool \<Rightarrow> file_ptr \<Rightarrow> apm_session \<Rightarrow> file_system \<Rightarrow> file_system c_result" where
  "write_header le f s fs =
     c_bind (fwrite_word le fs f DTP_SESSION_VERSION) (\<lambda>fs.
     c_bind (fwrite_word le fs f (remote_node s)) (\<lambda>fs.
     c_bind (fwrite_word le fs f (mtu (request_meta s))) (\<lambda>fs.
     c_bind (fwrite_word le fs f (timeout s)) (\<lambda>fs.
     c_bind (fwrite_word le fs f (throughput (request_meta s))) (\<lambda>fs.
     c_bind (fwrite_word le fs f (payload_id (request_meta s))) (\<lambda>fs.
     c_bind (fwrite_word le fs f (session_id (request_meta s))) (\<lambda>fs.
     c_bind (fwrite_word le fs f (bytes_received s)) (\<lambda>fs.
     fwrite_word le fs f (payload_size s)))))))))"

definition apm_on_serialize :: "bool \<Rightarrow> apm_session \<Rightarrow> hook_world \<Rightarrow> (apm_session \<times> hook_world) c_result" where
  "apm_on_serialize le s w =
     c_bind (sprintf_name 1024 (dtp_session_get_user_ctx s) ''.meta'') (\<lambda>dtp_file_name.
     case fopen_wb (hw_files w) dtp_file_name of
       (fs, None) \<Rightarrow> Inr (s, w\<lparr>hw_files := fs\<rparr>)
     | (fs, f) \<Rightarrow>
         c_bind (write_header le f s fs) (\<lambda>fs.
         c_bind (get_ctx s) (\<lambda>ctx.
         c_bind (case ctx_segments ctx of
             None \<Rightarrow> Inr fs
           | Some sg \<Rightarrow> c_bind (fwrite_word le fs f (get_nof_segments sg)) (\<lambda>fs.
               for_each_segment (hw_heap w) sg (write_segment_to_file le f) fs)) (\<lambda>fs.
         c_bind (fclose fs f) (\<lambda>fs. Inr (s, w\<lparr>hw_files := fs\<rparr>))))))"

section \<open>Resuming a session\<close>

definition create_meta_data :: "u32 \<Rightarrow> u32 \<Rightarrow> u32 \<Rightarrow> dtp_meta_req_t \<Rightarrow> (dtp_meta_req_t \<times> bool) c_result" where
  "create_meta_data idx start stop meta =
     (if idx < 8 then
        c_bind (c_index (intervals meta) (unat idx)) (\<lambda>_.
        Inr (meta\<lparr>intervals := (intervals meta)[unat idx := \<lparr>iv_start = start, iv_end = stop\<rparr>],
                  nof_intervals := ucast (idx + 1)\<rparr>, True))
      else Inr (meta, False))"

definition read_header :: "bool \<Rightarrow> file_ptr \<Rightarrow> apm_session \<Rightarrow> file_system \<Rightarrow> (file_system \<times> apm_session) c_result" where
  "read_header le f s fs =
     (let r = request_meta s in
      c_bind (fread_word le fs f (remote_node s)) (\<lambda>(fs, node).
      c_bind (fread_word le fs f (mtu r)) (\<lambda>(fs, m).
      c_bind (fread_word le fs f (timeout s)) (\<lambda>(fs, tmo).
      c_bind (fread_word le fs f (throughput r)) (\<lambda>(fs, thr).
      c_bind (fread_word le fs f (payload_id r)) (\<lambda>(fs, pid).
      c_bind (fread_word le fs f (session_id r)) (\<lambda>(fs, sid).
      c_bind (fread_word le fs f (bytes_received s)) (\<lambda>(fs, rcvd).
      c_bind (fread_word le fs f (payload_size s)) (\<lambda>(fs, psize).
      Inr (fs, s\<lparr>remote_node := node, timeout := tmo, bytes_received := rcvd, payload_size := psize,
        request_meta := r\<lparr>mtu := m, throughput := thr, payload_id := pid, session_id := sid\<rparr>\<rparr>))))))))))"

fun read_segments :: "bool \<Rightarrow> file_ptr \<Rightarrow> nat \<Rightarrow> file_system \<times> heap \<times> segments_ctx_t \<Rightarrow>
    (file_system \<times> heap \<times> segments_ctx_t) c_result" where
  "read_segments le f 0 st = Inr st"
| "read_segments le f (Suc n) (fs, h, sg) =
     c_bind (fread_word le fs f (0::u32)) (\<lambda>(fs, start).
     c_bind (fread_word le fs f (0::u32)) (\<lambda>(fs, stop).
     c_bind (add_segment h sg start stop) (\<lambda>(h, sg).
     read_segments le f n (fs, h, sg))))"

text \<open>The request for what is still missing, at most eight intervals.\<close>

definition resume_request :: "heap \<Rightarrow> segments_ctx_t \<Rightarrow> apm_session \<Rightarrow> (heap \<times> dtp_meta_req_t) c_result" where
  "resume_request h received s =
     c_bind (c_div (ucast (payload_size s)) (chunk64 (mtu (request_meta s)))) (\<lambda>q.
     c_bind (get_complement_segment h received 0 (ucast q)) (\<lambda>(h1, sg).
     let nof = get_nof_segments sg; nof = (if nof > 8 then 8 else nof) in
     c_bind (if nof \<noteq> 0 then for_each_segment h1 sg create_meta_data (request_meta s)
             else Inr ((request_meta s)\<lparr>nof_intervals := 0\<rparr>)) (\<lambda>req.
     c_bind (free_segments h1 (Some sg)) (\<lambda>h2. Inr (h2, req)))))"

definition apm_on_deserialize :: "bool \<Rightarrow> apm_session \<Rightarrow> hook_world \<Rightarrow> (apm_session \<times> hook_world) c_result" where
  "apm_on_deserialize le s w =
     (if dtp_session_get_user_ctx s = None then Inr (s, w)
      else c_bind (sprintf_name 256 (dtp_session_get_user_ctx s) ''.meta'') (\<lambda>dtp_file_name.
      case fopen_existing (hw_files w) dtp_file_name of
        (fs, None) \<Rightarrow> Inr (s\<lparr>sess_errno := DTP_EINVAL\<rparr>, w\<lparr>hw_files := fs\<rparr>)
      | (fs, f) \<Rightarrow>
          c_bind (fread_word le fs f (0::u32)) (\<lambda>(fs, buffer).
          if buffer \<noteq> DTP_SESSION_VERSION then c_bind (fclose fs f) (\<lambda>fs. Inr (s, w\<lparr>hw_files := fs\<rparr>))
          else
            c_bind (read_header le f s fs) (\<lambda>(fs, s).
            c_bind (fread_word le fs f (0::u32)) (\<lambda>(fs, nof).
            c_bind (read_segments le f (unat nof) (fs, hw_heap w, init_segments_ctx)) (\<lambda>(fs, h, received).
            c_bind (resume_request h received s) (\<lambda>(h, req).
            c_bind (fclose fs f) (\<lambda>fs.
            Inr (set_ctx (Some \<lparr>last_packet_ts = 0, ctx_segments = Some init_segments_ctx,
                   received_segments = Some received, out_file = None\<rparr>) (s\<lparr>request_meta := req\<rparr>),
                 w\<lparr>hw_files := fs, hw_heap := h\<rparr>)))))))))"

section \<open>Reporting\<close>

definition segment_dumper :: "u32 \<Rightarrow> u32 \<Rightarrow> u32 \<Rightarrow> hook_world \<Rightarrow> (hook_world \<times> bool) c_result" where
  "segment_dumper idx start stop w = Inr
     (if stop = UINT32_MAX then say ''interval #%u: start=%u, end=Rest of payload'' [unat idx, unat start] w
      else say ''interval #%u: start=%u, end=%u'' [unat idx, unat start, unat stop] w, True)"

definition apm_on_dump_info :: "apm_session \<Rightarrow> u32 \<Rightarrow> hook_world \<Rightarrow> hook_world c_result" where
  "apm_on_dump_info s info w =
     (if info = 0 then
        let r = request_meta s;
            w1 = w\<lparr>hw_out := hw_out w @
              [(''  remote node address: %u'', [unat (remote_node s)]),
               (''  timeout: %u [s]'', [unat (timeout s)]),
               (''  throughput: %u KByte/s'', [unat (throughput r)]),
               (''  MTU: %u Bytes'', [unat (mtu r)]),
               (''  payload id: %u'', [unat (payload_id r)]),
               (''  session id: %u'', [unat (session_id r)]),
               (''  bytes_received: %u Bytes'', [unat (bytes_received s)]),
               (''  payload size: %u Bytes'', [unat (payload_size s)]),
               (''  Missing: %u Bytes'', [unat (payload_size s - bytes_received s)])]\<rparr>
        in case hook_ctx (hooks s) of
             None \<Rightarrow> Inr (say ''  No segments received'' [] w1)
           | Some ctx \<Rightarrow> (case received_segments ctx of
               None \<Rightarrow> Inl Null_Deref
             | Some sg \<Rightarrow> for_each_segment (hw_heap w1) sg segment_dumper
                 (say ''  Received Intervals: %u'' [unat (get_nof_segments sg)] w1))
      else Inr (say ''Unknown info type'' [] w))"

section \<open>The table of hooks\<close>

definition apm_hook :: "bool \<Rightarrow> (hook_ctx_t, hook_world) hook_fun" where
  "apm_hook le f s w =
     (if f = 6 then apm_on_start s w else if f = 8 then apm_on_end s w
      else if f = 9 then apm_on_serialize le s w else if f = 10 then apm_on_deserialize le s w
      else if f = 11 then apm_on_release s w else default_hook f s w)"

definition apm_data_hook :: "(hook_ctx_t, hook_world) data_hook_fun" where
  "apm_data_hook f s p w = (if f = 7 then apm_on_data_packet s p w else default_on_data_packet f s p w)"

end
