(* ===== verification/Hooks_Correct.thy ===== *)
theory Hooks_Correct
  imports Hooks Client_Correct Segments_Correct Server_Correct
begin

text \<open>
  What the POSIX hooks promise: received packets are stored at their place in the file and recorded,
  in whatever order they come; the end of a transfer joins the record with that of earlier
  transfers; a saved session is read back as it was, with a request for what is missing.
\<close>

section \<open>The data hook leaves the session to the client\<close>

lemma set_ctx_simps [simp]:
  "hook_ctx (hooks (set_ctx c s)) = c" "request_meta (set_ctx c s) = request_meta s"
  "bytes_received (set_ctx c s) = bytes_received s" "payload_size (set_ctx c s) = payload_size s"
  "on_data_packet (hooks (set_ctx c s)) = on_data_packet (hooks s)" "on_end (hooks (set_ctx c s)) = on_end (hooks s)"
  "on_start (hooks (set_ctx c s)) = on_start (hooks s)" "active (set_ctx c s) = active s"
  "user_context (set_ctx c s) = user_context s" "remote_node (set_ctx c s) = remote_node s"
  "timeout (set_ctx c s) = timeout s" "sess_errno (set_ctx c s) = sess_errno s"
  by (simp_all add: set_ctx_def)

lemma apm_on_data_packet_ctx: "apm_on_data_packet s p w = Inr ((s', w'), b) \<Longrightarrow> \<exists>c. s' = set_ctx c s"
  by (auto simp: apm_on_data_packet_def c_bind_eq_Inr Let_def split_beta split: option.split_asm)

interpretation apm_data: data_hook apm_data_hook
proof
  fix f p s s' w w' b
  assume h: "apm_data_hook f s p w = Inr ((s', w'), b)"
  show "\<exists>c. s' = s\<lparr>hooks := (hooks s)\<lparr>hook_ctx := c\<rparr>\<rparr>"
  proof (cases "f = 7")
    case True
    with h show ?thesis
      using apm_on_data_packet_ctx [of s p w s' w' b] by (simp add: apm_data_hook_def set_ctx_def)
  next
    case False
    with h have "s' = s\<lparr>hooks := (hooks s)\<lparr>hook_ctx := hook_ctx (hooks s)\<rparr>\<rparr>"
      by (simp add: apm_data_hook_def default_on_data_packet_def)
    then show ?thesis by blast
  qed
qed

section \<open>Packets in a file\<close>

lemma length_write_at: "xs \<noteq> [] \<Longrightarrow> length (write_at bs pos xs) = max (length bs) (pos + length xs)"
  by (auto simp: write_at_def)

lemma nth_write_at:
  "xs \<noteq> [] \<Longrightarrow> i < length bs \<or> pos \<le> i \<and> i < pos + length xs \<Longrightarrow>
   write_at bs pos xs ! i = (if pos \<le> i \<and> i < pos + length xs then xs ! (i - pos) else bs ! i)"
  by (auto simp: write_at_def nth_append min_def not_le)

text \<open>
  A file holds a set of packets of a payload: the bytes of each of them are at their place, and
  nothing is behind the end of the payload.
\<close>

definition stores :: "nat \<Rightarrow> u8 list \<Rightarrow> nat set \<Rightarrow> u8 list \<Rightarrow> bool" where
  "stores c content D bs \<longleftrightarrow> length bs \<le> length content \<and>
     (\<forall>k \<in> D. \<forall>i. k * c \<le> i \<and> i < Suc k * c \<and> i < length content \<longrightarrow> i < length bs \<and> bs ! i = content ! i)"

text \<open>A packet cut from the payload at a packet boundary.\<close>

definition genuine :: "nat \<Rightarrow> u8 list \<Rightarrow> data_packet \<Rightarrow> bool" where
  "genuine c content p \<longleftrightarrow> unat (pk_offset p) mod c = 0 \<and> unat (pk_offset p) < length content \<and>
     pk_data p = take c (drop (unat (pk_offset p)) content) \<and> unat (pk_length p) = length (pk_data p) + 8"

definition packet_no :: "nat \<Rightarrow> data_packet \<Rightarrow> nat" where
  "packet_no c p = unat (pk_offset p) div c"

lemma stores_write:
  assumes "stores c content D bs" and "k * c < length content" and "0 < c"
  shows "stores c content (insert k D) (write_at bs (k * c) (take c (drop (k * c) content)))"
proof -
  let ?xs = "take c (drop (k * c) content)"
  have xs: "?xs \<noteq> []" "length ?xs = min c (length content - k * c)" using assms(2,3) by auto
  have inside: "k * c \<le> i \<and> i < k * c + length ?xs \<longleftrightarrow> k * c \<le> i \<and> i < Suc k * c \<and> i < length content" for i
    using assms(2) by (auto simp: xs(2))
  have old: "i < length bs \<and> bs ! i = content ! i" if "j \<in> D" "j * c \<le> i" "i < Suc j * c" "i < length content" for i j
    using assms(1) that unfolding stores_def by blast
  have "i < length (write_at bs (k * c) ?xs) \<and> write_at bs (k * c) ?xs ! i = content ! i"
    if j: "j \<in> insert k D" "j * c \<le> i" "i < Suc j * c" "i < length content" for i j
  proof (cases "k * c \<le> i \<and> i < k * c + length ?xs")
    case True
    then have "?xs ! (i - k * c) = content ! i" by (subst nth_take) auto
    with True show ?thesis using xs(1) by (simp add: length_write_at nth_write_at less_max_iff_disj)
  next
    case False
    then have "j \<in> D" using j inside [of i] by auto
    with old [OF _ j(2-4)] False xs(1) show ?thesis by (auto simp: length_write_at nth_write_at)
  qed
  moreover have "length (write_at bs (k * c) ?xs) \<le> length content"
    using assms(1,2) xs by (auto simp: length_write_at stores_def)
  ultimately show ?thesis unfolding stores_def by blast
qed

lemma stores_complete:
  assumes "stores c content D bs" and "0 < c" and "\<And>k. k * c < length content \<Longrightarrow> k \<in> D"
  shows "bs = content"
proof -
  have "i < length bs \<and> bs ! i = content ! i" if i: "i < length content" for i
  proof -
    have "i div c * c \<le> i" "i < Suc (i div c) * c" using assms(2) by (auto simp: dividend_less_div_times)
    moreover have "i div c \<in> D" using assms(3) i \<open>i div c * c \<le> i\<close> by (meson le_less_trans)
    ultimately show ?thesis using assms(1) i unfolding stores_def by blast
  qed
  moreover have "length bs \<le> length content" using assms(1) by (simp add: stores_def)
  ultimately show ?thesis
    by (intro nth_equalityI) (metis le_antisym not_le order_less_irrefl, simp)
qed

lemma stores_empty [simp]: "stores c content {} []"
  by (simp add: stores_def)

section \<open>Receiving into a file\<close>

text \<open>The record read from the meta file, in nodes of its own.\<close>

definition earlier :: "heap \<Rightarrow> segments_ctx_t option \<Rightarrow> seg list option \<Rightarrow> ptr set \<Rightarrow> bool" where
  "earlier h r rs A \<longleftrightarrow> (case r of None \<Rightarrow> rs = None
     | Some c \<Rightarrow> \<exists>ms. list_rep h c ms \<and> rs = Some (map snd ms) \<and> addrs ms \<inter> A = {})"

text \<open>
  A session that is receiving: the file is open and has the contents \<open>bs\<close>, the record of this
  transfer is in the state \<open>st\<close>, that of earlier transfers is \<open>rs\<close>.
\<close>

definition recording :: "string \<Rightarrow> u8 list \<Rightarrow> seg list \<times> seg option \<Rightarrow> seg list option \<Rightarrow> apm_session \<Rightarrow> hook_world \<Rightarrow> bool" where
  "recording path bs st rs s w \<longleftrightarrow> (\<exists>ctx n pos sg ns.
     hook_ctx (hooks s) = Some ctx \<and> out_file ctx = Some n \<and>
     streams (hw_files w) n = Some \<lparr>st_path = path, st_pos = pos\<rparr> \<and> contents (hw_files w) path = Some bs \<and>
     ctx_segments ctx = Some sg \<and> tracks (hw_heap w) sg ns st \<and> plenty (hw_heap w) \<and>
     earlier (hw_heap w) (received_segments ctx) rs (owned sg ns))"

definition record_packet :: "seg list \<times> seg option \<Rightarrow> nat \<Rightarrow> seg list \<times> seg option" where
  "record_packet st k = range_spec st (of_nat k, of_nat k)"

lemma earlier_same:
  assumes "earlier h r rs A" and "same_outside A h h'" and "B \<subseteq> A \<union> {brk h..<brk h'}"
  shows "earlier h' r rs B"
proof (cases r)
  case (Some c)
  then obtain ms where ms: "list_rep h c ms" "rs = Some (map snd ms)" "addrs ms \<inter> A = {}"
    using assms(1) by (auto simp: earlier_def)
  have "list_rep h' c ms" using list_rep_same_outside [OF ms(1) assms(2)] ms(3) by simp
  moreover have "\<forall>q \<in> addrs ms. q < brk h" using ms(1) by (simp add: list_rep_def)
  then have "addrs ms \<inter> B = {}" using ms(3) assms(3) by (rule fresh_disjoint)
  ultimately show ?thesis using Some ms(2) by (auto simp: earlier_def)
qed (use assms(1) in \<open>simp add: earlier_def\<close>)

lemma show_progress_keeps:
  "show_progress now s (ctx, w) = (ctx', w') \<Longrightarrow>
   out_file ctx' = out_file ctx \<and> ctx_segments ctx' = ctx_segments ctx \<and>
   received_segments ctx' = received_segments ctx \<and> hw_heap w' = hw_heap w \<and> hw_files w' = hw_files w"
  by (auto simp: show_progress_def say_def split: if_splits)

lemma packet_seq_no:
  "8 < m \<Longrightarrow> (ucast (ucast (pk_offset p) div chunk64 m :: u64) :: u32) = of_nat (packet_no (unat m - 8) p)"
proof -
  assume m: "8 < m"
  have "unat (pk_offset p) div (unat m - 8) < 4294967296"
    using unat_lt_u32 [of "pk_offset p"] by (rule le_less_trans [OF div_le_dividend])
  moreover have "unat (chunk64 m) = unat m - 8"
    using m by (simp add: unat_chunk64 word_less_nat_alt word_le_nat_alt)
  ultimately have "unat (ucast (ucast (pk_offset p) div chunk64 m :: u64) :: u32) = unat (pk_offset p) div (unat m - 8)"
    by (subst unat_ucast_u64_u32) (simp_all add: unat_div)
  then show ?thesis by (metis packet_no_def of_nat_unat_u32)
qed

lemma packet_no_lt: "packet_no c p < 4294967296"
  unfolding packet_no_def using unat_lt_u32 [of "pk_offset p"] by (rule le_less_trans [OF div_le_dividend])

lemma seek_position:
  assumes "8 < m" and "unat (pk_offset p) mod (unat m - 8) = 0"
  shows "unat (ucast (of_nat (packet_no (unat m - 8) p) :: u32) * chunk64 m) = unat (pk_offset p)"
proof -
  have c: "unat (chunk64 m) = unat m - 8"
    using assms(1) by (simp add: unat_chunk64 word_less_nat_alt word_le_nat_alt)
  have "packet_no (unat m - 8) p * (unat m - 8) = unat (pk_offset p)"
    using assms(2) by (simp add: packet_no_def mod_0_imp_dvd)
  moreover have "unat (pk_offset p) < 2 ^ 64" using unat_lt_u32 [of "pk_offset p"] by simp
  ultimately show ?thesis
    by (subst unat_mult_lem [THEN iffD1]) (simp_all add: c unat_of_nat_u32 [OF packet_no_lt])
qed

lemma genuine_bytes: "genuine c content p \<Longrightarrow> packet_bytes p = Inr (pk_data p)"
  by (simp add: genuine_def packet_bytes_def word_le_nat_alt del: take_take)

lemma data_packet_recorded:
  assumes "recording path bs st rs s w" and "8 < mtu (request_meta s)" and "c = unat (mtu (request_meta s)) - 8"
    and "genuine c content p"
  shows "\<exists>ctx w'. apm_on_data_packet s p w = Inr ((set_ctx (Some ctx) s, w'), True) \<and>
    recording path (write_at bs (unat (pk_offset p)) (pk_data p)) (record_packet st (packet_no c p)) rs
      (set_ctx (Some ctx) s) w'"
proof -
  let ?m = "mtu (request_meta s)" and ?seq = "of_nat (packet_no c p) :: u32" and ?w = "w\<lparr>hw_ticks := Suc (hw_ticks w)\<rparr>"
  obtain ctx n pos sg ns where r: "hook_ctx (hooks s) = Some ctx" "out_file ctx = Some n"
      "streams (hw_files w) n = Some \<lparr>st_path = path, st_pos = pos\<rparr>" "contents (hw_files w) path = Some bs"
      "ctx_segments ctx = Some sg" "tracks (hw_heap w) sg ns st" "plenty (hw_heap w)"
      "earlier (hw_heap w) (received_segments ctx) rs (owned sg ns)"
    using assms(1) unfolding recording_def by blast
  obtain ctx1 w1 where pr: "show_progress (hw_clock w (hw_ticks w)) s (ctx, ?w) = (ctx1, w1)"
    by (cases "show_progress (hw_clock w (hw_ticks w)) s (ctx, ?w)")
  note kp = show_progress_keeps [OF pr]
  obtain h' sg' ns' where u: "update_segments (hw_heap w) sg ?seq = Inr (h', sg', True)"
      "tracks h' sg' ns' (record_packet st (packet_no c p))" "same_outside (owned sg ns) (hw_heap w) h'"
      "owned sg' ns' \<subseteq> owned sg ns \<union> {brk (hw_heap w)..<brk h'}"
    using update_segments_range_refines [OF r(6,7), of ?seq ?seq] unfolding update_segments_def record_packet_def by blast
  have "unat (pk_offset p) mod (unat ?m - 8) = 0" using assms(3,4) by (simp add: genuine_def)
  note sk = seek_position [OF assms(2) this] and sq = packet_seq_no [OF assms(2), of p]
  let ?fs = "(hw_files w)\<lparr>contents := (contents (hw_files w))(path := Some (write_at bs (unat (pk_offset p)) (pk_data p))),
    streams := (streams (hw_files w))(n := Some \<lparr>st_path = path, st_pos = unat (pk_offset p) + length (pk_data p)\<rparr>)\<rparr>"
  let ?ctx = "ctx1\<lparr>ctx_segments := Some sg'\<rparr>" and ?w' = "w1\<lparr>hw_heap := h', hw_files := ?fs\<rparr>"
  have "apm_on_data_packet s p w = Inr ((set_ctx (Some ?ctx) s, ?w'), True)"
    using r u(1) kp pr chunk64_nonzero [OF assms(2)] sk sq assms(3) genuine_bytes [OF assms(4)]
    by (simp add: apm_on_data_packet_def get_ctx_def Let_def fseek_def fwrite_def stream_of_def file_bytes_def)
  moreover have "recording path (write_at bs (unat (pk_offset p)) (pk_data p)) (record_packet st (packet_no c p)) rs
      (set_ctx (Some ?ctx) s) ?w'"
    unfolding recording_def
    by (intro exI [of _ ?ctx] exI [of _ n] exI [of _ "unat (pk_offset p) + length (pk_data p)"] exI [of _ sg'] exI [of _ ns'])
      (use r u kp plenty_same [OF r(7) u(3)] earlier_same [OF r(8) u(3,4)] in simp)
  ultimately show ?thesis by blast
qed

lemma recording_session:
  "hook_ctx (hooks s') = hook_ctx (hooks s) \<Longrightarrow> recording path bs st rs s' w = recording path bs st rs s w"
  by (simp add: recording_def)

lemma deliver_recorded:
  assumes "recording path bs st rs s w" and "8 < mtu (request_meta s)" and "c = unat (mtu (request_meta s)) - 8"
    and "genuine c content p" and "on_data_packet (hooks s) = Some 7" and "stores c content D bs"
  shows "\<exists>s' w' bs'. deliver apm_data_hook (s, w) p = Inr (s', w') \<and>
    recording path bs' (record_packet st (packet_no c p)) rs s' w' \<and> stores c content (insert (packet_no c p) D) bs'"
proof -
  let ?s = "s\<lparr>bytes_received := bytes_received s + (ucast (pk_length p) - 8)\<rparr>"
  have rec: "recording path bs st rs ?s w" using assms(1) recording_session [of ?s s] by simp
  have m: "8 < mtu (request_meta ?s)" "c = unat (mtu (request_meta ?s)) - 8" using assms(2,3) by simp_all
  obtain ctx w' where d: "apm_on_data_packet ?s p w = Inr ((set_ctx (Some ctx) ?s, w'), True)"
      "recording path (write_at bs (unat (pk_offset p)) (pk_data p)) (record_packet st (packet_no c p)) rs
        (set_ctx (Some ctx) ?s) w'"
    using data_packet_recorded [OF rec m assms(4)] by blast
  have c: "0 < c" using assms(2,3) by (simp add: word_less_nat_alt)
  have g: "packet_no c p * c = unat (pk_offset p)" "unat (pk_offset p) < length content"
      "pk_data p = take c (drop (unat (pk_offset p)) content)"
    using assms(4) by (simp_all add: genuine_def packet_no_def mod_0_imp_dvd)
  have "stores c content (insert (packet_no c p) D) (write_at bs (unat (pk_offset p)) (pk_data p))"
    using stores_write [OF assms(6) _ c, of "packet_no c p"] g by simp
  with d assms(5) show ?thesis
    by (auto simp: deliver_def run_data_hook_def apm_data_hook_def)
qed

lemma deliver_all_recorded:
  assumes "recording path bs st rs s w" and "8 < mtu (request_meta s)" and "c = unat (mtu (request_meta s)) - 8"
    and "\<forall>p \<in> set ps. genuine c content p" and "on_data_packet (hooks s) = Some 7" and "stores c content D bs"
  shows "\<exists>s' w' bs'. fold_c (deliver apm_data_hook) (s, w) ps = Inr (s', w') \<and>
    recording path bs' (foldl record_packet st (map (packet_no c) ps)) rs s' w' \<and>
    stores c content (D \<union> set (map (packet_no c) ps)) bs'"
  using assms
proof (induction ps arbitrary: bs st s w D)
  case (Cons p ps)
  have p: "genuine c content p" using Cons.prems(4) by simp
  obtain s1 w1 bs1 where d: "deliver apm_data_hook (s, w) p = Inr (s1, w1)"
      "recording path bs1 (record_packet st (packet_no c p)) rs s1 w1" "stores c content (insert (packet_no c p) D) bs1"
    using deliver_recorded [OF Cons.prems(1-3) p Cons.prems(5,6)] by blast
  have k: "request_meta s1 = request_meta s" "on_data_packet (hooks s1) = Some 7"
    using apm_data.deliver_keeps [OF d(1)] Cons.prems(5) by simp_all
  obtain s' w' bs' where "fold_c (deliver apm_data_hook) (s1, w1) ps = Inr (s', w')"
      "recording path bs' (foldl record_packet (record_packet st (packet_no c p)) (map (packet_no c) ps)) rs s' w'"
      "stores c content (insert (packet_no c p) D \<union> set (map (packet_no c) ps)) bs'"
    using Cons.IH [OF d(2) _ _ _ k(2) d(3)] Cons.prems(2-4) k(1) by auto
  with d(1) show ?case by auto
qed auto

lemma record_sound:
  "covered (all_segs (foldl record_packet st ks)) \<subseteq> covered (all_segs st) \<union> of_nat ` set ks"
proof (induction ks arbitrary: st)
  case (Cons k ks)
  have "covered (all_segs (record_packet st k)) \<subseteq> covered (all_segs st) \<union> {of_nat k}"
    using range_spec_sound [of st "(of_nat k, of_nat k)"] by (simp add: record_packet_def seg_set_def)
  with Cons.IH [of "record_packet st k"] show ?case by auto
qed simp

lemma record_open: "snd (record_packet st k) \<noteq> None"
  by (cases st) (auto simp: record_packet_def range_spec_def split: option.splits)

lemma record_exact:
  assumes "ordered (all_segs st)" and "fst st \<noteq> [] \<Longrightarrow> snd st \<noteq> None" and "sorted ks"
    and "\<forall>k \<in> set ks. k < 4294967295" and "\<forall>x \<in> covered (all_segs st). \<forall>k \<in> set ks. unat x \<le> k"
  shows "ordered (all_segs (foldl record_packet st ks)) \<and>
    covered (all_segs (foldl record_packet st ks)) = covered (all_segs st) \<union> of_nat ` set ks"
  using assms
proof (induction ks arbitrary: st)
  case (Cons k ks)
  have k: "unat (of_nat k :: u32) = k" "of_nat k \<noteq> UINT32_MAX"
    using Cons.prems(4) by (auto simp: unat_of_nat_u32 word_unat_eq_iff)
  have "\<forall>x \<in> covered (all_segs st). x \<le> of_nat k" using Cons.prems(5) k(1) by (simp add: word_le_nat_alt)
  then have r: "ordered (all_segs (record_packet st k))"
      "covered (all_segs (record_packet st k)) = insert (of_nat k) (covered (all_segs st))"
    using range_spec_packet [of "fst st" "snd st" "of_nat k"] Cons.prems(1,2) k(2) by (auto simp: record_packet_def)
  moreover have "\<forall>x \<in> covered (all_segs (record_packet st k)). \<forall>j \<in> set ks. unat x \<le> j"
    using Cons.prems(3,5) k(1) unfolding r(2) by auto
  ultimately have "ordered (all_segs (foldl record_packet (record_packet st k) ks)) \<and>
      covered (all_segs (foldl record_packet (record_packet st k) ks)) =
        covered (all_segs (record_packet st k)) \<union> of_nat ` set ks"
    using Cons.IH [of "record_packet st k"] Cons.prems(3,4) record_open [of st k] by simp
  with r(2) show ?case by simp
qed simp

section \<open>Start, end and release\<close>

lemma new_stream_simps:
  "new_stream fs path = (fs', f) \<Longrightarrow> f = Some (next_stream fs) \<and> contents fs' = contents fs \<and>
   streams fs' (next_stream fs) = Some \<lparr>st_path = path, st_pos = 0\<rparr>"
  by (auto simp: new_stream_def)

lemma start_fresh:
  assumes "hook_ctx (hooks s) = None" and "bytes_received s = 0" and "user_context s = Some path"
    and "length path < 1024" and "may_open (hw_files w) path" and "plenty (hw_heap w)"
  shows "\<exists>s' w'. apm_on_start s w = Inr (s', w') \<and> (\<exists>c. s' = set_ctx c s) \<and>
    recording path [] ([], None) None s' w'"
proof -
  let ?n = "next_stream (hw_files w)" and ?ctx = "fresh_ctx\<lparr>out_file := Some (next_stream (hw_files w))\<rparr>"
  let ?fs = "fst (new_stream ((hw_files w)\<lparr>contents := (contents (hw_files w))(path := Some [])\<rparr>) path)"
  have "apm_on_start s w = Inr (set_ctx (Some ?ctx) s, w\<lparr>hw_files := ?fs\<rparr>)"
    using assms(1-5) by (simp add: apm_on_start_def sprintf_name_def dtp_session_get_user_ctx_def fopen_wb_def new_stream_def)
  moreover have "recording path [] ([], None) None (set_ctx (Some ?ctx) s) (w\<lparr>hw_files := ?fs\<rparr>)"
    unfolding recording_def
    by (intro exI [of _ ?ctx] exI [of _ ?n] exI [of _ 0] exI [of _ init_segments_ctx] exI [of _ "[]"])
      (use assms(6) tracks_init in \<open>simp add: fresh_ctx_def new_stream_def earlier_def\<close>)
  ultimately show ?thesis by blast
qed

text \<open>What a transfer leaves behind: a closed record, apart from the one read from the meta file.\<close>

definition ended :: "seg list \<Rightarrow> seg list option \<Rightarrow> apm_session \<Rightarrow> hook_world \<Rightarrow> bool" where
  "ended xs rs s w \<longleftrightarrow> (\<exists>ctx sg ns. hook_ctx (hooks s) = Some ctx \<and> ctx_segments ctx = Some sg \<and>
     list_rep (hw_heap w) sg ns \<and> map snd ns = xs \<and> plenty (hw_heap w) \<and>
     earlier (hw_heap w) (received_segments ctx) rs (addrs ns))"

definition final_record :: "seg list option \<Rightarrow> seg list \<times> seg option \<Rightarrow> seg list" where
  "final_record rs st = (case rs of None \<Rightarrow> close_spec st | Some r \<Rightarrow> merge_spec (close_spec st) r)"

lemma same_outside_mono: "same_outside {} h h' \<Longrightarrow> same_outside A h h'"
  by (simp add: same_outside_def)

lemma list_rep_addrs: "list_rep h ctx ns \<Longrightarrow> q \<in> addrs ns \<Longrightarrow> q \<noteq> NULL \<and> q < brk h"
  using chain_not_NULL by (auto simp: list_rep_def)

lemma join_received_rep:
  assumes "list_rep h sg ns" and "plenty h" and "earlier h r rs (addrs ns)"
  shows "\<exists>h' sg' ns'. join_received h sg r = Inr (h', sg') \<and> list_rep h' sg' ns' \<and> plenty h' \<and>
    earlier h' r rs (addrs ns') \<and> map snd ns' = (case rs of None \<Rightarrow> map snd ns | Some ys \<Rightarrow> merge_spec (map snd ns) ys)"
proof (cases r)
  case None
  with assms show ?thesis by (auto simp: join_received_def earlier_def)
next
  case (Some c)
  then obtain ms where ms: "list_rep h c ms" "rs = Some (map snd ms)" "addrs ms \<inter> addrs ns = {}"
    using assms(3) by (auto simp: earlier_def)
  obtain h1 mg ks where m: "merge_segments h sg c = Inr (h1, mg)" "list_rep h1 mg ks"
      "map snd ks = merge_spec (map snd ns) (map snd ms)" "same_outside {NULL} h h1" "addrs ks \<subseteq> insert NULL {brk h..<brk h1}"
    using merge_segments_refines [OF assms(1) ms(1) assms(2)] by blast
  have pl: "plenty h1" using assms(2) m(4) by (rule plenty_same)
  have l1: "list_rep h1 sg ns" "list_rep h1 c ms"
    using list_rep_same_outside [OF assms(1) m(4)] list_rep_same_outside [OF ms(1) m(4)] by auto
  obtain h2 where f: "free_segments h1 (Some sg) = Inr h2" "same_outside (addrs ns) h1 h2"
    using free_segments_rep [OF l1(1) pl] by blast
  have fresh: "brk h \<le> q" if "q \<in> addrs ks" for q
    using m(5) list_rep_addrs [OF m(2) that] that by auto
  have dj: "addrs ks \<inter> addrs ns = {}" "addrs ms \<inter> addrs ks = {}"
    using fresh list_rep_addrs [OF assms(1)] list_rep_addrs [OF ms(1)] by (auto simp: not_less [symmetric])
  have "list_rep h2 mg ks" "list_rep h2 c ms" "plenty h2"
    using list_rep_same_outside [OF m(2) f(2)] list_rep_same_outside [OF l1(2) f(2)] plenty_same [OF pl f(2)] dj ms(3) by auto
  with m(1,3) f(1) Some ms(2) dj show ?thesis by (auto simp: join_received_def earlier_def)
qed

lemma packet_count_ok:
  assumes "8 < mtu (request_meta s)" and "c = unat (mtu (request_meta s)) - 8"
  shows "\<exists>n. packet_count s = Inr n \<and> unat n = (unat (payload_size s) + (c - 1)) div c"
proof -
  let ?m = "mtu (request_meta s)" and ?P = "unat (payload_size s)"
  have c: "unat (chunk64 ?m) = c" "0 < c"
    using assms by (simp_all add: unat_chunk64 word_less_nat_alt word_le_nat_alt)
  let ?q = "ucast (ucast (payload_size s) div chunk64 ?m :: u64) :: u32"
  have q: "unat ?q = ?P div c"
    using le_less_trans [OF div_le_dividend unat_lt_u32 [of "payload_size s"], of c]
    by (subst unat_ucast_u64_u32) (simp_all add: unat_div c)
  have "(ucast (payload_size s) mod chunk64 ?m \<noteq> (0::u64)) = (?P mod c \<noteq> 0)"
    by (simp add: word_unat_eq_iff unat_mod c)
  moreover have "unat (?q + 1) = Suc (?P div c)" if "?P mod c \<noteq> 0"
  proof -
    have "2 \<le> c" using that c(2) by (cases "c = 1") auto
    then have "?P div c \<le> ?P div 2" by (intro div_le_mono2) simp_all
    then show ?thesis using unat_add_u32 [of ?q 1] q unat_lt_u32 [of "payload_size s"] by simp
  qed
  ultimately show ?thesis
    unfolding ceil_div [OF c(2)] using chunk64_nonzero [OF assms(1)] q by (simp add: packet_count_def)
qed

lemma end_recorded:
  assumes "recording path bs st rs s w" and "packet_count s = Inr count"
  shows "\<exists>ctx w'. apm_on_end s w = Inr (set_ctx (Some ctx) s, w') \<and>
    ended (final_record rs st) rs (set_ctx (Some ctx) s) w' \<and> contents (hw_files w') = contents (hw_files w) \<and>
    hw_out w' = hw_out w @ map segment_line (indexed (close_spec st)) @
      map segment_line (indexed (compl_spec (final_record rs st) 0 (count - 1)))"
proof -
  obtain ctx n pos sg ns where r: "hook_ctx (hooks s) = Some ctx" "out_file ctx = Some n"
      "streams (hw_files w) n = Some \<lparr>st_path = path, st_pos = pos\<rparr>"
      "ctx_segments ctx = Some sg" "tracks (hw_heap w) sg ns st" "plenty (hw_heap w)"
      "earlier (hw_heap w) (received_segments ctx) rs (owned sg ns)"
    using assms(1) unfolding recording_def by blast
  obtain h1 sg1 ns1 where c: "close_segments (hw_heap w) sg = Inr (h1, sg1)" "list_rep h1 sg1 ns1"
      "map snd ns1 = close_spec st" "same_outside (owned sg ns) (hw_heap w) h1" "addrs ns1 \<subseteq> owned sg ns"
    using close_segments_refines [OF r(5)] by blast
  have p1: "plenty h1" using r(6) c(4) by (rule plenty_same)
  have er: "earlier h1 (received_segments ctx) rs (addrs ns1)"
    using earlier_same [OF r(7) c(4)] c(5) by blast
  obtain h2 sg2 ns2 where j: "join_received h1 sg1 (received_segments ctx) = Inr (h2, sg2)" "list_rep h2 sg2 ns2"
      "plenty h2" "earlier h2 (received_segments ctx) rs (addrs ns2)" "map snd ns2 = final_record rs st"
    using join_received_rep [OF c(2) p1 er, unfolded c(3)] unfolding final_record_def by blast
  obtain h3 cp cs where g: "get_complement_segment h2 sg2 0 (count - 1) = Inr (h3, cp)" "list_rep h3 cp cs"
      "map snd cs = compl_spec (final_record rs st) 0 (count - 1)" "same_outside {} h2 h3" "addrs cs \<subseteq> {brk h2..<brk h3}"
    using get_complement_segment_refines [OF j(2,3), of 0 "count - 1"] j(5) by auto
  have p3: "plenty h3" using j(3) g(4) by (rule plenty_same)
  obtain h4 where f: "free_segments h3 (Some cp) = Inr h4" "same_outside (addrs cs) h3 h4"
    using free_segments_rep [OF g(2) p3] by blast
  have s4: "same_outside {} h2 h4" using g(4) f(2) by (rule same_outside_trans) (use g(5) in auto)
  have e4: "list_rep h4 sg2 ns2" "plenty h4" "earlier h4 (received_segments ctx) rs (addrs ns2)"
    using list_rep_same_outside [OF j(2) s4] plenty_same [OF j(3) s4]
      earlier_same [OF j(4) same_outside_mono [OF s4]] by auto
  let ?ctx = "ctx\<lparr>ctx_segments := Some sg2\<rparr>"
  have "ended (final_record rs st) rs (set_ctx (Some ?ctx) s) w'" if "hw_heap w' = h4" for w'
    unfolding ended_def using e4 j(5) that by (intro exI [of _ ?ctx] exI [of _ sg2] exI [of _ ns2]) simp
  then show ?thesis
    using r(1-4) c(1,3) j(1) g(1,3) f(1) assms(2) print_segments_rep [OF c(2) p1] print_segments_rep [OF g(2) p3]
    by (intro exI [of _ ?ctx]) (simp add: apm_on_end_def get_ctx_def fclose_def stream_of_def say_segments_def)
qed

section \<open>A transfer into a file\<close>

text \<open>The hooks of a fresh session, from its start to its end.\<close>

lemma fresh_transfer_stored:
  assumes "hook_ctx (hooks s) = None" and "bytes_received s = 0" and "user_context s = Some path"
    and "length path < 1024" and "may_open (hw_files w) path" and "plenty (hw_heap w)"
    and "8 < mtu (request_meta s)" and "c = unat (mtu (request_meta s)) - 8" and "on_data_packet (hooks s) = Some 7"
    and "\<forall>p \<in> set ps. genuine c content p" and "length content < 4294967295"
  shows "\<exists>s1 w1 s2 w2 s3 w3 bs xs. apm_on_start s w = Inr (s1, w1) \<and>
    fold_c (deliver apm_data_hook) (s1, w1) ps = Inr (s2, w2) \<and> apm_on_end s2 w2 = Inr (s3, w3) \<and>
    contents (hw_files w3) path = Some bs \<and> stores c content (packet_no c ` set ps) bs \<and>
    ((\<forall>k. k * c < length content \<longrightarrow> k \<in> packet_no c ` set ps) \<longrightarrow> bs = content) \<and>
    ended xs None s3 w3 \<and> covered xs \<subseteq> of_nat ` packet_no c ` set ps \<and>
    (sorted (map (packet_no c) ps) \<longrightarrow> ordered xs \<and> covered xs = of_nat ` packet_no c ` set ps)"
proof -
  let ?st = "foldl record_packet ([], None) (map (packet_no c) ps)"
  have c: "0 < c" using assms(7,8) by (simp add: word_less_nat_alt)
  obtain s1 w1 ctx where s1: "apm_on_start s w = Inr (s1, w1)" "s1 = set_ctx ctx s" "recording path [] ([], None) None s1 w1"
    using start_fresh [OF assms(1-6)] by blast
  then have m: "8 < mtu (request_meta s1)" "c = unat (mtu (request_meta s1)) - 8" "on_data_packet (hooks s1) = Some 7"
    using assms(7-9) by simp_all
  obtain s2 w2 bs where s2: "fold_c (deliver apm_data_hook) (s1, w1) ps = Inr (s2, w2)" "recording path bs ?st None s2 w2"
      "stores c content (packet_no c ` set ps) bs"
    using deliver_all_recorded [OF s1(3) m(1,2) assms(10) m(3) stores_empty] by auto
  have "8 < mtu (request_meta s2)" using apm_data.deliver_all_keeps [OF s2(1)] m(1) by simp
  then obtain n where "packet_count s2 = Inr n" using packet_count_ok by blast
  from end_recorded [OF s2(2) this] obtain s3 w3 where s3: "apm_on_end s2 w2 = Inr (s3, w3)"
      "ended (close_spec ?st) None s3 w3" "contents (hw_files w3) = contents (hw_files w2)"
    by (auto simp: final_record_def)
  have fl: "contents (hw_files w3) path = Some bs" using s2(2) s3(3) by (auto simp: recording_def)
  have sub: "covered (close_spec ?st) \<subseteq> of_nat ` packet_no c ` set ps"
    using close_spec_sound [of ?st] record_sound [of "([], None)" "map (packet_no c) ps"] by auto
  have "packet_no c p < 4294967295" if "p \<in> set ps" for p
    using assms(10,11) that le_less_trans [OF div_le_dividend, of "unat (pk_offset p)" "length content" c]
    by (auto simp: genuine_def packet_no_def)
  then have ex: "sorted (map (packet_no c) ps) \<longrightarrow>
      ordered (close_spec ?st) \<and> covered (close_spec ?st) = of_nat ` packet_no c ` set ps"
    using record_exact [of "([], None)" "map (packet_no c) ps"] close_spec_ordered [of ?st] by auto
  have cm: "(\<forall>k. k * c < length content \<longrightarrow> k \<in> packet_no c ` set ps) \<longrightarrow> bs = content"
    using stores_complete [OF s2(3) c] by blast
  show ?thesis
    by (rule exI [of _ s1], rule exI [of _ w1], rule exI [of _ s2], rule exI [of _ w2], rule exI [of _ s3],
        rule exI [of _ w3], rule exI [of _ bs], rule exI [of _ "close_spec ?st"])
      (intro conjI s1(1) s2(1,3) s3(1,2) fl cm ex sub)
qed

text \<open>
  C6. Packets of a payload, received by a fresh session in any order, with repetitions and losses: no hook
  fails, every packet received is in the file at its place once the transfer has ended (so the file
  is the payload when none is missing), and the record never claims a packet that did not
  arrive; it is exact when the packets came in increasing order.\<close>

theorem received_data_stored:
  assumes "hook_ctx (hooks s) = None" and "bytes_received s = 0" and "user_context s = Some path"
    and "length path < 1024" and "may_open (hw_files w) path" and "plenty (hw_heap w)"
    and "8 < mtu (request_meta s)" and "c = unat (mtu (request_meta s)) - 8" and "on_data_packet (hooks s) = Some 7"
    and "\<forall>p \<in> set ps. genuine c content p" and "length content < 4294967295"
  shows "\<exists>s1 w1 s2 w2 s3 w3 bs xs. apm_on_start s w = Inr (s1, w1) \<and>
    fold_c (deliver apm_data_hook) (s1, w1) ps = Inr (s2, w2) \<and> apm_on_end s2 w2 = Inr (s3, w3) \<and>
    contents (hw_files w3) path = Some bs \<and> stores c content (packet_no c ` set ps) bs \<and>
    ((\<forall>k. k * c < length content \<longrightarrow> k \<in> packet_no c ` set ps) \<longrightarrow> bs = content) \<and>
    ended xs None s3 w3 \<and> covered xs \<subseteq> of_nat ` packet_no c ` set ps \<and>
    (sorted (map (packet_no c) ps) \<longrightarrow> ordered xs \<and> covered xs = of_nat ` packet_no c ` set ps)"
  by (rule fresh_transfer_stored [OF assms])

text \<open>The states used in examples: an empty disk and heap, a payload of ten bytes cut into three packets.\<close>

definition example_world :: hook_world where
  "example_world = \<lparr>hw_heap = empty_heap,
     hw_files = \<lparr>contents = (\<lambda>_. None), may_open = (\<lambda>_. True), streams = (\<lambda>_. None), next_stream = 0\<rparr>,
     hw_clock = (\<lambda>_. 0), hw_ticks = 0, hw_out = []\<rparr>"

definition file_session :: apm_session where
  "file_session = zero_session\<lparr>hooks := apm_session_hooks, user_context := Some ''f'', payload_size := 10,
     request_meta := whole_request 1000 12\<rparr>"

definition ten_bytes :: "u8 list" where
  "ten_bytes = [1, 2, 3, 4, 5, 6, 7, 8, 9, 10]"

definition shuffled_packets :: "data_packet list" where
  "shuffled_packets = [\<lparr>pk_length = 10, pk_offset = 8, pk_session = 7, pk_data = [9, 10]\<rparr>,
     \<lparr>pk_length = 12, pk_offset = 0, pk_session = 7, pk_data = [1, 2, 3, 4]\<rparr>,
     \<lparr>pk_length = 12, pk_offset = 0, pk_session = 7, pk_data = [1, 2, 3, 4]\<rparr>,
     \<lparr>pk_length = 12, pk_offset = 4, pk_session = 7, pk_data = [5, 6, 7, 8]\<rparr>]"

theorem received_data_stored_witness:
  "\<exists>s1 w1 s2 w2 s3 w3. apm_on_start file_session example_world = Inr (s1, w1) \<and>
    fold_c (deliver apm_data_hook) (s1, w1) shuffled_packets = Inr (s2, w2) \<and> apm_on_end s2 w2 = Inr (s3, w3) \<and>
    contents (hw_files w3) ''f'' = Some ten_bytes"
proof -
  have s: "hook_ctx (hooks file_session) = None" "bytes_received file_session = 0" "user_context file_session = Some ''f''"
      "8 < mtu (request_meta file_session)" "4 = unat (mtu (request_meta file_session)) - 8"
      "on_data_packet (hooks file_session) = Some 7"
    by (simp_all add: file_session_def apm_session_hooks_def zero_session_def whole_request_def)
  have w: "may_open (hw_files example_world) ''f''" "plenty (hw_heap example_world)"
    by (simp_all add: example_world_def plenty_empty_heap)
  have g: "\<forall>p \<in> set shuffled_packets. genuine 4 ten_bytes p"
    by (simp add: shuffled_packets_def genuine_def ten_bytes_def)
  have l: "length ten_bytes = 10" by (simp add: ten_bytes_def)
  have all: "k \<in> packet_no 4 ` set shuffled_packets" if "k * 4 < length ten_bytes" for k
  proof -
    have "k \<in> {0, 1, 2}" using that l by auto
    then show ?thesis by (auto simp: shuffled_packets_def packet_no_def)
  qed
  from received_data_stored [OF s(1-3) _ w s(4-6) g] l all show ?thesis by force
qed

lemma spec_packets_genuine_upto:
  assumes "0 < c" and "c + 8 < 65536" and "length content < 4294967296"
    and "hi = length content \<or> hi mod c = 0 \<and> hi \<le> length content"
  shows "lo mod c = 0 \<or> hi \<le> lo \<Longrightarrow> \<forall>p \<in> set (spec_packets c sid content lo hi). genuine c content p"
proof (induction "hi - lo" arbitrary: lo rule: less_induct)
  case less
  have le: "hi \<le> length content" using assms(4) by auto
  show ?case
  proof (cases "hi \<le> lo")
    case True
    then show ?thesis by (simp add: spec_packets.simps)
  next
    case False
    then have lo: "lo mod c = 0" using less.prems by simp
    let ?n = "min c (hi - lo)"
    have nx: "(lo + ?n) mod c = 0 \<or> hi \<le> lo + ?n"
    proof (cases "c \<le> hi - lo")
      case True
      then have "(lo + ?n) mod c = lo mod c" by (simp only: min_absorb1 mod_add_self2)
      with lo show ?thesis by simp
    qed (use False in \<open>simp add: min_def\<close>)
    have "hi - (lo + ?n) < hi - lo" using False assms(1) by simp
    note rest = less.hyps [OF this nx]
    have full: "c \<le> hi - lo" if "hi mod c = 0"
    proof -
      have "c dvd hi - lo" using that lo by (intro dvd_diff_nat) auto
      then show ?thesis using False by (intro dvd_imp_le) auto
    qed
    have n: "take ?n (drop lo content) = take c (drop lo content)"
      using assms(4) full by (cases "c \<le> hi - lo") (auto simp: min_absorb1 min_absorb2)
    have off: "unat (of_nat lo :: u32) = lo" using False le assms(3) by (intro unat_of_nat_u32) simp
    have "unat (of_nat (?n + 8) :: u16) = ?n + 8" using assms(2) by (intro unat_of_nat_u16) simp
    moreover have "min (length content - lo) c = ?n" using assms(4) full False le by (cases "c \<le> hi - lo") (auto simp: min_def)
    ultimately have "genuine c content \<lparr>pk_length = of_nat (?n + 8), pk_offset = of_nat lo, pk_session = sid,
        pk_data = take ?n (drop lo content)\<rparr>"
      unfolding n using lo False le off by (simp add: genuine_def)
    with rest show ?thesis using False assms(1) by (subst spec_packets.simps) simp
  qed
qed

lemmas spec_packets_genuine = spec_packets_genuine_upto [OF _ _ _ disjI1 [OF refl]]

lemma genuine_bytes_sum:
  "\<forall>p \<in> set ps. genuine c content p \<Longrightarrow>
   (\<Sum>p \<leftarrow> ps. ucast (pk_length p) - 8) = (of_nat (length (concat (map pk_data ps))) :: u32)"
proof (induction ps)
  case (Cons p ps)
  have "unat (pk_length p) = length (pk_data p) + 8" using Cons.prems by (simp add: genuine_def)
  then have "(ucast (pk_length p) :: u32) = of_nat (length (pk_data p)) + 8"
    by (metis of_nat_add of_nat_numeral of_nat_unat_u32 unat_ucast_u16_u32)
  with Cons show ?case by simp
qed simp

text \<open>
  A complete transfer: the loop of the client ends with \<open>DTP_OK\<close>, the file is the payload, and the
  record covers every packet.
\<close>

lemma download_to_file:
  assumes "on_start (hooks s) = Some 6" and "on_data_packet (hooks s) = Some 7" and "on_end (hooks s) = Some 8"
    and "hook_ctx (hooks s) = None" and "bytes_received s = 0" and "user_context s = Some path"
    and "length path < 1024" and "may_open (hw_files w) path" and "plenty (hw_heap w)"
    and "servable (request_meta s)" and "whole (request_meta s)" and "c = unat (mtu (request_meta s)) - 8"
    and "unat (payload_size s) = length content" and "length content < 4294967295" and "length content mod c \<noteq> 0"
    and "compute_dtp_metrics (request_meta s) (payload_size s) = Inr metric" and "xe_bind xe"
    and "unat (xe_now xe) + unat (total_duration_ms metric) + 2 * unat (round_time_ms metric) < 4294967296"
    and "ps = spec_packets c sid content 0 (length content)" and "on_schedule c (length ps) (xe_rx xe) (xe_now xe) ps"
    and "length content < fuel"
  shows "\<exists>s' w' xs. start_receiving_data fuel (apm_hook le) apm_data_hook xe s w = Inr ((s', w'), DTP_OK) \<and>
    contents (hw_files w') path = Some content \<and> bytes_received s' = payload_size s \<and>
    ended xs None s' w' \<and> ordered xs \<and> covered xs = of_nat ` {..length content div c}"
proof -
  have m: "8 < mtu (request_meta s)" using assms(10) by (simp add: servable_def)
  have c: "0 < c" "c + 8 < 65536" using m assms(12) unat_lt_u16 [of "mtu (request_meta s)"] by (auto simp: word_less_nat_alt)
  have gen: "\<forall>p \<in> set ps. genuine c content p"
    using spec_packets_genuine [OF c, of content 0 sid] assms(14,19) by simp
  have nos: "map (packet_no c) ps = [0..<Suc (length content div c)]"
    using spec_packets_numbers [OF c(1), of "length content" sid content 0] assms(14,15,19) ceil_div [OF c(1), of "length content"]
    by (simp add: packet_no_def [abs_def])
  have len: "length ps = Suc (length content div c)" using arg_cong [OF nos, of length] by simp
  have num: "numbered c ps"
    using nos len unfolding numbered_def by (metis (no_types, lifting) add_0 length_map nth_map nth_upt packet_no_def)
  have st: "set (map (packet_no c) ps) = {..length content div c}" unfolding nos by auto
  let ?s0 = "s\<lparr>start_ts := xe_start xe\<rparr>"
  obtain s1 w1 ctx where s1: "apm_on_start ?s0 w = Inr (s1, w1)" "s1 = set_ctx ctx ?s0" "recording path [] ([], None) None s1 w1"
    using start_fresh [of ?s0 path w] assms(4-9) by auto
  let ?s1 = "s1\<lparr>active := True\<rparr>"
  have rec: "recording path [] ([], None) None ?s1 w1" using s1(3) recording_session [of ?s1 s1] by simp
  have f1: "request_meta ?s1 = request_meta s" "payload_size ?s1 = payload_size s" "bytes_received ?s1 = 0" "active ?s1"
      "on_data_packet (hooks ?s1) = Some 7" "on_end (hooks ?s1) = Some 8"
    using s1(2) assms(2,3,5) by simp_all
  let ?st = "foldl record_packet ([], None) (map (packet_no c) ps)"
  obtain s2 w2 bs where s2: "fold_c (deliver apm_data_hook) (?s1, w1) ps = Inr (s2, w2)" "recording path bs ?st None s2 w2"
      "stores c content (set (map (packet_no c) ps)) bs"
    using deliver_all_recorded [OF rec _ _ gen f1(5) stores_empty] m assms(12) f1(1) by auto
  have bs: "bs = content"
    using stores_complete [OF s2(3) c(1)] c(1) unfolding st
    by (auto simp: div_le_mono less_imp_le) (metis div_le_mono less_imp_le nonzero_mult_div_cancel_right not_less_zero)
  have "concat (map pk_data ps) = content" using spec_packets_data [OF c(1) order_refl, where content = content and sid = sid and lo = 0] assms(19) by simp
  then have sum: "bytes_received ?s1 + (\<Sum>p \<leftarrow> ps. ucast (pk_length p) - 8) = payload_size ?s1"
    using genuine_bytes_sum [OF gen] f1(2,3) assms(13) by (metis add_0 of_nat_unat_u32)
  have "length content div c \<le> length content" by (rule div_le_dividend)
  then have fuel: "length ps \<le> fuel" using len assms(21) by linarith
  have big: "payload_size s \<noteq> UINT32_MAX" using assms(13,14) by (auto simp: word_unat_eq_iff)
  have mt: "unat (last_packet metric) = length content div c" "unat (nof_packets metric) = length ps"
      "1000 \<le> unat (total_duration_ms metric)"
    using metrics_whole [OF assms(10,11,16) big] assms(12,13) len by simp_all
  have kp: "bytes_received s2 = payload_size s" "payload_size s2 = payload_size s" "request_meta s2 = request_meta s"
      "on_end (hooks s2) = Some 8"
    using apm_data.deliver_all_keeps [OF s2(1)] sum f1 by simp_all
  obtain rx where rx: "receive_loop fuel apm_data_hook metric (xe_rx xe) 0 (initial_rx metric (xe_now xe), ?s1, w1) =
      Inr ((rx, s2, w2), DTP_OK)"
    using apm_data.receive_all [OF initial_rx_at [OF assms(18) mt(3)], of c "xe_rx xe" ps ?s1 w1 s2 w2 fuel]
      mt assms(12,20) num m f1(1,4) s2(1) len fuel kp by auto
  obtain n where n: "packet_count s2 = Inr n" using packet_count_ok [of s2] m kp(3) by auto
  obtain s3 w3 ctx3 where s3: "apm_on_end s2 w2 = Inr (s3, w3)" "ended (close_spec ?st) None s3 w3"
      "contents (hw_files w3) = contents (hw_files w2)" "s3 = set_ctx (Some ctx3) s2"
    using end_recorded [OF s2(2) n] by (auto simp: final_record_def)
  have bd: "\<forall>k \<in> set (map (packet_no c) ps). k < 4294967295"
    unfolding st using le_less_trans [OF div_le_dividend assms(14)] by (auto intro: le_less_trans)
  have "sorted (map (packet_no c) ps)" unfolding nos by (rule sorted_upt)
  then have r: "ordered (all_segs ?st)" "covered (all_segs ?st) = of_nat ` set (map (packet_no c) ps)"
    using record_exact [OF _ _ _ bd, of "([], None)"] by simp_all
  then have ex: "ordered (close_spec ?st)" "covered (close_spec ?st) = of_nat ` {..length content div c}"
    using st by (simp_all only: close_spec_ordered [OF r(1)])
  have run: "start_receiving_data fuel (apm_hook le) apm_data_hook xe s w = Inr ((s3, w3), DTP_OK)"
    using assms(1,16,17) s1(1) f1 rx kp(4) s3(1)
    by (simp add: start_receiving_data_def run_hook_def apm_hook_def)
  have fl: "contents (hw_files w3) path = Some content" using s2(2) s3(3) bs by (auto simp: recording_def)
  show ?thesis
    by (rule exI [of _ s3], rule exI [of _ w3], rule exI [of _ "close_spec ?st"])
      (intro conjI run fl s3(2) ex, use s3(4) kp(1) in simp)
qed

end
