(* ===== verification/Client_Outcomes.thy ===== *)
theory Client_Outcomes
  imports Hooks_Correct
begin

text \<open>
  What the results of a transfer mean to its caller, with the hooks a client really has: what \<open>DTP_OK\<close>
  guarantees and what it does not, and how a transfer ends when the network falls silent or another task
  stops it.
\<close>

section \<open>The packets the loop takes\<close>

text \<open>The packets of \<open>m\<close> events, and those the receive loop does not drop as repetitions.\<close>

definition arrivals :: "(nat \<Rightarrow> rx_event) \<Rightarrow> nat \<Rightarrow> nat \<Rightarrow> data_packet list" where
  "arrivals evs k m = concat (map (\<lambda>j. case rx_packet (evs j) of None \<Rightarrow> [] | Some p \<Rightarrow> [p]) [k..<k + m])"

fun accepted :: "nat \<Rightarrow> u32 \<Rightarrow> data_packet list \<Rightarrow> data_packet list" where
  "accepted c prev [] = []"
| "accepted c prev (p # ps) =
     (if of_nat (packet_no c p) = prev then accepted c prev ps else p # accepted c (of_nat (packet_no c p)) ps)"

lemma arrivals_0 [simp]: "arrivals evs k 0 = []"
  by (simp add: arrivals_def)

lemma arrivals_Suc:
  "arrivals evs k (Suc m) = (case rx_packet (evs k) of None \<Rightarrow> [] | Some p \<Rightarrow> [p]) @ arrivals evs (Suc k) m"
  by (simp add: arrivals_def upt_conv_Cons del: upt_Suc)

lemma set_arrivals: "p \<in> set (arrivals evs k m) \<Longrightarrow> \<exists>j. rx_packet (evs j) = Some p"
  by (auto simp: arrivals_def split: option.splits)

lemma set_accepted: "set (accepted c prev ps) \<subseteq> set ps"
  by (induction ps arbitrary: prev) auto

lemma adjust_eot_returns: "\<exists>eot. adjust_eot m metric rx = Inr eot"
proof -
  have "x \<noteq> 0 \<Longrightarrow> (ucast x :: u64) \<noteq> 0" for x :: u32 by (simp add: word_unat_eq_iff)
  then show ?thesis by (auto simp: adjust_eot_def Let_def c_div_def word_gt_0)
qed

lemma receive_packet_cases:
  assumes "8 < mtu (request_meta s)" and "c = unat (mtu (request_meta s)) - 8"
  shows "of_nat (packet_no c p) = prev_packet_seq rx \<Longrightarrow>
      \<exists>rx'. receive_packet dhf metric now p (rx, s, w) = Inr ((rx', s, w), None) \<and> prev_packet_seq rx' = prev_packet_seq rx"
    and "of_nat (packet_no c p) \<noteq> prev_packet_seq rx \<Longrightarrow>
      \<exists>rx'. receive_packet dhf metric now p (rx, s, w) = c_bind (deliver dhf (s, w) p) (\<lambda>(s', w'). Inr ((rx', s', w'),
          if of_nat (packet_no c p) \<ge> last_packet metric
          then Some (if bytes_received s' = payload_size s' then DTP_OK else DTP_CANCELLED) else None)) \<and>
        prev_packet_seq rx' = of_nat (packet_no c p)"
proof -
  let ?m = "mtu (request_meta s)"
  have q: "c_div (ucast (pk_offset p)) (chunk64 ?m) = Inr (ucast (pk_offset p) div chunk64 ?m)"
    using chunk64_nonzero [OF assms(1)] by (simp add: c_div_def)
  note no = packet_seq_no [OF assms(1), of p, folded assms(2)]
  show "\<exists>rx'. receive_packet dhf metric now p (rx, s, w) = Inr ((rx', s, w), None) \<and> prev_packet_seq rx' = prev_packet_seq rx"
    if "of_nat (packet_no c p) = prev_packet_seq rx"
    using that by (simp add: receive_packet_def q no Let_def)
  let ?rx = "rx\<lparr>idle_ms := 0, now_ts_ms := now, packet_seq := of_nat (packet_no c p), prev_packet_seq := of_nat (packet_no c p),
      rx_nof_packets := rx_nof_packets rx + 1\<rparr>"
  obtain eot where e: "adjust_eot ?m metric ?rx = Inr eot" using adjust_eot_returns by blast
  let ?s = "s\<lparr>bytes_received := bytes_received s + (ucast (pk_length p) - 8)\<rparr>"
  show "\<exists>rx'. receive_packet dhf metric now p (rx, s, w) = c_bind (deliver dhf (s, w) p) (\<lambda>(s', w'). Inr ((rx', s', w'),
          if of_nat (packet_no c p) \<ge> last_packet metric
          then Some (if bytes_received s' = payload_size s' then DTP_OK else DTP_CANCELLED) else None)) \<and>
        prev_packet_seq rx' = of_nat (packet_no c p)"
    if "of_nat (packet_no c p) \<noteq> prev_packet_seq rx"
    by (rule exI [of _ "send_alive ?s (?rx\<lparr>expected_eot_ts_ms := eot\<rparr>)"])
      (use that e in \<open>simp add: receive_packet_def q no Let_def deliver_def\<close>)
qed

section \<open>What the loop has done when it returns\<close>

lemma active_same: "active s \<Longrightarrow> s\<lparr>active := True\<rparr> = s"
  by (cases s) simp

text \<open>
  One turn of the loop: it ends without a packet, it goes on as before (nothing arrived in time, or a
  repetition), or it delivers a packet and then ends or goes on.
\<close>

lemma loop_turn:
  assumes "active s" and "8 < mtu (request_meta s)" and "c = unat (mtu (request_meta s)) - 8"
  obtains (ends) rx1 a where "receive_loop (Suc n) dhf metric evs k (rx, s, w) = Inr ((rx1, s\<lparr>active := a\<rparr>, w), DTP_CANCELLED)"
  | (same) rx1 where "\<not> rx_stop (evs k)"
      "receive_loop (Suc n) dhf metric evs k (rx, s, w) = receive_loop n dhf metric evs (Suc k) (rx1, s, w)"
      "\<And>m. accepted c (prev_packet_seq rx) (arrivals evs k (Suc m)) = accepted c (prev_packet_seq rx1) (arrivals evs (Suc k) m)"
  | (taken) p rx1 where "\<not> rx_stop (evs k)" "rx_packet (evs k) = Some p"
      "receive_loop (Suc n) dhf metric evs k (rx, s, w) = c_bind (deliver dhf (s, w) p) (\<lambda>(s1, w1).
         if last_packet metric \<le> of_nat (packet_no c p)
         then Inr ((rx1, s1, w1), if bytes_received s1 = payload_size s1 then DTP_OK else DTP_CANCELLED)
         else receive_loop n dhf metric evs (Suc k) (rx1, s1, w1))"
      "\<And>m. accepted c (prev_packet_seq rx) (arrivals evs k (Suc m)) = p # accepted c (prev_packet_seq rx1) (arrivals evs (Suc k) m)"
proof (cases "now_ts_ms rx + idle_ms rx < expected_eot_ts_ms rx \<and> rx_nof_packets rx < nof_packets metric \<and> \<not> rx_stop (evs k)")
  case False
  show thesis by (rule ends [of _ "active s \<and> (now_ts_ms rx + idle_ms rx < expected_eot_ts_ms rx \<and> rx_nof_packets rx < nof_packets metric \<longrightarrow> \<not> rx_stop (evs k))"])
    (use False assms(1) in \<open>auto simp: receive_loop_Suc Let_def active_same\<close>)
next
  case go: True
  then have s: "s\<lparr>active := active s \<and> \<not> rx_stop (evs k)\<rparr> = s" using assms(1) by (simp add: active_same)
  note loop = receive_loop_Suc [of n dhf metric evs k rx s w, unfolded Let_def s]
  show thesis
  proof (cases "rx_packet (evs k)")
    case None
    let ?rx = "rx\<lparr>idle_ms := idle_ms rx + round_time_ms metric\<rparr>"
    show thesis
    proof (cases "idle_ms ?rx > ucast (timeout s) * 1000")
      case True
      then show thesis by (intro ends [of ?rx False]) (use go None assms(1) loop in simp)
    next
      case False
      then show thesis by (intro same [of ?rx]) (use go None assms(1) loop in \<open>simp_all add: arrivals_Suc\<close>)
    qed
  next
    case (Some p)
    show thesis
    proof (cases "of_nat (packet_no c p) = prev_packet_seq rx")
      case dup: True
      obtain rx1 where "receive_packet dhf metric (rx_now (evs k)) p (rx, s, w) = Inr ((rx1, s, w), None)"
          "prev_packet_seq rx1 = prev_packet_seq rx"
        using receive_packet_cases(1) [OF assms(2,3) dup, of dhf metric "rx_now (evs k)" w] by blast
      then show thesis by (intro same [of rx1]) (use go Some assms(1) loop dup in \<open>simp_all add: arrivals_Suc\<close>)
    next
      case new: False
      obtain rx1 where "receive_packet dhf metric (rx_now (evs k)) p (rx, s, w) = c_bind (deliver dhf (s, w) p) (\<lambda>(s', w'). Inr ((rx1, s', w'),
            if of_nat (packet_no c p) \<ge> last_packet metric
            then Some (if bytes_received s' = payload_size s' then DTP_OK else DTP_CANCELLED) else None))"
          "prev_packet_seq rx1 = of_nat (packet_no c p)"
        using receive_packet_cases(2) [OF assms(2,3) new, of dhf metric "rx_now (evs k)" w] by blast
      then show thesis
        by (intro taken [of p rx1]) (use go Some assms(1) loop new in \<open>simp_all add: arrivals_Suc c_bind_def split: sum.splits\<close>)
    qed
  qed
qed

context data_hook
begin

lemma loop_result:
  assumes "receive_loop n dhf metric evs k (rx, s, w) = Inr ((rx', s', w'), res)" and "active s"
    and "8 < mtu (request_meta s)" and "c = unat (mtu (request_meta s)) - 8"
  shows "\<exists>m s1 a. m \<le> n \<and> (\<forall>i < m. \<not> rx_stop (evs (k + i))) \<and> s' = s1\<lparr>active := a\<rparr> \<and>
    fold_c (deliver dhf) (s, w) (accepted c (prev_packet_seq rx) (arrivals evs k m)) = Inr (s1, w') \<and>
    (res = DTP_OK \<or> res = DTP_CANCELLED) \<and> (res = DTP_OK \<longrightarrow> bytes_received s1 = payload_size s1)"
  using assms
proof (induction n arbitrary: k rx s w)
  case (Suc n)
  have later: ?case if h: "receive_loop n dhf metric evs (Suc k) (rx1, s1, w1) = Inr ((rx', s', w'), res)" "active s1"
      "request_meta s1 = request_meta s" "\<not> rx_stop (evs k)"
      "\<And>m. fold_c (deliver dhf) (s, w) (accepted c (prev_packet_seq rx) (arrivals evs k (Suc m))) =
         fold_c (deliver dhf) (s1, w1) (accepted c (prev_packet_seq rx1) (arrivals evs (Suc k) m))" for rx1 s1 w1
  proof -
    have mm: "8 < mtu (request_meta s1)" "c = unat (mtu (request_meta s1)) - 8" using h(3) Suc.prems(3,4) by simp_all
    from Suc.IH [OF h(1,2) mm] obtain m s2 a where m: "m \<le> n" "\<forall>i < m. \<not> rx_stop (evs (Suc k + i))"
        "s' = s2\<lparr>active := a\<rparr>"
        "fold_c (deliver dhf) (s1, w1) (accepted c (prev_packet_seq rx1) (arrivals evs (Suc k) m)) = Inr (s2, w')"
        "res = DTP_OK \<or> res = DTP_CANCELLED" "res = DTP_OK \<longrightarrow> bytes_received s2 = payload_size s2"
      by (elim exE conjE) (rule that)
    have "\<not> rx_stop (evs (k + i))" if i: "i < Suc m" for i using i m(2) h(4) by (cases i) auto
    then show ?thesis by (intro exI [of _ "Suc m"] exI [of _ s2] exI [of _ a]) (use m h(5) in simp)
  qed
  show ?case
  proof (rule loop_turn [OF Suc.prems(2-4), of n dhf metric evs k rx w])
    fix rx1 a
    assume "receive_loop (Suc n) dhf metric evs k (rx, s, w) = Inr ((rx1, s\<lparr>active := a\<rparr>, w), DTP_CANCELLED)"
    then show ?case
      by (intro exI [of _ 0] exI [of _ s] exI [of _ a]) (use Suc.prems(1) in simp)
  next
    fix rx1
    assume t: "\<not> rx_stop (evs k)" "receive_loop (Suc n) dhf metric evs k (rx, s, w) = receive_loop n dhf metric evs (Suc k) (rx1, s, w)"
      "\<And>m. accepted c (prev_packet_seq rx) (arrivals evs k (Suc m)) = accepted c (prev_packet_seq rx1) (arrivals evs (Suc k) m)"
    show ?case by (rule later [of rx1 s w]) (use t Suc.prems(1,2) in simp_all)
  next
    fix p rx1
    assume t: "\<not> rx_stop (evs k)" "rx_packet (evs k) = Some p"
      "receive_loop (Suc n) dhf metric evs k (rx, s, w) = c_bind (deliver dhf (s, w) p) (\<lambda>(s1, w1).
         if last_packet metric \<le> of_nat (packet_no c p)
         then Inr ((rx1, s1, w1), if bytes_received s1 = payload_size s1 then DTP_OK else DTP_CANCELLED)
         else receive_loop n dhf metric evs (Suc k) (rx1, s1, w1))"
      "\<And>m. accepted c (prev_packet_seq rx) (arrivals evs k (Suc m)) = p # accepted c (prev_packet_seq rx1) (arrivals evs (Suc k) m)"
    obtain s1 w1 where d: "deliver dhf (s, w) p = Inr (s1, w1)" using Suc.prems(1) t(3) by (auto simp: c_bind_eq_Inr)
    have kp: "request_meta s1 = request_meta s" "active s1" using deliver_keeps [OF d] Suc.prems(2) by simp_all
    show ?case
    proof (cases "last_packet metric \<le> of_nat (packet_no c p)")
      case True
      then show ?thesis
        by (intro exI [of _ "Suc 0"] exI [of _ s1] exI [of _ "active s1"])
          (use Suc.prems(1) t d kp(2) in \<open>auto simp: active_same split: if_splits\<close>)
    next
      case False
      then show ?thesis by (intro later [of rx1 s1 w1]) (use Suc.prems(1) t d kp in simp_all)
    qed
  qed
qed simp

text \<open>When every delivery succeeds, the loop returns at the latest at the turn that sees a stop.\<close>

lemma loop_returns:
  assumes "\<And>s w p. P s w \<Longrightarrow> Q p \<Longrightarrow> \<exists>s' w'. deliver dhf (s, w) p = Inr (s', w') \<and> P s' w'"
    and "\<And>j p. rx_packet (evs j) = Some p \<Longrightarrow> Q p"
  shows "P s w \<Longrightarrow> active s \<Longrightarrow> 8 < mtu (request_meta s) \<Longrightarrow> rx_stop (evs (k + j)) \<Longrightarrow> j < n \<Longrightarrow>
    \<exists>r. receive_loop n dhf metric evs k (rx, s, w) = Inr r"
proof (induction n arbitrary: k j rx s w)
  case (Suc n)
  have later: "\<exists>r. receive_loop n dhf metric evs (Suc k) (rx1, s1, w1) = Inr r"
    if h: "P s1 w1" "active s1" "request_meta s1 = request_meta s" "\<not> rx_stop (evs k)" for rx1 s1 w1
  proof -
    obtain i where "j = Suc i" using h(4) Suc.prems(4) by (cases j) auto
    then show ?thesis by (intro Suc.IH [where j = i]) (use h Suc.prems(3-5) in simp_all)
  qed
  show ?case
  proof (rule loop_turn [OF Suc.prems(2,3) refl, of n dhf metric evs k rx w])
    fix p rx1
    assume t: "\<not> rx_stop (evs k)" "rx_packet (evs k) = Some p"
      "receive_loop (Suc n) dhf metric evs k (rx, s, w) = c_bind (deliver dhf (s, w) p) (\<lambda>(s1, w1).
         if last_packet metric \<le> of_nat (packet_no (unat (mtu (request_meta s)) - 8) p)
         then Inr ((rx1, s1, w1), if bytes_received s1 = payload_size s1 then DTP_OK else DTP_CANCELLED)
         else receive_loop n dhf metric evs (Suc k) (rx1, s1, w1))"
    obtain s1 w1 where d: "deliver dhf (s, w) p = Inr (s1, w1)" "P s1 w1" using assms Suc.prems(1) t(2) by blast
    show ?case using later [OF d(2) _ _ t(1), of rx1] deliver_keeps [OF d(1)] Suc.prems(2) d(1) t(3) by simp
  qed (use later [OF Suc.prems(1,2) refl] in simp_all)
qed simp

end

section \<open>Bytes and packets\<close>

lemma accepted_numbers:
  "j < 4294967296 \<Longrightarrow> map (packet_no c) (accepted c (of_nat j) ps) = tl (remdups_adj (j # map (packet_no c) ps))"
proof (induction ps arbitrary: j)
  case (Cons p ps)
  have "of_nat (packet_no c p) = (of_nat j :: u32) \<longleftrightarrow> packet_no c p = j"
    using packet_no_lt [of c p] Cons.prems by (metis unat_of_nat_u32)
  with Cons packet_no_lt [of c p] show ?case by simp
qed simp

lemma accepted_first_numbers:
  assumes "\<forall>p \<in> set ps. packet_no c p < 4294967295"
  shows "map (packet_no c) (accepted c 0xFFFFFFFF ps) = remdups_adj (map (packet_no c) ps)"
proof -
  have "map (packet_no c) (accepted c (of_nat 4294967295) ps) = tl (remdups_adj (4294967295 # map (packet_no c) ps))"
    by (rule accepted_numbers) simp
  also have "\<dots> = remdups_adj (map (packet_no c) ps)" using assms by (cases ps) auto
  finally show ?thesis by simp
qed

lemma packet_sizes: "(\<Sum>k < N. min c (n - k * c)) = min n (N * c)" for n c N :: nat
  by (induction N) auto

lemma packet_bound: "0 < c \<Longrightarrow> {k. k * c < n} \<subseteq> {..<n}" for c n :: nat
proof (rule subsetI, clarify)
  fix j assume a: "0 < c" "j * c < n"
  have "j \<le> j * c" using a(1) by simp
  then show "j < n" using a(2) by (rule le_less_trans)
qed

text \<open>Different packets of a payload that have as many bytes as the payload are all its packets.\<close>

lemma all_bytes_all_packets:
  fixes c n :: nat
  assumes "S \<subseteq> {k. k * c < n}" and "(\<Sum>k \<in> S. min c (n - k * c)) = n" and "0 < c"
  shows "S = {k. k * c < n}"
proof (rule ccontr)
  assume "S \<noteq> {k. k * c < n}"
  then obtain k where k: "k * c < n" "k \<notin> S" using assms(1) by blast
  note T = packet_bound [OF assms(3), of n]
  have sub: "insert k S \<subseteq> {..<n}" using order_trans [OF assms(1) T] T k(1) by blast
  have fin: "finite S" by (rule finite_subset [OF order_trans [OF assms(1) T] finite_lessThan])
  have "(\<Sum>j \<in> insert k S. min c (n - j * c)) \<le> (\<Sum>j < n. min c (n - j * c))"
    by (rule sum_mono2 [OF finite_lessThan sub]) simp
  also have "\<dots> = n" using assms(3) by (simp add: packet_sizes)
  finally show False using k assms(2,3) fin by simp
qed

lemma genuine_no: "genuine c content p \<Longrightarrow> 0 < c \<Longrightarrow> packet_no c p * c < length content \<and>
    length (pk_data p) = min c (length content - packet_no c p * c)"
  by (auto simp: genuine_def packet_no_def mod_0_imp_dvd)

lemma genuine_sizes:
  assumes "\<forall>p \<in> set ps. genuine c content p" and "0 < c" and "distinct (map (packet_no c) ps)"
  shows "length (concat (map pk_data ps)) = (\<Sum>k \<in> packet_no c ` set ps. min c (length content - k * c))"
proof -
  have "length (concat (map pk_data ps)) = (\<Sum>k \<leftarrow> map (packet_no c) ps. min c (length content - k * c))"
    using assms(1) genuine_no [OF _ assms(2)] by (induction ps) auto
  also have "\<dots> = (\<Sum>k \<in> packet_no c ` set ps. min c (length content - k * c))"
    using assms(3) by (metis set_map sum_list_distinct_conv_sum_set)
  finally show ?thesis .
qed

lemma counted_bytes_complete:
  assumes "\<forall>p \<in> set ps. genuine c content p" and "0 < c" and "length content < 4294967296"
    and "distinct (map (packet_no c) ps)" and "(\<Sum>p \<leftarrow> ps. ucast (pk_length p) - 8) = (of_nat (length content) :: u32)"
  shows "packet_no c ` set ps = {k. k * c < length content}"
proof -
  let ?S = "packet_no c ` set ps" and ?f = "\<lambda>k. min c (length content - k * c)"
  have S: "?S \<subseteq> {k. k * c < length content}" using assms(1) genuine_no [OF _ assms(2)] by auto
  note T = packet_bound [OF assms(2), of "length content"]
  have "(\<Sum>k \<in> ?S. ?f k) \<le> (\<Sum>k < length content. ?f k)" by (rule sum_mono2 [OF finite_lessThan order_trans [OF S T]]) simp
  also have "\<dots> = length content" using assms(2) by (simp add: packet_sizes)
  finally have le: "(\<Sum>k \<in> ?S. ?f k) \<le> length content" .
  have "(of_nat (\<Sum>k \<in> ?S. ?f k) :: u32) = of_nat (length content)"
    using genuine_bytes_sum [OF assms(1)] genuine_sizes [OF assms(1,2,4)] assms(5) by simp
  then have "unat (of_nat (\<Sum>k \<in> ?S. ?f k) :: u32) = unat (of_nat (length content) :: u32)" by (rule arg_cong)
  then have "(\<Sum>k \<in> ?S. ?f k) = length content"
    unfolding unat_of_nat_u32 [OF assms(3)] unat_of_nat_u32 [OF le_less_trans [OF le assms(3)]] .
  then show ?thesis using S assms(2) by (intro all_bytes_all_packets)
qed
section \<open>What success means\<close>

text \<open>The hooks before and after the data change nothing of a session but their own object.\<close>

definition leaves_session :: "('c, 'w) hook_fun \<Rightarrow> hook option \<Rightarrow> bool" where
  "leaves_session hf h \<longleftrightarrow> (\<forall>s w s' w'. run_hook hf h s w = Inr (s', w') \<longrightarrow> (\<exists>x. s' = s\<lparr>hooks := (hooks s)\<lparr>hook_ctx := x\<rparr>\<rparr>))"

lemma default_leaves_session: "leaves_session default_hook h"
proof -
  have "\<exists>x. s = s\<lparr>hooks := (hooks s)\<lparr>hook_ctx := x\<rparr>\<rparr>" for s :: "'c dtp_t"
    by (rule exI [of _ "hook_ctx (hooks s)"]) simp
  then show ?thesis by (auto simp: leaves_session_def run_hook_def default_hook_def split: option.split)
qed

lemma apm_leave_session: "leaves_session (apm_hook le) (Some 6)" "leaves_session (apm_hook le) (Some 8)"
  by (auto simp: leaves_session_def run_hook_def apm_hook_def apm_on_start_def apm_on_end_def c_bind_eq_Inr Let_def
      set_ctx_def split_beta split: option.split_asm)

lemma arrived_numbers:
  assumes "\<forall>p \<in> set ps. packet_no c p < 4294967295"
  shows "packet_no c ` set (accepted c 0xFFFFFFFF ps) = packet_no c ` set ps"
  using arg_cong [OF accepted_first_numbers [OF assms], of set] by simp

lemma genuine_no_lt: "genuine c content p \<Longrightarrow> 0 < c \<Longrightarrow> length content < 4294967296 \<Longrightarrow> packet_no c p < 4294967295"
proof -
  assume "genuine c content p" "0 < c" "length content < 4294967296"
  then show ?thesis using genuine_no [of c content p] packet_bound [of c "length content"] by fastforce
qed

lemma accepted_complete:
  assumes "\<forall>p \<in> set ps. genuine c content p" and "0 < c" and "length content < 4294967296"
    and "distinct (remdups_adj (map (packet_no c) ps))"
    and "(\<Sum>p \<leftarrow> accepted c 0xFFFFFFFF ps. ucast (pk_length p) - 8) = (of_nat (length content) :: u32)"
  shows "packet_no c ` set ps = {k. k * c < length content}"
proof -
  have lt: "\<forall>p \<in> set ps. packet_no c p < 4294967295" using assms(1) genuine_no_lt [OF _ assms(2,3)] by blast
  have "\<forall>p \<in> set (accepted c 0xFFFFFFFF ps). genuine c content p" using set_accepted assms(1) by blast
  moreover have "distinct (map (packet_no c) (accepted c 0xFFFFFFFF ps))"
    using assms(4) by (simp only: accepted_first_numbers [OF lt])
  ultimately show ?thesis
    using counted_bytes_complete [OF _ assms(2,3) _ assms(5)] by (simp only: arrived_numbers [OF lt])
qed

lemma receiving_result:
  assumes "data_hook dhf" and "leaves_session hf (on_start (hooks s))" and "leaves_session hf (on_end (hooks s))"
    and "8 < mtu (request_meta s)" and "c = unat (mtu (request_meta s)) - 8"
    and "start_receiving_data fuel hf dhf xe s w = Inr ((s', w'), DTP_OK)"
  shows "\<exists>n \<le> fuel. payload_size s' = payload_size s \<and> bytes_received s' = payload_size s \<and>
    bytes_received s' = bytes_received s + (\<Sum>p \<leftarrow> accepted c 0xFFFFFFFF (arrivals (xe_rx xe) 0 n). ucast (pk_length p) - 8)"
proof -
  obtain s1 w1 metric rx s3 w3 where r:
      "run_hook hf (on_start (hooks s)) (s\<lparr>start_ts := xe_start xe\<rparr>) w = Inr (s1, w1)"
      "receive_loop fuel dhf metric (xe_rx xe) 0 (initial_rx metric (xe_now xe), s1\<lparr>active := True\<rparr>, w1) = Inr ((rx, s3, w3), DTP_OK)"
      "run_hook hf (on_end (hooks s3)) s3 w3 = Inr (s', w')"
    using assms(6) by (auto simp: start_receiving_data_def c_bind_eq_Inr Let_def split: prod.splits if_splits)
  obtain x where x: "s1 = (s\<lparr>start_ts := xe_start xe\<rparr>)\<lparr>hooks := (hooks s)\<lparr>hook_ctx := x\<rparr>\<rparr>"
    using assms(2) r(1) unfolding leaves_session_def by fastforce
  let ?s1 = "s1\<lparr>active := True\<rparr>"
  have m: "8 < mtu (request_meta ?s1)" "c = unat (mtu (request_meta ?s1)) - 8" using x assms(4,5) by simp_all
  obtain n s2 a where n: "n \<le> fuel" "s3 = s2\<lparr>active := a\<rparr>" "bytes_received s2 = payload_size s2"
      "fold_c (deliver dhf) (?s1, w1) (accepted c 0xFFFFFFFF (arrivals (xe_rx xe) 0 n)) = Inr (s2, w3)"
    using data_hook.loop_result [OF assms(1) r(2) _ m] by (auto simp: initial_rx_def)
  note k = data_hook.deliver_all_keeps [OF assms(1) n(4)]
  have "on_end (hooks s3) = on_end (hooks s)" using k n(2) x by simp
  then obtain y where "s' = s3\<lparr>hooks := (hooks s3)\<lparr>hook_ctx := y\<rparr>\<rparr>"
    using assms(3) r(3) unfolding leaves_session_def by fastforce
  then have "payload_size s' = payload_size s2" "bytes_received s' = bytes_received s2" using n(2) by simp_all
  with n(1,3) k x show ?thesis by (intro exI [of _ n]) simp
qed

text \<open>
  C19. When \<open>dtp_start_transfer\<close> returns \<open>DTP_OK\<close>, the server was reached and answered, the session has the
  payload size the server announced and has received exactly that many bytes: what it had before and the data of the
  packets that arrived, less those that repeat the one before. When the transfer started from nothing, the
  packets were cut from the payload and none came again after another one, then no packet of the payload is
  missing. The hooks may be any that change nothing of the session but their own object, as the default hooks
  and the POSIX hooks do.\<close>

theorem transfer_ok_is_complete:
  assumes "data_hook dhf" and "leaves_session hf (on_start (hooks s))" and "leaves_session hf (on_end (hooks s))"
    and "8 < mtu (request_meta s)" and "c = unat (mtu (request_meta s)) - 8"
    and "dtp_start_transfer fuel le hf dhf xe s w = Inr ((s', w'), DTP_OK, cs)"
  shows "\<exists>conn resp n. xe_conn xe = Some conn \<and> xe_resp xe = Some resp \<and> cs = [Some conn] \<and> n \<le> fuel \<and>
    payload_size s' = resp_total_payload_size resp \<and> bytes_received s' = payload_size s' \<and>
    bytes_received s' = bytes_received s + (\<Sum>p \<leftarrow> accepted c 0xFFFFFFFF (arrivals (xe_rx xe) 0 n). ucast (pk_length p) - 8) \<and>
    (bytes_received s = 0 \<and> unat (resp_total_payload_size resp) = length content \<and>
     (\<forall>p \<in> set (arrivals (xe_rx xe) 0 n). genuine c content p) \<and>
     distinct (remdups_adj (map (packet_no c) (arrivals (xe_rx xe) 0 n))) \<longrightarrow>
     packet_no c ` set (arrivals (xe_rx xe) 0 n) = {k. k * c < length content})"
proof -
  obtain cn where cn: "xe_conn xe = Some cn"
    using assms(6) by (auto simp: dtp_start_transfer_def split: option.splits)
  obtain resp where resp: "xe_resp xe = Some resp"
    using assms(6) cn by (auto simp: dtp_start_transfer_def Let_def read_remote_meta_resp_def
        split: option.splits prod.splits if_splits)
  let ?s = "s\<lparr>conn := Some cn, payload_size := resp_total_payload_size resp\<rparr>"
  have run: "start_receiving_data fuel hf dhf xe ?s w = Inr ((s', w'), DTP_OK)" and cs: "cs = [Some cn]"
    using assms(6) cn resp by (auto simp: dtp_start_transfer_def Let_def read_remote_meta_resp_def c_bind_eq_Inr
        split: prod.splits if_splits)
  obtain n where n: "n \<le> fuel" "payload_size s' = resp_total_payload_size resp" "bytes_received s' = payload_size s'"
      "bytes_received s' = bytes_received s + (\<Sum>p \<leftarrow> accepted c 0xFFFFFFFF (arrivals (xe_rx xe) 0 n). ucast (pk_length p) - 8)"
    using receiving_result [OF assms(1) _ _ _ _ run] assms(2-5) by auto
  have c: "0 < c" using assms(4,5) by (simp add: word_less_nat_alt)
  have all: "packet_no c ` set (arrivals (xe_rx xe) 0 n) = {k. k * c < length content}"
    if h: "bytes_received s = 0" "unat (resp_total_payload_size resp) = length content"
      "\<forall>p \<in> set (arrivals (xe_rx xe) 0 n). genuine c content p"
      "distinct (remdups_adj (map (packet_no c) (arrivals (xe_rx xe) 0 n)))"
  proof -
    have "length content < 4294967296" using unat_lt_u32 [of "resp_total_payload_size resp"] h(2) by simp
    moreover have "(\<Sum>p \<leftarrow> accepted c 0xFFFFFFFF (arrivals (xe_rx xe) 0 n). ucast (pk_length p) - 8) = (of_nat (length content) :: u32)"
      using n(2-4) h(1,2) by (metis add_0 of_nat_unat_u32)
    ultimately show ?thesis by (rule accepted_complete [OF h(3) c _ h(4)])
  qed
  show ?thesis
    by (rule exI [of _ cn], rule exI [of _ resp], rule exI [of _ n]) (use cn resp cs n all in simp)
qed

text \<open>A download of 1500 bytes in two packets into the file \<open>f\<close>.\<close>

definition two_packet_content :: "u8 list" where
  "two_packet_content = replicate 1024 1 @ replicate 476 2"

definition download_session :: apm_session where
  "download_session = file_session\<lparr>request_meta := whole_request 1000 1032\<rparr>"

lemma arrivals_then_silence: "arrivals (packets_then_silence ps) k n = take n (drop k ps)"
proof (induction n arbitrary: k)
  case (Suc n)
  show ?case
  proof (cases "k < length ps")
    case True
    then have "drop k ps = ps ! k # drop (Suc k) ps" by (simp add: Cons_nth_drop_Suc)
    with Suc True show ?thesis by (simp add: arrivals_Suc packets_then_silence_def)
  qed (use Suc in \<open>simp add: arrivals_Suc packets_then_silence_def\<close>)
qed simp

lemma two_packets_spec: "two_packets = spec_packets 1024 0 two_packet_content 0 1500"
  by (simp add: two_packets_def spec_packets.simps two_packet_content_def)

lemma two_packets_genuine: "\<forall>p \<in> set two_packets. genuine 1024 two_packet_content p"
  by (simp add: two_packets_def genuine_def two_packet_content_def)

lemma two_packets_numbers: "map (packet_no 1024) two_packets = [0, 1]"
  by (simp add: two_packets_def packet_no_def)

lemma download_succeeds:
  "\<exists>s' w'. dtp_start_transfer 1501 True (apm_hook True) apm_data_hook example_env download_session example_world =
     Inr ((s', w'), DTP_OK, [Some 3])"
proof -
  let ?s = "download_session\<lparr>conn := Some 3, payload_size := 1500\<rparr>"
  obtain r where m: "compute_dtp_metrics (whole_request 1000 1032) 1500 = Inr (example_metric r)" using example_metrics by blast
  have s: "request_meta ?s = whole_request 1000 1032" "payload_size ?s = 1500" "hook_ctx (hooks ?s) = None" "bytes_received ?s = 0"
      "on_start (hooks ?s) = Some 6" "on_data_packet (hooks ?s) = Some 7" "on_end (hooks ?s) = Some 8" "user_context ?s = Some ''f''"
    by (simp_all add: download_session_def file_session_def apm_session_hooks_def zero_session_def)
  have l: "length two_packet_content = 1500" by (simp add: two_packet_content_def)
  have sch: "on_schedule 1024 (length two_packets) (xe_rx example_env) (xe_now example_env) two_packets"
    by (simp add: on_schedule_def two_packets_def packets_then_silence_def All_less_Suc example_env_def)
  have "\<exists>s' w' xs. start_receiving_data 1501 (apm_hook True) apm_data_hook example_env ?s example_world = Inr ((s', w'), DTP_OK) \<and>
    contents (hw_files w') ''f'' = Some two_packet_content \<and> bytes_received s' = payload_size ?s \<and>
    ended xs None s' w' \<and> ordered xs \<and> covered xs = of_nat ` {..length two_packet_content div 1024}"
    by (rule download_to_file [where ps = two_packets and sid = 0 and metric = "example_metric r"])
      (use s m l sch two_packets_spec in \<open>simp_all add: servable_def whole_def whole_request_def example_world_def
        plenty_empty_heap example_env_def example_metric_def\<close>)
  then show ?thesis
    by (auto simp: dtp_start_transfer_def example_env_def send_remote_meta_req_def read_remote_meta_resp_def Let_def)
qed

theorem transfer_ok_is_complete_witness:
  "\<exists>s' w' n. dtp_start_transfer 1501 True (apm_hook True) apm_data_hook example_env download_session example_world =
     Inr ((s', w'), DTP_OK, [Some 3]) \<and> payload_size s' = 1500 \<and> bytes_received s' = 1500 \<and>
     packet_no 1024 ` set (arrivals (packets_then_silence two_packets) 0 n) = {k. k * 1024 < 1500}"
proof -
  obtain s' w' where d: "dtp_start_transfer 1501 True (apm_hook True) apm_data_hook example_env download_session example_world =
     Inr ((s', w'), DTP_OK, [Some 3])" using download_succeeds by blast
  have s: "leaves_session (apm_hook True) (on_start (hooks download_session))" "leaves_session (apm_hook True) (on_end (hooks download_session))"
      "8 < mtu (request_meta download_session)" "1024 = unat (mtu (request_meta download_session)) - 8"
      "bytes_received download_session = 0"
    using apm_leave_session
    by (simp_all add: download_session_def file_session_def apm_session_hooks_def zero_session_def whole_request_def)
  have e: "xe_rx example_env = packets_then_silence two_packets" "xe_conn example_env = Some 3"
      "xe_resp example_env = Some \<lparr>resp_size_in_bytes = 1500, resp_total_payload_size = 1500\<rparr>"
    by (simp_all add: example_env_def)
  have g: "\<forall>p \<in> set (take n two_packets). genuine 1024 two_packet_content p" for n
    using two_packets_genuine set_take_subset [of n two_packets] by blast
  have n: "distinct (remdups_adj (map (packet_no 1024) (take n two_packets)))" for n
    by (simp add: take_map [symmetric] two_packets_numbers remdups_adj_distinct)
  have l: "length two_packet_content = 1500" by (simp add: two_packet_content_def)
  from transfer_ok_is_complete [OF apm_data.data_hook_axioms s(1-4) d, where content = two_packet_content] d
  show ?thesis unfolding e using s(5) g n l by (simp add: arrivals_then_silence) (elim exE conjE, simp, blast)
qed

text \<open>
  Without the condition on repetitions \<open>DTP_OK\<close> does not mean complete: only a packet equal to the one before
  is dropped, so one that comes again later is counted again, and its bytes make up for those of a lost packet.
  Here packet 0 comes twice, packet 2 never, and the transfer succeeds.
\<close>

definition lossy_packets :: "data_packet list" where
  "lossy_packets = [\<lparr>pk_length = 1032, pk_offset = 0, pk_session = 0, pk_data = replicate 1024 1\<rparr>,
     \<lparr>pk_length = 1032, pk_offset = 1024, pk_session = 0, pk_data = replicate 1024 1\<rparr>,
     \<lparr>pk_length = 1032, pk_offset = 0, pk_session = 0, pk_data = replicate 1024 1\<rparr>,
     \<lparr>pk_length = 484, pk_offset = 3072, pk_session = 0, pk_data = replicate 476 1\<rparr>]"

lemma four_packet_metrics:
  "\<exists>r. compute_dtp_metrics (whole_request 1000 1032) 3548 = Inr \<lparr>round_time_ms = 1000, packets_per_round = 1,
     resulting_throughput = r, nof_packets = 4, last_packet = 3, total_duration_ms = 4000\<rparr>"
proof -
  have "optimise_round (Suc 9) 1000 1024 1000 1 1 = Inr 10" using rate_error_zero [of 1000] by (subst optimise_round.simps(2)) simp
  then have "optimise_round 10 1000 1024 1000 1 1 = Inr 10" by simp
  then show ?thesis
    by (auto simp: compute_dtp_metrics_def whole_request_def chunk32_def initial_round_def count_step_def
      interval_end_def simp del: optimise_round.simps)
qed

lemma repeated_packet_hides_loss:
  "\<exists>s'. dtp_start_transfer 4 True default_hook default_on_data_packet
      (example_env\<lparr>xe_resp := Some \<lparr>resp_size_in_bytes = 3548, resp_total_payload_size = 3548\<rparr>,
         xe_rx := packets_then_silence lossy_packets\<rparr>) example_session () = Inr ((s', ()), DTP_OK, [Some 3]) \<and>
    2 \<notin> packet_no 1024 ` set lossy_packets \<and> (\<forall>p \<in> set lossy_packets. genuine 1024 (replicate 3548 1) p)"
proof -
  obtain r where r: "compute_dtp_metrics (whole_request 1000 1032) 3548 = Inr \<lparr>round_time_ms = 1000, packets_per_round = 1,
     resulting_throughput = r, nof_packets = 4, last_packet = 3, total_duration_ms = 4000\<rparr>" using four_packet_metrics by blast
  have le: "\<not> (3::u32) \<le> 1" by (simp add: word_le_nat_alt)
  have "\<exists>s'. dtp_start_transfer (Suc (Suc (Suc (Suc 0)))) True default_hook default_on_data_packet
      (example_env\<lparr>xe_resp := Some \<lparr>resp_size_in_bytes = 3548, resp_total_payload_size = 3548\<rparr>,
         xe_rx := packets_then_silence lossy_packets\<rparr>) example_session () = Inr ((s', ()), DTP_OK, [Some 3])"
    using r le
    by (simp add: dtp_start_transfer_def example_env_def example_session_def zero_session_def zero_hooks_def
        send_remote_meta_req_def read_remote_meta_resp_def start_receiving_data_def run_hook_def receive_loop_Suc
        packets_then_silence_def lossy_packets_def receive_packet_def initial_rx_def adjust_eot_def chunk64_def
        send_alive_def run_data_hook_def Let_def whole_request_def)
  moreover have "2 \<notin> packet_no 1024 ` set lossy_packets" "\<forall>p \<in> set lossy_packets. genuine 1024 (replicate 3548 1) p"
    by (simp_all add: lossy_packets_def packet_no_def genuine_def)
  moreover have "(4::nat) = Suc (Suc (Suc (Suc 0)))" by simp
  ultimately show ?thesis by (simp only:) blast
qed

section \<open>Transfers into a file that are cut short\<close>

text \<open>A session with the POSIX hooks, ready to receive into a file from the start.\<close>

definition ready_for_file :: "string \<Rightarrow> apm_session \<Rightarrow> hook_world \<Rightarrow> bool" where
  "ready_for_file path s w \<longleftrightarrow> on_start (hooks s) = Some 6 \<and> on_data_packet (hooks s) = Some 7 \<and> on_end (hooks s) = Some 8 \<and>
     hook_ctx (hooks s) = None \<and> bytes_received s = 0 \<and> user_context s = Some path \<and> length path < 1024 \<and>
     may_open (hw_files w) path \<and> plenty (hw_heap w)"

lemma ready_starts:
  assumes "ready_for_file path s w"
  shows "\<exists>s1 w1 x. run_hook (apm_hook le) (on_start (hooks s)) (s\<lparr>start_ts := t\<rparr>) w = Inr (s1, w1) \<and>
    s1 = set_ctx x (s\<lparr>start_ts := t\<rparr>) \<and> recording path [] ([], None) None (s1\<lparr>active := a\<rparr>) w1"
proof -
  let ?s = "s\<lparr>start_ts := t\<rparr>"
  obtain s1 w1 x where "apm_on_start ?s w = Inr (s1, w1)" "s1 = set_ctx x ?s" "recording path [] ([], None) None s1 w1"
    using start_fresh [of ?s path w] assms by (auto simp: ready_for_file_def)
  then show ?thesis
    using assms recording_session [of "s1\<lparr>active := a\<rparr>" s1] by (auto simp: run_hook_def apm_hook_def ready_for_file_def)
qed

lemma recording_ends:
  assumes "recording path bs st None s w" and "8 < mtu (request_meta s)" and "on_end (hooks s) = Some 8"
  shows "\<exists>x w'. run_hook (apm_hook le) (on_end (hooks s)) s w = Inr (set_ctx x s, w') \<and>
    ended (close_spec st) None (set_ctx x s) w' \<and> contents (hw_files w') path = Some bs"
proof -
  obtain n where "packet_count s = Inr n" using packet_count_ok [OF assms(2) refl] by blast
  from end_recorded [OF assms(1) this] obtain ctx w' where "apm_on_end s w = Inr (set_ctx (Some ctx) s, w')"
      "ended (close_spec st) None (set_ctx (Some ctx) s) w'" "contents (hw_files w') = contents (hw_files w)"
    by (auto simp: final_record_def)
  moreover have "contents (hw_files w) path = Some bs" using assms(1) by (auto simp: recording_def)
  ultimately show ?thesis using assms(3)
    by (intro exI [of _ "Some ctx"] exI [of _ w']) (simp add: run_hook_def apm_hook_def)
qed

lemma silent_receiving:
  assumes "servable (request_meta s)" and "xe_bind xe" and "\<And>j. rx_packet (xe_rx xe j) = None" and "25501 \<le> fuel"
    and "run_hook hf (on_start (hooks s)) (s\<lparr>start_ts := xe_start xe\<rparr>) w = Inr (s1, w1)"
    and "request_meta s1 = request_meta s"
  shows "\<exists>a. start_receiving_data fuel hf dhf xe s w =
    c_bind (run_hook hf (on_end (hooks s1)) (s1\<lparr>active := a\<rparr>) w1) (\<lambda>(s4, w4). Inr ((s4, w4), DTP_CANCELLED))"
proof -
  let ?s = "s1\<lparr>active := True\<rparr>"
  obtain metric where m: "compute_dtp_metrics (request_meta ?s) (payload_size ?s) = Inr metric"
    using metrics_shape [OF assms(1), of "payload_size ?s"] assms(6) by auto
  have "unat (timeout ?s) * 1000 < 25501 * 10" using unat_lt_u8 [of "timeout s1"] by simp
  then have "unat (timeout ?s) * 1000 < fuel * 10" using assms(4) by linarith
  then obtain rx' a where "receive_loop fuel dhf metric (xe_rx xe) 0 (initial_rx metric (xe_now xe), ?s, w1) =
      Inr ((rx', ?s\<lparr>active := a\<rparr>, w1), DTP_CANCELLED)"
    using silent_loop_ends [of 0 "xe_rx xe" metric 0 "initial_rx metric (xe_now xe)" ?s fuel dhf w1]
      round_time_bound [OF assms(1)] m assms(3,6) by (auto simp: initial_rx_def)
  with m assms(2,5) show ?thesis by (intro exI [of _ a]) (simp add: start_receiving_data_def Let_def)
qed

text \<open>
  C20. When no packet arrives, the client gives up, for every request the metrics are defined for and every idle
  timeout: a session with the default hooks ends with \<open>DTP_CANCELLED\<close> and is otherwise as it was, and a session with
  the POSIX hooks ends with \<open>DTP_CANCELLED\<close>, an empty file and an empty record. At most 25501 waits of two
  rounds each are needed (the largest timeout, 255 s, at the shortest round, 10 ms).\<close>

theorem silence_cancels_transfer:
  assumes "xe_bind xe" and "\<And>j. rx_packet (xe_rx xe j) = None" and "25501 \<le> fuel"
  shows "(\<forall>(s :: 'c dtp_t) (w :: 'w). servable (request_meta s) \<longrightarrow> (\<exists>a. start_receiving_data fuel default_hook default_on_data_packet xe s w =
      Inr ((s\<lparr>start_ts := xe_start xe, active := a\<rparr>, w), DTP_CANCELLED))) \<and>
    (\<forall>path s w. servable (request_meta s) \<and> ready_for_file path s w \<longrightarrow> (\<exists>s' w'.
      start_receiving_data fuel (apm_hook le) apm_data_hook xe s w = Inr ((s', w'), DTP_CANCELLED) \<and>
      contents (hw_files w') path = Some [] \<and> ended [] None s' w' \<and> bytes_received s' = 0))"
proof (intro conjI allI impI)
  fix s :: "'c dtp_t" and w :: 'w
  assume s: "servable (request_meta s)"
  let ?s = "s\<lparr>start_ts := xe_start xe\<rparr>"
  have "run_hook default_hook (on_start (hooks s)) ?s w = Inr (?s, w)" by (simp add: run_hook_def default_hook_def split: option.split)
  from silent_receiving [OF s assms this, of default_on_data_packet]
  show "\<exists>a. start_receiving_data fuel default_hook default_on_data_packet xe s w =
      Inr ((s\<lparr>start_ts := xe_start xe, active := a\<rparr>, w), DTP_CANCELLED)"
    by (auto simp: run_hook_def default_hook_def split: option.splits)
next
  fix path s w
  assume h: "servable (request_meta s) \<and> ready_for_file path s w"
  obtain s1 w1 x where s1: "run_hook (apm_hook le) (on_start (hooks s)) (s\<lparr>start_ts := xe_start xe\<rparr>) w = Inr (s1, w1)"
      "s1 = set_ctx x (s\<lparr>start_ts := xe_start xe\<rparr>)" "recording path [] ([], None) None s1 w1"
    using ready_starts [OF conjunct2 [OF h], of le "xe_start xe" False] recording_session [of "_\<lparr>active := False\<rparr>"] by fastforce
  obtain a where a: "start_receiving_data fuel (apm_hook le) apm_data_hook xe s w =
      c_bind (run_hook (apm_hook le) (on_end (hooks s1)) (s1\<lparr>active := a\<rparr>) w1) (\<lambda>(s4, w4). Inr ((s4, w4), DTP_CANCELLED))"
    using silent_receiving [OF conjunct1 [OF h] assms s1(1)] s1(2) by auto
  let ?s = "s1\<lparr>active := a\<rparr>"
  have rec: "recording path [] ([], None) None ?s w1" using s1(3) recording_session [of ?s s1] by simp
  have f: "8 < mtu (request_meta ?s)" "on_end (hooks ?s) = Some 8" "bytes_received ?s = 0"
    using h s1(2) by (simp_all add: servable_def ready_for_file_def)
  obtain y w' where "run_hook (apm_hook le) (on_end (hooks ?s)) ?s w1 = Inr (set_ctx y ?s, w')"
      "ended (close_spec ([], None)) None (set_ctx y ?s) w'" "contents (hw_files w') path = Some []"
    using recording_ends [OF rec f(1,2)] by blast
  with a f(3) show "\<exists>s' w'. start_receiving_data fuel (apm_hook le) apm_data_hook xe s w = Inr ((s', w'), DTP_CANCELLED) \<and>
      contents (hw_files w') path = Some [] \<and> ended [] None s' w' \<and> bytes_received s' = 0"
    by (intro exI [of _ "set_ctx y ?s"] exI [of _ w']) (simp add: close_spec_def)
qed

lemma download_ready: "ready_for_file ''f'' download_session example_world" "servable (request_meta download_session)"
  by (simp_all add: ready_for_file_def download_session_def file_session_def apm_session_hooks_def zero_session_def
      example_world_def plenty_empty_heap servable_def whole_request_def)

theorem silence_cancels_transfer_witness:
  "(\<exists>a. start_receiving_data 25501 default_hook default_on_data_packet (example_env\<lparr>xe_rx := packets_then_silence []\<rparr>)
      example_session () = Inr ((example_session\<lparr>start_ts := 0, active := a\<rparr>, ()), DTP_CANCELLED)) \<and>
   (\<exists>s' w'. start_receiving_data 25501 (apm_hook True) apm_data_hook (example_env\<lparr>xe_rx := packets_then_silence []\<rparr>)
      download_session example_world = Inr ((s', w'), DTP_CANCELLED) \<and> contents (hw_files w') ''f'' = Some [] \<and>
      ended [] None s' w')"
proof -
  let ?xe = "example_env\<lparr>xe_rx := packets_then_silence []\<rparr>"
  have e: "xe_bind ?xe" "rx_packet (xe_rx ?xe j) = None" "xe_start ?xe = 0" for j
    by (simp_all add: example_env_def packets_then_silence_def)
  note c = silence_cancels_transfer [OF e(1,2) order_refl, where le = True]
  from c [THEN conjunct1, rule_format, OF example_session_ok(1), of "()"]
    c [THEN conjunct2, rule_format, OF conjI [OF download_ready(2,1)]] show ?thesis unfolding e(3) by blast
qed

section \<open>A transfer that is stopped\<close>

lemma file_loop_returns:
  assumes "recording path bs st None s w" and "8 < mtu (request_meta s)" and "c = unat (mtu (request_meta s)) - 8"
    and "on_data_packet (hooks s) = Some 7" and "stores c content D bs" and "active s"
    and "\<And>j p. rx_packet (evs j) = Some p \<Longrightarrow> genuine c content p" and "rx_stop (evs k)" and "k < n"
  shows "\<exists>r. receive_loop n apm_data_hook metric evs 0 (rx, s, w) = Inr r"
proof -
  let ?P = "\<lambda>t v. request_meta t = request_meta s \<and> on_data_packet (hooks t) = Some 7 \<and>
    (\<exists>bs st D. recording path bs st None t v \<and> stores c content D bs)"
  have "\<exists>t' v'. deliver apm_data_hook (t, v) p = Inr (t', v') \<and> ?P t' v'" if P: "?P t v" and p: "genuine c content p" for t v p
  proof -
    obtain bs st D where r: "recording path bs st None t v" "stores c content D bs" using P by blast
    have m: "8 < mtu (request_meta t)" "c = unat (mtu (request_meta t)) - 8" using P assms(2,3) by simp_all
    obtain t' v' bs' where d: "deliver apm_data_hook (t, v) p = Inr (t', v')"
        "recording path bs' (record_packet st (packet_no c p)) None t' v'" "stores c content (insert (packet_no c p) D) bs'"
      using deliver_recorded [OF r(1) m p _ r(2)] P by blast
    have "request_meta t' = request_meta s" "on_data_packet (hooks t') = Some 7"
      using apm_data.deliver_keeps [OF d(1)] P by simp_all
    with d show ?thesis by blast
  qed
  then have step: "\<And>t v p. ?P t v \<Longrightarrow> genuine c content p \<Longrightarrow> \<exists>t' v'. deliver apm_data_hook (t, v) p = Inr (t', v') \<and> ?P t' v'"
    by blast
  have P: "?P s w" using assms(1,4,5) by blast
  show ?thesis
    by (rule apm_data.loop_returns [where P = ?P and Q = "genuine c content" and k = 0 and j = k, OF step _ P assms(6,2) _ assms(9)])
      (use assms(7,8) in simp_all)
qed

lemma accepted_record:
  assumes "\<forall>p \<in> set ps. packet_no c p < 4294967295"
  shows "covered (close_spec (foldl record_packet ([], None) (map (packet_no c) (accepted c 0xFFFFFFFF ps)))) \<subseteq> of_nat ` packet_no c ` set ps"
    and "sorted (map (packet_no c) ps) \<Longrightarrow>
      covered (close_spec (foldl record_packet ([], None) (map (packet_no c) (accepted c 0xFFFFFFFF ps)))) = of_nat ` packet_no c ` set ps"
proof -
  let ?ks = "map (packet_no c) (accepted c 0xFFFFFFFF ps)"
  let ?st = "foldl record_packet ([], None) ?ks"
  have ks: "?ks = remdups_adj (map (packet_no c) ps)" by (rule accepted_first_numbers [OF assms])
  then have set: "set ?ks = packet_no c ` set ps" by simp
  show "covered (close_spec ?st) \<subseteq> of_nat ` packet_no c ` set ps"
    using close_spec_sound [of ?st] record_sound [of "([], None)" ?ks] set by auto
  show "covered (close_spec ?st) = of_nat ` packet_no c ` set ps" if "sorted (map (packet_no c) ps)"
    using record_exact [of "([], None)" ?ks] close_spec_ordered [of ?st] that assms set ks by auto
qed

text \<open>
  Whatever packets of the payload have arrived, in whatever order, when another task stops the transfer: the loop
  returns, no hook fails, the file holds the packets at their places, and the record claims no other packet.
\<close>

lemma stopped_transfer_returns:
  assumes "ready_for_file path s w" and "servable (request_meta s)" and "c = unat (mtu (request_meta s)) - 8"
    and "xe_bind xe" and "\<And>j p. rx_packet (xe_rx xe j) = Some p \<Longrightarrow> genuine c content p" and "length content < 4294967296"
    and "rx_stop (xe_rx xe k)" and "k < fuel"
  shows "\<exists>s' w' res n bs xs. start_receiving_data fuel (apm_hook le) apm_data_hook xe s w = Inr ((s', w'), res) \<and>
    (res = DTP_CANCELLED \<or> res = DTP_OK \<and> bytes_received s' = payload_size s') \<and> n \<le> k \<and>
    contents (hw_files w') path = Some bs \<and> stores c content (packet_no c ` set (arrivals (xe_rx xe) 0 n)) bs \<and>
    ended xs None s' w' \<and> covered xs \<subseteq> of_nat ` packet_no c ` set (arrivals (xe_rx xe) 0 n) \<and>
    (sorted (map (packet_no c) (arrivals (xe_rx xe) 0 n)) \<longrightarrow>
      covered xs = of_nat ` packet_no c ` set (arrivals (xe_rx xe) 0 n))"
proof -
  obtain s1 w1 x where s1: "run_hook (apm_hook le) (on_start (hooks s)) (s\<lparr>start_ts := xe_start xe\<rparr>) w = Inr (s1, w1)"
      "s1 = set_ctx x (s\<lparr>start_ts := xe_start xe\<rparr>)" "recording path [] ([], None) None (s1\<lparr>active := True\<rparr>) w1"
    using ready_starts [OF assms(1), of le "xe_start xe" True] by blast
  let ?s = "s1\<lparr>active := True\<rparr>"
  have f: "8 < mtu (request_meta ?s)" "c = unat (mtu (request_meta ?s)) - 8" "on_data_packet (hooks ?s) = Some 7"
      "on_end (hooks ?s) = Some 8" "active ?s"
    using assms(1-3) s1(2) by (simp_all add: servable_def ready_for_file_def)
  obtain metric where m: "compute_dtp_metrics (request_meta ?s) (payload_size ?s) = Inr metric"
    using metrics_shape [OF assms(2), of "payload_size ?s"] s1(2) by auto
  have "\<exists>r. receive_loop fuel apm_data_hook metric (xe_rx xe) 0 (initial_rx metric (xe_now xe), ?s, w1) = Inr r"
    by (rule file_loop_returns [where content = content and evs = "xe_rx xe", OF s1(3) f(1-3) stores_empty f(5) _ assms(7,8)]) (rule assms(5))
  then obtain rx s3 w3 res where loop: "receive_loop fuel apm_data_hook metric (xe_rx xe) 0 (initial_rx metric (xe_now xe), ?s, w1) =
      Inr ((rx, s3, w3), res)"
    by auto
  obtain n s2 a where n: "\<forall>i < n. \<not> rx_stop (xe_rx xe i)" "s3 = s2\<lparr>active := a\<rparr>" "res = DTP_OK \<or> res = DTP_CANCELLED"
      "res = DTP_OK \<longrightarrow> bytes_received s2 = payload_size s2"
      "fold_c (deliver apm_data_hook) (?s, w1) (accepted c 0xFFFFFFFF (arrivals (xe_rx xe) 0 n)) = Inr (s2, w3)"
    using apm_data.loop_result [OF loop f(5,1,2)] by (auto simp: initial_rx_def)
  let ?ps = "arrivals (xe_rx xe) 0 n"
  let ?st = "foldl record_packet ([], None) (map (packet_no c) (accepted c 0xFFFFFFFF ?ps))"
  have c: "0 < c" using f(1,2) by (simp add: word_less_nat_alt)
  have gen: "\<forall>p \<in> set ?ps. genuine c content p" using set_arrivals assms(5) by blast
  then have lt: "\<forall>p \<in> set ?ps. packet_no c p < 4294967295" using genuine_no_lt [OF _ c assms(6)] by blast
  have "\<forall>p \<in> set (accepted c 0xFFFFFFFF ?ps). genuine c content p" using gen set_accepted by blast
  from deliver_all_recorded [OF s1(3) f(1,2) this f(3) stores_empty] n(5)
  obtain bs where bs: "recording path bs ?st None s2 w3" "stores c content (packet_no c ` set ?ps) bs"
    by (auto simp: arrived_numbers [OF lt])
  note kp = apm_data.deliver_all_keeps [OF n(5)]
  have rec: "recording path bs ?st None s3 w3" using bs(1) recording_session [of s3 s2] n(2) by simp
  have m3: "8 < mtu (request_meta s3)" "on_end (hooks s3) = Some 8" using kp n(2) f(1,4) by simp_all
  obtain y w' where e: "run_hook (apm_hook le) (on_end (hooks s3)) s3 w3 = Inr (set_ctx y s3, w')"
      "ended (close_spec ?st) None (set_ctx y s3) w'" "contents (hw_files w') path = Some bs"
    using recording_ends [OF rec m3] by blast
  have run: "start_receiving_data fuel (apm_hook le) apm_data_hook xe s w = Inr ((set_ctx y s3, w'), res)"
    using s1(1) m loop e(1) assms(4) by (simp add: start_receiving_data_def Let_def)
  have k: "n \<le> k" using n(1) assms(7) not_less by blast
  have r: "res = DTP_CANCELLED \<or> res = DTP_OK \<and> bytes_received (set_ctx y s3) = payload_size (set_ctx y s3)"
    using n(2-4) by auto
  show ?thesis
    by (rule exI [of _ "set_ctx y s3"], rule exI [of _ w'], rule exI [of _ res], rule exI [of _ n], rule exI [of _ bs],
        rule exI [of _ "close_spec ?st"]) (intro conjI impI run r k e(2,3) bs(2) accepted_record [OF lt])
qed

text \<open>The packets up to a packet boundary, and the record of them.\<close>

lemma first_packets:
  assumes "0 < c" and "c + 8 < 65536" and "length content < 4294967295" and "k * c < length content"
    and "ps = spec_packets c sid content 0 (k * c)"
  shows "\<forall>p \<in> set ps. genuine c content p" and "map (packet_no c) ps = [0..<k]" and "length ps = k" and "numbered c ps"
    and "(\<Sum>p \<leftarrow> ps. ucast (pk_length p) - 8) = (of_nat (k * c) :: u32)"
proof -
  show g: "\<forall>p \<in> set ps. genuine c content p"
    using spec_packets_genuine_upto [OF assms(1,2), of content "k * c" 0 sid] assms(3-5) by simp
  show nos: "map (packet_no c) ps = [0..<k]"
    using spec_packets_numbers [OF assms(1), of "k * c" sid content 0] assms(1,3-5) ceil_div [OF assms(1), of "k * c"]
    by (simp add: packet_no_def [abs_def])
  show len: "length ps = k" using arg_cong [OF nos, of length] by simp
  show "numbered c ps"
    using nos len unfolding numbered_def by (metis (no_types, lifting) add_0 length_map nth_map nth_upt packet_no_def diff_zero)
  have "concat (map pk_data ps) = take (k * c) content"
    using spec_packets_data [OF assms(1), of "k * c" content sid 0] assms(4,5) by simp
  then show "(\<Sum>p \<leftarrow> ps. ucast (pk_length p) - 8) = (of_nat (k * c) :: u32)"
    using genuine_bytes_sum [OF g] assms(4) by simp
qed

lemma first_record:
  "k < 4294967295 \<Longrightarrow> ordered (close_spec (foldl record_packet ([], None) [0..<k])) \<and>
    covered (close_spec (foldl record_packet ([], None) [0..<k])) = of_nat ` {..<k}"
  using record_exact [of "([], None)" "[0..<k]"] close_spec_ordered [of "foldl record_packet ([], None) [0..<k]"]
  by (auto simp: atLeast0LessThan)

text \<open>
  C31. A transfer of a whole payload into a file, in order and on schedule, that another task stops
  (\<open>dtp_stop_transfer\<close>) after \<open>k\<close> packets: the receive loop ends at the turn at which it sees the stop, with
  \<open>DTP_CANCELLED\<close> and the session inactive; the \<open>k\<close> packets are in the file and their bytes are counted, and the
  record kept for resuming the transfer has exactly these packets.\<close>

theorem stopped_transfer_ends:
  assumes "ready_for_file path s w" and "servable (request_meta s)" and "whole (request_meta s)"
    and "c = unat (mtu (request_meta s)) - 8" and "unat (payload_size s) = length content" and "length content < 4294967295"
    and "compute_dtp_metrics (request_meta s) (payload_size s) = Inr metric" and "xe_bind xe"
    and "unat (xe_now xe) + unat (total_duration_ms metric) + 2 * unat (round_time_ms metric) < 4294967296"
    and "k * c < length content" and "ps = spec_packets c sid content 0 (k * c)"
    and "on_schedule c (Suc (length content div c)) (xe_rx xe) (xe_now xe) ps" and "rx_stop (xe_rx xe k)" and "k < fuel"
  shows "\<exists>s' w' bs xs. start_receiving_data fuel (apm_hook le) apm_data_hook xe s w = Inr ((s', w'), DTP_CANCELLED) \<and>
    \<not> active s' \<and> contents (hw_files w') path = Some bs \<and> stores c content {..<k} bs \<and> bytes_received s' = of_nat (k * c) \<and>
    ended xs None s' w' \<and> ordered xs \<and> covered xs = of_nat ` {..<k}"
proof -
  obtain s1 w1 x where s1: "run_hook (apm_hook le) (on_start (hooks s)) (s\<lparr>start_ts := xe_start xe\<rparr>) w = Inr (s1, w1)"
      "s1 = set_ctx x (s\<lparr>start_ts := xe_start xe\<rparr>)" "recording path [] ([], None) None (s1\<lparr>active := True\<rparr>) w1"
    using ready_starts [OF assms(1), of le "xe_start xe" True] by blast
  let ?s = "s1\<lparr>active := True\<rparr>"
  have f: "8 < mtu (request_meta ?s)" "c = unat (mtu (request_meta ?s)) - 8" "on_data_packet (hooks ?s) = Some 7"
      "on_end (hooks ?s) = Some 8" "active ?s" "bytes_received ?s = 0"
      "compute_dtp_metrics (request_meta ?s) (payload_size ?s) = Inr metric"
    using assms(1,2,4,7) s1(2) by (simp_all add: servable_def ready_for_file_def)
  have c: "0 < c" "c + 8 < 65536" using f(1,2) unat_lt_u16 [of "mtu (request_meta ?s)"] by (auto simp: word_less_nat_alt)
  note fp = first_packets [OF c assms(6,10,11)]
  have big: "payload_size s \<noteq> UINT32_MAX" using assms(5,6) by (auto simp: word_unat_eq_iff)
  have mt: "unat (last_packet metric) = length content div c" "unat (nof_packets metric) = Suc (length content div c)"
      "1000 \<le> unat (total_duration_ms metric)"
    using metrics_whole [OF assms(2,3,7) big] assms(4,5) by simp_all
  have "k = k * c div c" using c(1) by simp
  also have "\<dots> \<le> length content div c" using assms(10) by (intro div_le_mono) simp
  finally have k: "k \<le> length content div c" .
  obtain s2 w2 bs where s2: "fold_c (deliver apm_data_hook) (?s, w1) ps = Inr (s2, w2)"
      "recording path bs (foldl record_packet ([], None) [0..<k]) None s2 w2" "stores c content {..<k} bs"
    using deliver_all_recorded [OF s1(3) f(1,2) fp(1) f(3) stores_empty] fp(2)
    by (auto simp: atLeast0LessThan simp flip: set_map)
  note kp = apm_data.deliver_all_keeps [OF s2(1)]
  obtain n where n: "fuel = Suc n + k" using assms(14) by (metis add.commute add_Suc_right less_imp_Suc_add)
  obtain rx where rx: "receive_loop fuel apm_data_hook metric (xe_rx xe) 0 (initial_rx metric (xe_now xe), ?s, w1) =
      receive_loop (Suc n) apm_data_hook metric (xe_rx xe) k (rx, s2, w2)" "rx_at metric (xe_now xe) k rx"
    using apm_data.receive_prefix [OF initial_rx_at [OF assms(9) mt(3)], of c "xe_rx xe" ps ?s w1 "(s2, w2)" k "Suc n"]
      fp(3,4) mt k f(1,2,5) s2(1) assms(12) n by auto
  let ?s2 = "s2\<lparr>active := False\<rparr>"
  have "receive_loop (Suc n) apm_data_hook metric (xe_rx xe) k (rx, s2, w2) = Inr ((rx, ?s2, w2), DTP_CANCELLED)"
    using rx(2) mt(2) k assms(13) by (simp add: receive_loop_Suc Let_def rx_at_def word_less_nat_alt)
  note loop = rx(1) [unfolded this]
  have rec: "recording path bs (foldl record_packet ([], None) [0..<k]) None ?s2 w2" using s2(2) recording_session [of ?s2 s2] by simp
  have m2: "8 < mtu (request_meta ?s2)" "on_end (hooks ?s2) = Some 8" using kp f(1,4) by simp_all
  obtain y w' where e: "run_hook (apm_hook le) (on_end (hooks ?s2)) ?s2 w2 = Inr (set_ctx y ?s2, w')"
      "ended (close_spec (foldl record_packet ([], None) [0..<k])) None (set_ctx y ?s2) w'" "contents (hw_files w') path = Some bs"
    using recording_ends [OF rec m2] by blast
  have run: "start_receiving_data fuel (apm_hook le) apm_data_hook xe s w = Inr ((set_ctx y ?s2, w'), DTP_CANCELLED)"
    using s1(1) f(7) loop e(1) assms(8) by (simp add: start_receiving_data_def Let_def)
  have "k < 4294967295" using packet_bound [OF c(1), of "length content"] assms(6,10) by fastforce
  then show ?thesis
    by (intro exI [of _ "set_ctx y ?s2"] exI [of _ w'] exI [of _ bs] exI [of _ "close_spec (foldl record_packet ([], None) [0..<k])"])
      (use run e(2,3) s2(3) kp f(6) fp(5) first_record in simp)
qed

text \<open>A stop after the first of the two packets.\<close>

definition stopped_env :: xfer_env where
  "stopped_env = example_env\<lparr>xe_rx := (\<lambda>j. (packets_then_silence two_packets j)\<lparr>rx_stop := 1 \<le> j\<rparr>)\<rparr>"

theorem stopped_transfer_ends_witness:
  "\<exists>s' w' bs xs. start_receiving_data 2 (apm_hook True) apm_data_hook stopped_env (download_session\<lparr>payload_size := 1500\<rparr>) example_world =
      Inr ((s', w'), DTP_CANCELLED) \<and> contents (hw_files w') ''f'' = Some bs \<and> stores 1024 two_packet_content {..<1} bs \<and>
    bytes_received s' = 1024 \<and> ended xs None s' w' \<and> covered xs = {0}"
proof -
  let ?s = "download_session\<lparr>payload_size := 1500\<rparr>"
  obtain r where "compute_dtp_metrics (whole_request 1000 1032) 1500 = Inr (example_metric r)" using example_metrics by blast
  then have m: "compute_dtp_metrics (request_meta ?s) (payload_size ?s) = Inr (example_metric r)" by (simp add: download_session_def)
  have s: "ready_for_file ''f'' ?s example_world" "servable (request_meta ?s)"
    using download_ready by (simp_all add: ready_for_file_def)
  have w: "whole (request_meta ?s)" "1024 = unat (mtu (request_meta ?s)) - 8" by (simp_all add: download_session_def whole_request_def whole_def)
  have l: "length two_packet_content = 1500" by (simp add: two_packet_content_def)
  have p: "spec_packets 1024 0 two_packet_content 0 (1 * 1024) = [two_packets ! 0]"
    by (simp add: spec_packets.simps two_packets_def two_packet_content_def)
  have e: "xe_bind stopped_env" "xe_now stopped_env = 0" "rx_stop (xe_rx stopped_env 1)"
    by (simp_all add: stopped_env_def example_env_def)
  have sch: "on_schedule 1024 (Suc (length two_packet_content div 1024)) (xe_rx stopped_env) (xe_now stopped_env)
      (spec_packets 1024 0 two_packet_content 0 (1 * 1024))"
    unfolding p l e(2) by (simp add: on_schedule_def stopped_env_def packets_then_silence_def two_packets_def)
  have "\<exists>s' w' bs xs. start_receiving_data 2 (apm_hook True) apm_data_hook stopped_env ?s example_world = Inr ((s', w'), DTP_CANCELLED) \<and>
    \<not> active s' \<and> contents (hw_files w') ''f'' = Some bs \<and> stores 1024 two_packet_content {..<1} bs \<and>
    bytes_received s' = of_nat (1 * 1024) \<and> ended xs None s' w' \<and> ordered xs \<and> covered xs = of_nat ` {..<1}"
    by (rule stopped_transfer_ends [OF s w _ _ m e(1) _ _ refl sch e(3)]) (simp_all add: l e(2) example_metric_def)
  then show ?thesis by (simp add: lessThan_Suc) blast
qed

end
