(* ===== verification/Hooks_Resume.thy ===== *)
theory Hooks_Resume
  imports Hooks_Correct Client_Sessions
begin

text \<open>
  Saving and resuming a session: the format of the meta file, that reading it gives back what was
  written, and that a resumed transfer asks for what is missing and completes the file.
\<close>

section \<open>The format of the meta file\<close>

definition header_bytes :: "bool \<Rightarrow> apm_session \<Rightarrow> u8 list" where
  "header_bytes le s = host_bytes le DTP_SESSION_VERSION @ host_bytes le (remote_node s) @
     host_bytes le (mtu (request_meta s)) @ host_bytes le (timeout s) @ host_bytes le (throughput (request_meta s)) @
     host_bytes le (payload_id (request_meta s)) @ host_bytes le (session_id (request_meta s)) @
     host_bytes le (bytes_received s) @ host_bytes le (payload_size s)"

definition seg_bytes :: "bool \<Rightarrow> seg \<Rightarrow> u8 list" where
  "seg_bytes le c = host_bytes le (fst c) @ host_bytes le (snd c)"

definition meta_bytes :: "bool \<Rightarrow> apm_session \<Rightarrow> seg list \<Rightarrow> u8 list" where
  "meta_bytes le s xs = header_bytes le s @ host_bytes le (of_nat (length xs) :: u32) @ concat (map (seg_bytes le) xs)"

lemma length_seg_bytes [simp]: "length (seg_bytes le c) = 8"
  by (simp add: seg_bytes_def word_size)

lemma length_header_bytes [simp]: "length (header_bytes le s) = 26"
  by (simp add: header_bytes_def word_size)

lemma length_segs_bytes: "length (concat (map (seg_bytes le) xs)) = 8 * length xs"
  by (induction xs) simp_all

section \<open>Saving\<close>

lemma write_header_written:
  "write_header le (Some n) s (written fs n path bs) = Inr (written fs n path (bs @ header_bytes le s))"
  by (simp add: write_header_def header_bytes_def)

lemma write_segments_written:
  "for_each_list (write_segment_to_file le (Some n)) i xs (written fs n path bs) =
     Inr (written fs n path (bs @ concat (map (seg_bytes le) xs)))"
  by (induction xs arbitrary: i bs) (simp_all add: write_segment_to_file_def seg_bytes_def)

lemma new_stream_written:
  "new_stream (fs\<lparr>contents := (contents fs)(path := Some [])\<rparr>) path =
     (written (fs\<lparr>next_stream := Suc (next_stream fs)\<rparr>) (next_stream fs) path [], Some (next_stream fs))"
  by (simp add: new_stream_def written_def)

lemma fclose_written:
  "\<exists>fs'. fclose (written fs n path bs) (Some n) = Inr fs' \<and> contents fs' = (contents fs)(path := Some bs) \<and>
     may_open fs' = may_open fs"
  by (simp add: fclose_def stream_of_def written_def)

lemma serialize_writes:
  assumes "ended xs rs s w" and "user_context s = Some name" and "length name < 1019"
    and "may_open (hw_files w) (name @ ''.meta'')"
  shows "\<exists>fs. apm_on_serialize le s w = Inr (s, w\<lparr>hw_files := fs\<rparr>) \<and> may_open fs = may_open (hw_files w) \<and>
    contents fs = (contents (hw_files w))(name @ ''.meta'' := Some (meta_bytes le s xs))"
proof -
  let ?path = "name @ ''.meta''" and ?n = "next_stream (hw_files w)"
  let ?fs = "(hw_files w)\<lparr>next_stream := Suc ?n\<rparr>"
  obtain ctx sg ns where e: "hook_ctx (hooks s) = Some ctx" "ctx_segments ctx = Some sg" "list_rep (hw_heap w) sg ns"
      "map snd ns = xs" "plenty (hw_heap w)"
    using assms(1) unfolding ended_def by blast
  have nof: "nof_segments sg = of_nat (length xs)" using e(3,4) by (auto simp: list_rep_def)
  obtain fs' where c: "fclose (written ?fs ?n ?path (meta_bytes le s xs)) (Some ?n) = Inr fs'"
      "contents fs' = (contents ?fs)(?path := Some (meta_bytes le s xs))" "may_open fs' = may_open ?fs"
    using fclose_written by blast
  have "apm_on_serialize le s w = Inr (s, w\<lparr>hw_files := fs'\<rparr>)"
    using assms(2-4) e(1,2) c(1)
    by (simp add: apm_on_serialize_def sprintf_name_def dtp_session_get_user_ctx_def fopen_wb_def new_stream_written
        write_header_written get_ctx_def get_nof_segments_def nof for_each_segment_list [OF e(3,5)] e(4)
        write_segments_written meta_bytes_def)
  with c(2,3) show ?thesis by auto
qed

section \<open>Reading a meta file\<close>

lemma fread_u32:
  "file_bytes fs path = pre @ host_bytes le w @ rest \<Longrightarrow>
   fread_word le (positioned fs n path (length pre)) (Some n) (old :: u32) =
     Inr (positioned fs n path (length (pre @ host_bytes le w)), w)"
  by (subst fread_word_positioned [of fs path pre le w rest]) (simp_all add: word_size)

lemma read_header_back:
  assumes "file_bytes fs path = header_bytes le s @ rest"
  shows "read_header le (Some n) s0 (positioned fs n path 4) = Inr (positioned fs n path 26,
    s0\<lparr>remote_node := remote_node s, timeout := timeout s, bytes_received := bytes_received s, payload_size := payload_size s,
       request_meta := (request_meta s0)\<lparr>mtu := mtu (request_meta s), throughput := throughput (request_meta s),
         payload_id := payload_id (request_meta s), session_id := session_id (request_meta s)\<rparr>\<rparr>)"
  by (simp add: read_header_def fread_word_def fread_positioned assms header_bytes_def word_size host_roundtrip)

lemma add_step_pair: "add_step (h, sg) c = add_segment h sg (fst c) (snd c)"
  by (simp add: add_step_def)

lemma read_segments_back:
  "file_bytes fs path = pre @ concat (map (seg_bytes le) xs) @ rest \<Longrightarrow>
   read_segments le (Some n) (length xs) (positioned fs n path (length pre), st) =
     c_bind (fold_c add_step st xs) (\<lambda>st'. Inr (positioned fs n path (length pre + 8 * length xs), st'))"
proof (induction xs arbitrary: pre st)
  case (Cons x xs)
  obtain h sg where st: "st = (h, sg)" by (cases st)
  let ?pre = "pre @ seg_bytes le x"
  have "fread_word le (positioned fs n path (length pre)) (Some n) (0::u32) =
      Inr (positioned fs n path (length (pre @ host_bytes le (fst x))), fst x)"
    using Cons.prems by (intro fread_u32) (simp add: seg_bytes_def)
  moreover have "fread_word le (positioned fs n path (length (pre @ host_bytes le (fst x)))) (Some n) (0::u32) =
      Inr (positioned fs n path (length ((pre @ host_bytes le (fst x)) @ host_bytes le (snd x))), snd x)"
    using Cons.prems by (intro fread_u32) (simp add: seg_bytes_def)
  moreover have "file_bytes fs path = ?pre @ concat (map (seg_bytes le) xs) @ rest" using Cons.prems by simp
  note Cons.IH [OF this]
  ultimately show ?case
    by (simp add: seg_bytes_def word_size st add_step_pair c_bind_assoc add.assoc split_def)
qed simp

section \<open>The request of a resumed session\<close>

definition interval_of :: "seg \<Rightarrow> interval_t" where
  "interval_of c = \<lparr>iv_start = fst c, iv_end = snd c\<rparr>"

lemma create_meta_data_walk:
  assumes "length (intervals req) = 8" and "k \<le> 8"
  shows "\<exists>ivs nof. for_each_list create_meta_data (of_nat k) cs req = Inr (req\<lparr>intervals := ivs, nof_intervals := nof\<rparr>) \<and>
    length ivs = 8 \<and> (cs \<noteq> [] \<and> k < 8 \<longrightarrow> unat nof = min 8 (k + length cs)) \<and> (cs = [] \<or> k = 8 \<longrightarrow> nof = nof_intervals req) \<and>
    take (min 8 (k + length cs)) ivs = take k (intervals req) @ map interval_of (take (8 - k) cs)"
  using assms
proof (induction cs arbitrary: k req)
  case Nil
  then show ?case by (intro exI [of _ "intervals req"] exI [of _ "nof_intervals req"]) simp
next
  case (Cons c cs)
  show ?case
  proof (cases "k = 8")
    case True
    with Cons.prems show ?thesis
      by (intro exI [of _ "intervals req"] exI [of _ "nof_intervals req"]) (simp add: create_meta_data_def)
  next
    case False
    then have k: "k < 8" using Cons.prems(2) by simp
    then have u: "unat (of_nat k :: u32) = k" by (simp add: unat_of_nat_u32)
    let ?req = "req\<lparr>intervals := (intervals req)[k := interval_of c], nof_intervals := ucast (of_nat k + 1 :: u32)\<rparr>"
    have step: "create_meta_data (of_nat k) (fst c) (snd c) req = Inr (?req, True)"
      using k u Cons.prems(1) by (simp add: create_meta_data_def word_less_nat_alt interval_of_def)
    obtain ivs nof where IH: "for_each_list create_meta_data (of_nat (Suc k)) cs ?req = Inr (?req\<lparr>intervals := ivs, nof_intervals := nof\<rparr>)"
        "length ivs = 8" "cs \<noteq> [] \<and> Suc k < 8 \<longrightarrow> unat nof = min 8 (Suc k + length cs)"
        "cs = [] \<or> Suc k = 8 \<longrightarrow> nof = nof_intervals ?req"
        "take (min 8 (Suc k + length cs)) ivs = take (Suc k) (intervals ?req) @ map interval_of (take (8 - Suc k) cs)"
      using Cons.IH [of ?req "Suc k"] Cons.prems(1) k by auto
    have nof: "unat (ucast (of_nat k + 1 :: u32) :: u8) = Suc k"
    proof -
      have "of_nat k + 1 = (of_nat (Suc k) :: u32)" by (simp add: add.commute)
      then have "unat (of_nat k + 1 :: u32) = Suc k" using k by (simp only: unat_of_nat_u32)
      then show ?thesis using k by (simp add: unsigned_ucast_eq take_bit_eq_mod)
    qed
    have tk: "take (Suc k) ((intervals req)[k := interval_of c]) = take k (intervals req) @ [interval_of c]"
      using k Cons.prems(1) by (simp add: take_Suc_conv_app_nth)
    have "8 - k = Suc (8 - Suc k)" using k by simp
    then have tl: "map interval_of (take (8 - k) (c # cs)) = interval_of c # map interval_of (take (8 - Suc k) cs)" by simp
    have un: "unat nof = min 8 (k + length (c # cs))"
    proof (cases "cs = [] \<or> Suc k = 8")
      case True
      then have "unat nof = Suc k" using IH(4) nof by simp
      moreover from True have "min 8 (k + length (c # cs)) = Suc k" by (elim disjE) (use k in auto)
      ultimately show ?thesis by simp
    next
      case False
      then have "unat nof = min 8 (Suc k + length cs)" using IH(3) k by linarith
      then show ?thesis by simp
    qed
    have "of_nat k + 1 = (of_nat (Suc k) :: u32)" by (simp add: add.commute)
    with step IH(1) have "for_each_list create_meta_data (of_nat k) (c # cs) req = Inr (req\<lparr>intervals := ivs, nof_intervals := nof\<rparr>)"
      by (simp del: of_nat_Suc)
    moreover have "take (min 8 (k + length (c # cs))) ivs = take k (intervals req) @ map interval_of (take (8 - k) (c # cs))"
      using IH(5) tk unfolding tl by simp
    ultimately show ?thesis using IH(2) un k by blast
  qed
qed

lemma length_append_spec: "length (append_spec xs c) \<le> Suc (length xs)"
  by (induction xs) auto

lemma length_compl_scan: "length (snd (snd (compl_scan lo hi xs (a, b, out)))) \<le> length out + length xs"
proof (induction xs arbitrary: a b out)
  case (Cons r rs)
  show ?case
    using Cons.IH [of "snd r + 1" b out] Cons.IH [of "snd r + 1" "fst r - 1" "append_spec out (a, fst r - 1)"]
      Cons.IH [of a b out] length_append_spec [of out "(a, fst r - 1)"] by auto
qed simp

lemma length_compl_spec: "length (compl_spec xs lo hi) \<le> Suc (length xs)"
proof -
  obtain ss se out where sc: "compl_scan lo hi xs (0, 0, []) = (ss, se, out)" by (metis surj_pair)
  then have "length out \<le> length xs" using length_compl_scan [of lo hi xs 0 0 "[]"] by simp
  moreover have "length (append_spec out (ss, hi)) \<le> Suc (length out)" by (rule length_append_spec)
  ultimately show ?thesis using sc by (simp add: compl_spec_def)
qed

lemma resume_request_rep:
  assumes "list_rep h received ns" and "plenty h" and "length ns < 4294967295" and "8 < mtu (request_meta s)"
    and "length (intervals (request_meta s)) = 8"
    and "cs = compl_spec (map snd ns) 0 (of_nat (unat (payload_size s) div (unat (mtu (request_meta s)) - 8)))"
  shows "\<exists>h' ivs nof. resume_request h received s = Inr (h', (request_meta s)\<lparr>intervals := ivs, nof_intervals := nof\<rparr>) \<and>
    length ivs = 8 \<and> unat nof = min 8 (length cs) \<and> take (unat nof) ivs = map interval_of (take 8 cs) \<and>
    list_rep h' received ns \<and> plenty h'"
proof -
  let ?m = "mtu (request_meta s)" and ?P = "unat (payload_size s)"
  let ?q = "ucast (ucast (payload_size s) div chunk64 ?m :: u64) :: u32"
  have q: "?q = of_nat (?P div (unat ?m - 8))"
    using packet_seq_no [OF assms(4), of "\<lparr>pk_length = 0, pk_offset = payload_size s, pk_session = 0, pk_data = []\<rparr>"]
    by (simp add: packet_no_def)
  obtain h1 sg ms where g: "get_complement_segment h received 0 ?q = Inr (h1, sg)" "list_rep h1 sg ms"
      "map snd ms = cs" "same_outside {} h h1" "addrs ms \<subseteq> {brk h..<brk h1}"
    using get_complement_segment_refines [OF assms(1,2), of 0 ?q] unfolding q assms(6) by blast
  have pl: "plenty h1" using assms(2) g(4) by (rule plenty_same)
  have "length cs \<le> Suc (length ns)" using length_compl_spec [of "map snd ns"] unfolding assms(6) by simp
  then have "length cs < 4294967296" using assms(3) by linarith
  moreover have "nof_segments sg = of_nat (length cs)" using g(2,3) by (auto simp: list_rep_def)
  ultimately have nof: "unat (get_nof_segments sg) = length cs" by (simp add: get_nof_segments_def unat_of_nat_u32)
  then have zero: "(if get_nof_segments sg > 8 then 8 else get_nof_segments sg) \<noteq> 0 \<longleftrightarrow> cs \<noteq> []"
    by (auto simp: word_unat_eq_iff word_less_nat_alt)
  obtain h2 where f: "free_segments h1 (Some sg) = Inr h2" "same_outside (addrs ms) h1 h2"
    using free_segments_rep [OF g(2) pl] by blast
  have s2: "same_outside {} h h2" using g(4) f(2) by (rule same_outside_trans) (use g(5) in auto)
  have fin: "list_rep h2 received ns" "plenty h2"
    using list_rep_same_outside [OF assms(1) s2] plenty_same [OF assms(2) s2] by simp_all
  obtain ivs nf where w: "for_each_list create_meta_data (of_nat 0) cs (request_meta s) =
        Inr ((request_meta s)\<lparr>intervals := ivs, nof_intervals := nf\<rparr>)" "length ivs = 8"
      "cs \<noteq> [] \<longrightarrow> unat nf = min 8 (length cs)" "take (min 8 (length cs)) ivs = map interval_of (take 8 cs)"
    using create_meta_data_walk [OF assms(5), of 0 cs] by auto
  have walk: "for_each_segment h1 sg create_meta_data (request_meta s) = Inr ((request_meta s)\<lparr>intervals := ivs, nof_intervals := nf\<rparr>)"
    unfolding for_each_segment_list [OF g(2) pl] g(3) using w(1) by simp
  show ?thesis
  proof (cases "cs = []")
    case True
    then have "resume_request h received s = Inr (h2, (request_meta s)\<lparr>nof_intervals := 0\<rparr>)"
      using zero chunk64_nonzero [OF assms(4)] g(1) f(1) by (simp add: resume_request_def Let_def split del: if_split)
    with True assms(5) fin show ?thesis
      by (intro exI [of _ h2] exI [of _ "intervals (request_meta s)"] exI [of _ 0]) simp
  next
    case False
    then have "resume_request h received s = Inr (h2, (request_meta s)\<lparr>intervals := ivs, nof_intervals := nf\<rparr>)"
      using zero chunk64_nonzero [OF assms(4)] g(1) f(1) walk by (simp add: resume_request_def Let_def split del: if_split)
    with False w fin show ?thesis
      by (intro exI [of _ h2] exI [of _ ivs] exI [of _ nf]) simp
  qed
qed

text \<open>A session read from a meta file: the record of earlier transfers, and an empty one for the next.\<close>

definition resumable :: "seg list \<Rightarrow> apm_session \<Rightarrow> hook_world \<Rightarrow> bool" where
  "resumable xs s w \<longleftrightarrow> (\<exists>ctx r ms. hook_ctx (hooks s) = Some ctx \<and> ctx_segments ctx = Some init_segments_ctx \<and>
     received_segments ctx = Some r \<and> list_rep (hw_heap w) r ms \<and> map snd ms = xs \<and> plenty (hw_heap w))"

definition same_settings :: "apm_session \<Rightarrow> apm_session \<Rightarrow> bool" where
  "same_settings s s' \<longleftrightarrow> remote_node s' = remote_node s \<and> timeout s' = timeout s \<and>
     bytes_received s' = bytes_received s \<and> payload_size s' = payload_size s \<and>
     mtu (request_meta s') = mtu (request_meta s) \<and> throughput (request_meta s') = throughput (request_meta s) \<and>
     payload_id (request_meta s') = payload_id (request_meta s) \<and> session_id (request_meta s') = session_id (request_meta s)"

lemma new_stream_positioned:
  "new_stream fs path = (positioned (fs\<lparr>next_stream := Suc (next_stream fs)\<rparr>) (next_stream fs) path 0, Some (next_stream fs))"
  by (simp add: new_stream_def positioned_def)

lemma fclose_positioned:
  "\<exists>fs'. fclose (positioned fs n path k) (Some n) = Inr fs' \<and> contents fs' = contents fs \<and> may_open fs' = may_open fs"
  by (simp add: fclose_def stream_of_def positioned_def)

lemma deserialize_reads:
  assumes "user_context s0 = Some name" and "length name < 251" and "may_open (hw_files w) (name @ ''.meta'')"
    and "contents (hw_files w) (name @ ''.meta'') = Some (meta_bytes le s xs)" and "plenty (hw_heap w)"
    and "length xs < 4294967295" and "8 < mtu (request_meta s)" and "length (intervals (request_meta s0)) = 8"
    and "cs = compl_spec xs 0 (of_nat (unat (payload_size s) div (unat (mtu (request_meta s)) - 8)))"
  shows "\<exists>s' w'. apm_on_deserialize le s0 w = Inr (s', w') \<and> same_settings s s' \<and> resumable xs s' w' \<and>
    requested_ivs (request_meta s') = map interval_of (take 8 cs) \<and> length (intervals (request_meta s')) = 8 \<and>
    unat (nof_intervals (request_meta s')) = min 8 (length cs) \<and> user_context s' = user_context s0 \<and> sess_errno s' = sess_errno s0 \<and> (\<exists>c. hooks s' = (hooks s0)\<lparr>hook_ctx := c\<rparr>) \<and>
    contents (hw_files w') = contents (hw_files w) \<and> may_open (hw_files w') = may_open (hw_files w)"
proof -
  let ?path = "name @ ''.meta''" and ?n = "next_stream (hw_files w)"
  let ?fs = "(hw_files w)\<lparr>next_stream := Suc ?n\<rparr>"
  define s1 where "s1 = s0\<lparr>remote_node := remote_node s, timeout := timeout s, bytes_received := bytes_received s,
      payload_size := payload_size s,
      request_meta := (request_meta s0)\<lparr>mtu := mtu (request_meta s), throughput := throughput (request_meta s),
         payload_id := payload_id (request_meta s), session_id := session_id (request_meta s)\<rparr>\<rparr>"
  have fb: "file_bytes ?fs ?path = meta_bytes le s xs" using assms(4) by (simp add: file_bytes_def)
  have v: "fread_word le (positioned ?fs ?n ?path 0) (Some ?n) (0::u32) = Inr (positioned ?fs ?n ?path 4, DTP_SESSION_VERSION)"
    using fread_u32 [of ?fs ?path "[]" le DTP_SESSION_VERSION _ ?n 0] fb by (simp add: meta_bytes_def header_bytes_def word_size)
  have hd: "read_header le (Some ?n) s0 (positioned ?fs ?n ?path 4) = Inr (positioned ?fs ?n ?path 26, s1)"
    unfolding s1_def by (rule read_header_back) (simp add: fb meta_bytes_def)
  have nf: "fread_word le (positioned ?fs ?n ?path 26) (Some ?n) (0::u32) =
      Inr (positioned ?fs ?n ?path 30, of_nat (length xs))"
    using fread_u32 [of ?fs ?path "header_bytes le s" le "of_nat (length xs)" _ ?n 0] fb by (simp add: meta_bytes_def word_size)
  have un: "unat (of_nat (length xs) :: u32) = length xs" using assms(6) by (intro unat_of_nat_u32) simp
  obtain h1 r ns where ad: "fold_c add_step (hw_heap w, init_segments_ctx) xs = Inr (h1, r)" "list_rep h1 r ns"
      "map snd ns = xs" "plenty h1"
    using add_steps_rep [OF list_rep_init assms(5), of xs] by auto
  have rs: "read_segments le (Some ?n) (length xs) (positioned ?fs ?n ?path 30, hw_heap w, init_segments_ctx) =
      Inr (positioned ?fs ?n ?path (30 + 8 * length xs), h1, r)"
    using read_segments_back [of ?fs ?path "header_bytes le s @ host_bytes le (of_nat (length xs) :: u32)" le xs "[]" ?n] fb ad(1)
    by (simp add: meta_bytes_def word_size)
  have len: "length ns < 4294967295" using ad(3) assms(6) by auto
  obtain h2 ivs nof where rq: "resume_request h1 r s1 = Inr (h2, (request_meta s1)\<lparr>intervals := ivs, nof_intervals := nof\<rparr>)"
      "length ivs = 8" "take (unat nof) ivs = map interval_of (take 8 cs)" "list_rep h2 r ns" "plenty h2"
      "unat nof = min 8 (length cs)"
    using resume_request_rep [OF ad(2,4) len, of s1 cs] assms(7-9) ad(3) by (auto simp: s1_def)
  obtain fs' where cl: "fclose (positioned ?fs ?n ?path (30 + 8 * length xs)) (Some ?n) = Inr fs'"
      "contents fs' = contents ?fs" "may_open fs' = may_open ?fs"
    using fclose_positioned by blast
  let ?ctx = "\<lparr>last_packet_ts = 0, ctx_segments = Some init_segments_ctx, received_segments = Some r, out_file = None\<rparr>"
  let ?s' = "set_ctx (Some ?ctx) (s1\<lparr>request_meta := (request_meta s1)\<lparr>intervals := ivs, nof_intervals := nof\<rparr>\<rparr>)"
  let ?w' = "w\<lparr>hw_files := fs', hw_heap := h2\<rparr>"
  have run: "apm_on_deserialize le s0 w = Inr (?s', ?w')"
    using assms(1-4) v hd nf un rs rq(1) cl(1)
    by (simp add: apm_on_deserialize_def sprintf_name_def dtp_session_get_user_ctx_def fopen_existing_def new_stream_positioned)
  have "same_settings s ?s'" by (simp add: same_settings_def s1_def)
  moreover have "resumable xs ?s' ?w'" using rq(4,5) ad(3) by (auto simp: resumable_def)
  moreover have "user_context ?s' = user_context s0" "sess_errno ?s' = sess_errno s0"
      "hooks ?s' = (hooks s0)\<lparr>hook_ctx := Some ?ctx\<rparr>"
    by (simp_all add: s1_def set_ctx_def)
  ultimately show ?thesis
    using run rq(2,3,6) cl(2,3) by (intro exI [of _ ?s'] exI [of _ ?w']) (auto simp: requested_ivs_def)
qed

section \<open>Properties\<close>

text \<open>
  C7. Saving a session after a transfer and reading it back restores the session: in any later world in
  which the meta file is unchanged, a session with the same file name gets the node address, MTU,
  timeout, throughput, payload id, session id and both counters back, the record of received packets,
  and a request for the first eight missing ranges - on hosts of either byte order.\<close>

theorem session_roundtrip:
  assumes "ended xs rs s w" and "user_context s = Some name" and "length name < 251"
    and "may_open (hw_files w) (name @ ''.meta'')" and "length xs < 4294967295" and "8 < mtu (request_meta s)"
    and "user_context s0 = Some name" and "length (intervals (request_meta s0)) = 8"
  shows "\<exists>w1. apm_on_serialize le s w = Inr (s, w1) \<and>
    (\<forall>w2. contents (hw_files w2) (name @ ''.meta'') = contents (hw_files w1) (name @ ''.meta'') \<and>
       may_open (hw_files w2) (name @ ''.meta'') \<and> plenty (hw_heap w2) \<longrightarrow>
       (\<exists>s' w'. apm_on_deserialize le s0 w2 = Inr (s', w') \<and> same_settings s s' \<and> resumable xs s' w' \<and>
          requested_ivs (request_meta s') = map interval_of (take 8 (compl_spec xs 0
            (of_nat (unat (payload_size s) div (unat (mtu (request_meta s)) - 8)))))))"
proof -
  obtain fs where w: "apm_on_serialize le s w = Inr (s, w\<lparr>hw_files := fs\<rparr>)"
      "contents fs = (contents (hw_files w))(name @ ''.meta'' := Some (meta_bytes le s xs))"
    using serialize_writes [OF assms(1,2) _ assms(4), of le] assms(3) by auto
  show ?thesis
  proof (intro exI [of _ "w\<lparr>hw_files := fs\<rparr>"] conjI w(1) allI impI)
    fix w2 :: hook_world
    assume "contents (hw_files w2) (name @ ''.meta'') = contents (hw_files (w\<lparr>hw_files := fs\<rparr>)) (name @ ''.meta'') \<and>
       may_open (hw_files w2) (name @ ''.meta'') \<and> plenty (hw_heap w2)"
    then have f: "may_open (hw_files w2) (name @ ''.meta'')" "contents (hw_files w2) (name @ ''.meta'') = Some (meta_bytes le s xs)"
        "plenty (hw_heap w2)"
      using w(2) by simp_all
    from deserialize_reads [OF assms(7,3) f assms(5,6,8) refl]
    show "\<exists>s' w'. apm_on_deserialize le s0 w2 = Inr (s', w') \<and> same_settings s s' \<and> resumable xs s' w' \<and>
        requested_ivs (request_meta s') = map interval_of (take 8 (compl_spec xs 0
          (of_nat (unat (payload_size s) div (unat (mtu (request_meta s)) - 8)))))" by blast
  qed
qed

text \<open>A heap with closed lists, and a session whose record is one of them.\<close>

lemma two_lists_reps:
  "list_rep two_lists (ctx_at 4 1) [(4, 0, 2)]" "list_rep two_lists (ctx_at 2 2) [(2, 2, 3), (3, 6, 7)]" "plenty two_lists"
  by (simp_all add: list_rep_def two_lists_def ctx_at_def plenty_def)

definition saved_session :: apm_session where
  "saved_session = (set_ctx (Some (fresh_ctx\<lparr>ctx_segments := Some (ctx_at 2 2)\<rparr>)) file_session)\<lparr>payload_size := 42, bytes_received := 16\<rparr>"

theorem session_roundtrip_witness:
  "\<exists>w1 s' w'. apm_on_serialize True saved_session (example_world\<lparr>hw_heap := two_lists\<rparr>) = Inr (saved_session, w1) \<and>
    apm_on_deserialize True file_session (w1\<lparr>hw_heap := empty_heap\<rparr>) = Inr (s', w') \<and> payload_size s' = 42 \<and>
    bytes_received s' = 16 \<and> requested_ivs (request_meta s') = [\<lparr>iv_start = 0, iv_end = 1\<rparr>, \<lparr>iv_start = 4, iv_end = 5\<rparr>,
      \<lparr>iv_start = 8, iv_end = 10\<rparr>]"
proof -
  let ?w = "example_world\<lparr>hw_heap := two_lists\<rparr>"
  have e: "ended [(2, 3), (6, 7)] None saved_session ?w"
    unfolding ended_def
    by (intro exI [of _ "fresh_ctx\<lparr>ctx_segments := Some (ctx_at 2 2)\<rparr>"] exI [of _ "ctx_at 2 2"] exI [of _ "[(2, 2, 3), (3, 6, 7)]"])
      (simp add: saved_session_def two_lists_reps fresh_ctx_def earlier_def)
  have f: "user_context saved_session = Some ''f''" "8 < mtu (request_meta saved_session)"
      "user_context file_session = Some ''f''" "length (intervals (request_meta file_session)) = 8"
      "payload_size saved_session = 42" "bytes_received saved_session = 16" "mtu (request_meta saved_session) = 12"
    by (simp_all add: saved_session_def file_session_def whole_request_def)
  have m: "may_open (hw_files ?w) (''f'' @ ''.meta'')" by (simp add: example_world_def)
  have cs: "compl_spec [(2, 3), (6, 7)] 0 10 = [(0, 1), (4, 5), (8, 10)]"
    by (simp add: compl_spec_def word_le_nat_alt)
  obtain w1 where w1: "apm_on_serialize True saved_session ?w = Inr (saved_session, w1)"
      "\<forall>w2. contents (hw_files w2) (''f'' @ ''.meta'') = contents (hw_files w1) (''f'' @ ''.meta'') \<and>
         may_open (hw_files w2) (''f'' @ ''.meta'') \<and> plenty (hw_heap w2) \<longrightarrow>
         (\<exists>s' w'. apm_on_deserialize True file_session w2 = Inr (s', w') \<and> same_settings saved_session s' \<and>
            resumable [(2, 3), (6, 7)] s' w' \<and>
            requested_ivs (request_meta s') = map interval_of (take 8 (compl_spec [(2, 3), (6, 7)] 0 10)))"
    using session_roundtrip [OF e f(1) _ m _ f(2-4), of True] f(5,7) by auto
  have "may_open (hw_files w1) = may_open (hw_files ?w)"
    using serialize_writes [OF e f(1) _ m, of True] w1(1) by auto
  then have "may_open (hw_files w1) (''f'' @ ''.meta'')" using m by simp
  with w1 show ?thesis
    unfolding cs by (auto dest!: spec [of _ "w1\<lparr>hw_heap := empty_heap\<rparr>"] simp: plenty_empty_heap same_settings_def f interval_of_def)
qed

lemma start_resumed:
  assumes "resumable xs s w" and "0 < bytes_received s" and "user_context s = Some path"
    and "length path < 1024" and "may_open (hw_files w) path" and "contents (hw_files w) path = Some bs"
  shows "\<exists>ctx w'. apm_on_start s w = Inr (set_ctx (Some ctx) s, w') \<and>
    recording path bs ([], None) (Some xs) (set_ctx (Some ctx) s) w'"
proof -
  obtain ctx r ms where r: "hook_ctx (hooks s) = Some ctx" "ctx_segments ctx = Some init_segments_ctx"
      "received_segments ctx = Some r" "list_rep (hw_heap w) r ms" "map snd ms = xs" "plenty (hw_heap w)"
    using assms(1) unfolding resumable_def by blast
  let ?n = "next_stream (hw_files w)" and ?ctx = "ctx\<lparr>out_file := Some (next_stream (hw_files w))\<rparr>"
  let ?w = "w\<lparr>hw_files := fst (new_stream (hw_files w) path)\<rparr>"
  have "apm_on_start s w = Inr (set_ctx (Some ?ctx) s, ?w)"
    using assms(2-6) r(1)
    by (simp add: apm_on_start_def sprintf_name_def dtp_session_get_user_ctx_def fopen_existing_def new_stream_def)
  moreover have "addrs ms \<inter> owned init_segments_ctx [] = {}"
    using list_rep_addrs [OF r(4)] by (auto simp: owned_def init_segments_ctx_def)
  then have "earlier (hw_heap w) (received_segments ctx) (Some xs) (owned init_segments_ctx [])"
    using r(3-5) by (auto simp: earlier_def)
  then have "recording path bs ([], None) (Some xs) (set_ctx (Some ?ctx) s) ?w"
    unfolding recording_def
    by (intro exI [of _ ?ctx] exI [of _ ?n] exI [of _ 0] exI [of _ init_segments_ctx] exI [of _ "[]"])
      (use r tracks_init assms(6) in \<open>simp add: new_stream_def\<close>)
  ultimately show ?thesis by blast
qed

lemma missing_covers:
  assumes "ordered xs" and "xs \<noteq> []" and "snd (last xs) \<le> hi" and "snd (last xs) + 1 \<noteq> hi"
  shows "{0..hi} \<subseteq> covered xs \<union> covered (compl_spec xs 0 hi)"
proof -
  obtain r rs where "xs = r # rs" using assms(2) by (cases xs) auto
  then show ?thesis using covered_compl_spec [of r rs hi] assms by auto
qed

text \<open>The hooks of a resumed session, from its start to its end.\<close>

lemma resumed_transfer_stored:
  assumes "resumable xs s w" and "0 < bytes_received s" and "user_context s = Some path"
    and "length path < 1024" and "may_open (hw_files w) path" and "contents (hw_files w) path = Some bs"
    and "8 < mtu (request_meta s)" and "c = unat (mtu (request_meta s)) - 8" and "on_data_packet (hooks s) = Some 7"
    and "\<forall>p \<in> set ps. genuine c content p" and "sorted (map (packet_no c) ps)" and "length content < 4294967295"
    and "ordered xs" and "xs \<noteq> []" and "stores c content (unat ` covered xs) bs" and "hi = of_nat (length content div c)"
    and "snd (last xs) \<le> hi" and "snd (last xs) + 1 \<noteq> hi"
    and "covered (compl_spec xs 0 hi) \<subseteq> of_nat ` packet_no c ` set ps"
  shows "\<exists>s1 w1 s2 w2 s3 w3 ys. apm_on_start s w = Inr (s1, w1) \<and>
    fold_c (deliver apm_data_hook) (s1, w1) ps = Inr (s2, w2) \<and> apm_on_end s2 w2 = Inr (s3, w3) \<and>
    contents (hw_files w3) path = Some content \<and> ended ys (Some xs) s3 w3 \<and> ordered ys \<and>
    covered ys = covered xs \<union> of_nat ` packet_no c ` set ps"
proof -
  let ?st = "foldl record_packet ([], None) (map (packet_no c) ps)"
  have c: "0 < c" using assms(7,8) by (simp add: word_less_nat_alt)
  obtain ctx w1 where s1: "apm_on_start s w = Inr (set_ctx (Some ctx) s, w1)"
      "recording path bs ([], None) (Some xs) (set_ctx (Some ctx) s) w1"
    using start_resumed [OF assms(1-6)] by blast
  let ?s1 = "set_ctx (Some ctx) s"
  have m: "8 < mtu (request_meta ?s1)" "c = unat (mtu (request_meta ?s1)) - 8" "on_data_packet (hooks ?s1) = Some 7"
    using assms(7-9) by simp_all
  obtain s2 w2 bs2 where s2: "fold_c (deliver apm_data_hook) (?s1, w1) ps = Inr (s2, w2)" "recording path bs2 ?st (Some xs) s2 w2"
      "stores c content (unat ` covered xs \<union> packet_no c ` set ps) bs2"
    using deliver_all_recorded [OF s1(2) m(1,2) assms(10) m(3) assms(15)] by auto
  have "8 < mtu (request_meta s2)" using apm_data.deliver_all_keeps [OF s2(1)] m(1) by simp
  then obtain n where "packet_count s2 = Inr n" using packet_count_ok by blast
  from end_recorded [OF s2(2) this] obtain s3 w3 where s3: "apm_on_end s2 w2 = Inr (s3, w3)"
      "ended (merge_spec (close_spec ?st) xs) (Some xs) s3 w3" "contents (hw_files w3) = contents (hw_files w2)"
    by (auto simp: final_record_def)
  have bd: "\<forall>k \<in> set (map (packet_no c) ps). k < 4294967295"
    using assms(10,12) le_less_trans [OF div_le_dividend, of _ "length content" c]
    by (auto simp: genuine_def packet_no_def intro: less_trans)
  then have r: "ordered (all_segs ?st)" "covered (all_segs ?st) = of_nat ` packet_no c ` set ps"
    using record_exact [OF _ _ assms(11) bd, of "([], None)"] by auto
  note cl = close_spec_ordered [OF r(1)]
  have fin: "ordered (merge_spec (close_spec ?st) xs)"
      "covered (merge_spec (close_spec ?st) xs) = covered xs \<union> of_nat ` packet_no c ` set ps"
    using merge_spec_exact [of "close_spec ?st" xs] assms(13) r unfolding cl by auto
  have "k \<in> unat ` covered xs \<union> packet_no c ` set ps" if k: "k * c < length content" for k
  proof -
    have "k \<le> length content div c" using k c by (simp add: less_eq_div_iff_mult_less_eq)
    moreover have "length content div c < 4294967295" using assms(12) by (rule le_less_trans [OF div_le_dividend])
    ultimately have u: "unat (of_nat k :: u32) = k" "of_nat k \<le> hi"
      using assms(16) by (simp_all add: unat_of_nat_u32 word_le_nat_alt)
    then have "of_nat k \<in> {0..hi}" by simp
    then consider "of_nat k \<in> covered xs" | "of_nat k \<in> (of_nat ` packet_no c ` set ps :: u32 set)"
      using missing_covers [OF assms(13,14,17,18)] assms(19) by blast
    then show ?thesis
    proof cases
      case 1
      then show ?thesis using u(1) by (metis UnI1 imageI)
    next
      case 2
      then obtain p where "p \<in> set ps" "of_nat k = (of_nat (packet_no c p) :: u32)" by auto
      then have "k = packet_no c p" using u(1) unat_of_nat_u32 [OF packet_no_lt [of c p]] by metis
      with \<open>p \<in> set ps\<close> show ?thesis by blast
    qed
  qed
  then have "bs2 = content" using stores_complete [OF s2(3) c] by blast
  then have fl: "contents (hw_files w3) path = Some content" using s2(2) s3(3) by (auto simp: recording_def)
  show ?thesis
    by (rule exI [of _ ?s1], rule exI [of _ w1], rule exI [of _ s2], rule exI [of _ w2], rule exI [of _ s3],
        rule exI [of _ w3], rule exI [of _ "merge_spec (close_spec ?st) xs"])
      (intro conjI s1(1) s2(1) s3(1,2) fl fin)
qed

text \<open>
  C8. A resumed transfer completes the file: with a record in normal form that is not empty and lacks more
  than the last packet, when all ranges missing from it arrive in increasing order, then
  opening the file, storing the packets and closing do not fail, the file is the payload, and the
  joined record is in normal form and stands for what either transfer received.\<close>

theorem resumed_transfer_completes:
  assumes "resumable xs s w" and "0 < bytes_received s" and "user_context s = Some path"
    and "length path < 1024" and "may_open (hw_files w) path" and "contents (hw_files w) path = Some bs"
    and "8 < mtu (request_meta s)" and "c = unat (mtu (request_meta s)) - 8" and "on_data_packet (hooks s) = Some 7"
    and "\<forall>p \<in> set ps. genuine c content p" and "sorted (map (packet_no c) ps)" and "length content < 4294967295"
    and "ordered xs" and "xs \<noteq> []" and "stores c content (unat ` covered xs) bs" and "hi = of_nat (length content div c)"
    and "snd (last xs) \<le> hi" and "snd (last xs) + 1 \<noteq> hi"
    and "covered (compl_spec xs 0 hi) \<subseteq> of_nat ` packet_no c ` set ps"
  shows "\<exists>s1 w1 s2 w2 s3 w3 ys. apm_on_start s w = Inr (s1, w1) \<and>
    fold_c (deliver apm_data_hook) (s1, w1) ps = Inr (s2, w2) \<and> apm_on_end s2 w2 = Inr (s3, w3) \<and>
    contents (hw_files w3) path = Some content \<and> ended ys (Some xs) s3 w3 \<and> ordered ys \<and>
    covered ys = covered xs \<union> of_nat ` packet_no c ` set ps"
  by (rule resumed_transfer_stored [OF assms])

text \<open>Eighteen bytes in five packets, the first three of which have arrived before.\<close>

definition resumed_session :: apm_session where
  "resumed_session = (set_ctx (Some (fresh_ctx\<lparr>received_segments := Some (ctx_at 4 1)\<rparr>)) file_session)\<lparr>bytes_received := 12\<rparr>"

definition resumed_world :: hook_world where
  "resumed_world = example_world\<lparr>hw_heap := two_lists,
     hw_files := (hw_files example_world)\<lparr>contents := [''f'' \<mapsto> replicate 12 1]\<rparr>\<rparr>"

definition late_packets :: "data_packet list" where
  "late_packets = [\<lparr>pk_length = 12, pk_offset = 12, pk_session = 7, pk_data = replicate 4 1\<rparr>,
     \<lparr>pk_length = 10, pk_offset = 16, pk_session = 7, pk_data = replicate 2 1\<rparr>]"

theorem resumed_transfer_completes_witness:
  "\<exists>s1 w1 s2 w2 s3 w3. apm_on_start resumed_session resumed_world = Inr (s1, w1) \<and>
    fold_c (deliver apm_data_hook) (s1, w1) late_packets = Inr (s2, w2) \<and> apm_on_end s2 w2 = Inr (s3, w3) \<and>
    contents (hw_files w3) ''f'' = Some (replicate 18 1)"
proof -
  have r: "resumable [(0, 2)] resumed_session resumed_world"
    unfolding resumable_def
    by (intro exI [of _ "fresh_ctx\<lparr>received_segments := Some (ctx_at 4 1)\<rparr>"] exI [of _ "ctx_at 4 1"] exI [of _ "[(4, 0, 2)]"])
      (simp add: resumed_session_def resumed_world_def two_lists_reps fresh_ctx_def)
  have s: "0 < bytes_received resumed_session" "user_context resumed_session = Some ''f''"
      "8 < mtu (request_meta resumed_session)" "4 = unat (mtu (request_meta resumed_session)) - 8"
      "on_data_packet (hooks resumed_session) = Some 7"
    by (simp_all add: resumed_session_def file_session_def whole_request_def apm_session_hooks_def)
  have w: "may_open (hw_files resumed_world) ''f''" "contents (hw_files resumed_world) ''f'' = Some (replicate 12 1)"
    by (simp_all add: resumed_world_def example_world_def)
  have g: "\<forall>p \<in> set late_packets. genuine 4 (replicate 18 1) p" "sorted (map (packet_no 4) late_packets)"
    by (simp_all add: late_packets_def genuine_def packet_no_def)
  have "k * 4 \<le> i \<and> i < Suc k * 4 \<longrightarrow> i < 12" if "k \<in> unat ` {0..(2::u32)}" for k i :: nat
    using that by (auto simp: word_le_nat_alt)
  then have st: "stores 4 (replicate 18 1) (unat ` covered [(0, 2)]) (replicate 12 1)"
    by (auto simp: stores_def seg_set_def)
  have cs: "covered (compl_spec [(0, 2)] 0 4) \<subseteq> of_nat ` packet_no 4 ` set late_packets"
  proof -
    have "{3..4} \<subseteq> {3, (4::u32)}"
    proof
      fix x :: u32
      assume "x \<in> {3..4}"
      then have "unat x = 3 \<or> unat x = 4" by (auto simp: word_le_nat_alt)
      then show "x \<in> {3, 4}" by (auto simp: word_unat_eq_iff)
    qed
    then show ?thesis by (simp add: compl_spec_def seg_set_def late_packets_def packet_no_def)
  qed
  from resumed_transfer_completes [OF r s(1,2) _ w s(3-5) g _ _ _ st, of 4] cs show ?thesis by auto
qed

section \<open>Sessions that cannot be resumed\<close>





end
