(* ===== verification/Resumption.thy ===== *)
theory Resumption
  imports Hooks_Resume
begin

text \<open>
  A download that is interrupted and resumed, across the components: the hooks store what arrives and
  save the session; the session read back asks for the missing ranges; the server sends exactly these;
  the hooks of the resumed session complete the file.
\<close>

section \<open>What the hooks leave alone\<close>

lemma stream_operations_may_open:
  "fseek fs f k = Inr fs' \<Longrightarrow> may_open fs' = may_open fs"
  "fwrite fs f xs = Inr fs' \<Longrightarrow> may_open fs' = may_open fs"
  "fclose fs f = Inr fs' \<Longrightarrow> may_open fs' = may_open fs"
  by (auto simp: fseek_def fwrite_def fclose_def c_bind_eq_Inr)

lemma fopen_may_open:
  "may_open (fst (fopen_existing fs path)) = may_open fs" "may_open (fst (fopen_wb fs path)) = may_open fs"
  by (simp_all add: fopen_existing_def fopen_wb_def new_stream_def)

lemma show_progress_files: "hw_files (snd (show_progress now s (ctx, w))) = hw_files w"
  by (simp add: show_progress_def say_def)

lemma apm_on_start_keeps:
  assumes "apm_on_start s w = Inr (s', w')"
  shows "(\<exists>c. s' = set_ctx c s) \<and> may_open (hw_files w') = may_open (hw_files w)"
  using assms by (auto simp: apm_on_start_def c_bind_eq_Inr Let_def split_beta fopen_may_open)

lemma apm_on_data_packet_may_open:
  assumes "apm_on_data_packet s p w = Inr ((s', w'), b)"
  shows "may_open (hw_files w') = may_open (hw_files w)"
  using assms
  by (auto simp: apm_on_data_packet_def c_bind_eq_Inr Let_def split_beta show_progress_files
      split: option.split_asm dest!: stream_operations_may_open)

lemma deliver_may_open:
  "fold_c (deliver apm_data_hook) (s, w) ps = Inr (s', w') \<Longrightarrow> may_open (hw_files w') = may_open (hw_files w)"
proof (induction ps arbitrary: s w)
  case (Cons p ps)
  then obtain s1 w1 where d: "deliver apm_data_hook (s, w) p = Inr (s1, w1)"
      "fold_c (deliver apm_data_hook) (s1, w1) ps = Inr (s', w')"
    by (auto simp: c_bind_eq_Inr)
  have "may_open (hw_files w1) = may_open (hw_files w)"
    using d(1) by (auto simp: deliver_def run_data_hook_def apm_data_hook_def default_on_data_packet_def c_bind_eq_Inr
        split: option.splits if_splits dest: apm_on_data_packet_may_open)
  with Cons.IH [OF d(2)] show ?case by simp
qed simp

lemma apm_on_end_keeps:
  assumes "apm_on_end s w = Inr (s', w')"
  shows "(\<exists>c. s' = set_ctx c s) \<and> may_open (hw_files w') = may_open (hw_files w)"
  using assms
  by (auto simp: apm_on_end_def c_bind_eq_Inr Let_def say_segments_def split: option.splits if_splits
      dest!: stream_operations_may_open)

section \<open>The packets of the missing ranges\<close>

text \<open>What a server sends for a list of ranges of packet numbers.\<close>

definition range_end :: "nat \<Rightarrow> u8 list \<Rightarrow> seg \<Rightarrow> nat" where
  "range_end c content r = min (length content) (Suc (unat (snd r)) * c)"

definition range_packets :: "nat \<Rightarrow> u32 \<Rightarrow> u8 list \<Rightarrow> seg \<Rightarrow> data_packet list" where
  "range_packets c sid content r = spec_packets c sid content (unat (fst r) * c) (range_end c content r)"

lemma range_end_div:
  assumes "0 < c" and "length content mod c \<noteq> 0" and "unat (snd r) \<le> length content div c"
  shows "(range_end c content r + (c - 1)) div c = Suc (unat (snd r))"
proof (cases "unat (snd r) = length content div c")
  case True
  then have "length content \<le> Suc (unat (snd r)) * c"
    using assms(1) by (metis dividend_less_div_times less_imp_le mult_Suc add.commute)
  then show ?thesis using ceil_div [OF assms(1), of "length content"] assms(2) True by (simp add: range_end_def min_absorb1)
next
  case False
  then have "Suc (unat (snd r)) * c \<le> length content"
    using assms(1,3) by (metis Suc_leI le_neq_implies_less less_eq_div_iff_mult_less_eq)
  then show ?thesis using ceil_div [OF assms(1), of "Suc (unat (snd r)) * c"] assms(1)
    by (simp add: range_end_def min_absorb2 del: mult_Suc)
qed

lemma range_numbers:
  assumes "0 < c" and "length content mod c \<noteq> 0" and "length content < 4294967296"
    and "unat (snd r) \<le> length content div c"
  shows "map (packet_no c) (range_packets c sid content r) = [unat (fst r)..<Suc (unat (snd r))]"
proof -
  have "range_end c content r < 4294967296" using assms(3) by (simp add: range_end_def)
  from spec_packets_numbers [OF assms(1) this, of sid content "unat (fst r)"] show ?thesis
    unfolding range_end_div [OF assms(1,2,4)] by (simp add: range_packets_def packet_no_def [abs_def] del: upt_Suc)
qed

lemma range_genuine:
  assumes "0 < c" and "c + 8 < 65536" and "length content < 4294967296"
  shows "\<forall>p \<in> set (range_packets c sid content r). genuine c content p"
proof -
  have "range_end c content r = length content \<or> range_end c content r mod c = 0 \<and> range_end c content r \<le> length content"
    by (auto simp: range_end_def min_def simp del: mult_Suc)
  from spec_packets_genuine_upto [OF assms this, of "unat (fst r) * c" sid] show ?thesis
    by (simp add: range_packets_def)
qed

lemma unat_image_range: "unat a \<le> unat b \<Longrightarrow> seg_set (a, b) = of_nat ` {unat a..unat b}" for a b :: u32
proof (rule set_eqI)
  fix x :: u32
  show "x \<in> seg_set (a, b) \<longleftrightarrow> x \<in> of_nat ` {unat a..unat b}"
    using image_iff [of x of_nat "{unat a..unat b}"] unat_of_nat_u32 [of "unat x"] unat_lt_u32 [of b]
    by (auto simp: word_le_nat_alt unat_of_nat_u32 intro!: image_eqI [of _ _ "unat x"])
qed

lemma missing_packets:
  assumes "0 < c" and "c + 8 < 65536" and "length content mod c \<noteq> 0" and "length content < 4294967296"
    and "rising cs" and "\<forall>r \<in> set cs. unat (snd r) \<le> length content div c"
    and "ps = concat (map (range_packets c sid content) cs)"
  shows "(\<forall>p \<in> set ps. genuine c content p) \<and> sorted (map (packet_no c) ps) \<and>
    covered cs = of_nat ` packet_no c ` set ps"
  using assms(5-7)
proof (induction cs arbitrary: ps)
  case (Cons r cs)
  let ?rest = "concat (map (range_packets c sid content) cs)"
  have IH: "\<forall>p \<in> set ?rest. genuine c content p" "sorted (map (packet_no c) ?rest)"
      "covered cs = of_nat ` packet_no c ` set ?rest"
    using Cons.IH [OF _ _ refl] Cons.prems by auto
  have no: "map (packet_no c) (range_packets c sid content r) = [unat (fst r)..<Suc (unat (snd r))]"
    using range_numbers [OF assms(1,3,4)] Cons.prems(2) by simp
  have ps: "ps = range_packets c sid content r @ ?rest" using Cons.prems(3) by simp
  have "\<forall>p \<in> set ps. genuine c content p"
    using IH(1) range_genuine [OF assms(1,2,4), of sid r] unfolding ps by auto
  moreover have "unat (snd r) < packet_no c p" if "p \<in> set ?rest" for p
  proof -
    have "of_nat (packet_no c p) \<in> covered cs" using that unfolding IH(3) by blast
    then have "snd r < of_nat (packet_no c p)"
      using Cons.prems(1) by (auto simp: covered_def intro: less_le_trans)
    then show ?thesis by (simp add: word_less_nat_alt unat_of_nat_u32 [OF packet_no_lt])
  qed
  then have "sorted (map (packet_no c) ps)"
    using IH(2) unfolding ps map_append no sorted_append by (force simp del: upt_Suc)
  moreover have "seg_set r = of_nat ` packet_no c ` set (range_packets c sid content r)"
  proof -
    have "packet_no c ` set (range_packets c sid content r) = {unat (fst r)..unat (snd r)}"
      using arg_cong [OF no, of set] by (simp add: atLeastLessThanSuc_atLeastAtMost del: upt_Suc)
    moreover have "unat (fst r) \<le> unat (snd r)" using Cons.prems(1) by (simp add: word_le_nat_alt)
    ultimately show ?thesis using unat_image_range [of "fst r" "snd r"] by simp
  qed
  then have "covered (r # cs) = of_nat ` packet_no c ` set ps"
    using IH(3) unfolding ps by (simp add: image_Un)
  ultimately show ?case by blast
qed simp

section \<open>The server's answer to a request for the missing ranges\<close>

lemma missing_ranges_served:
  assumes "payload_source rd (payload_id req) content" and "servable req" and "requested_ivs req = map interval_of cs"
    and "c = chunk req" and "rising cs" and "\<forall>r \<in> set cs. unat (snd r) \<le> length content div c"
    and "length content + c < 4294967296" and "request (sv_ctx sv) = req" and "keep_running (sv_ctx sv)"
    and "unat (pm_size (payload_meta (sv_ctx sv))) = length content" and "steady env req" and "length content < fuel"
  shows "\<exists>sv'. start_sending_data fuel clock rd env sv = Inr (sv', DTP_OK) \<and>
    sv_sent sv' = sv_sent sv @ map (tag sv) (concat (map (range_packets c (session_id req) content) cs))"
proof -
  have c: "0 < c" using assms(2,4) by (simp add: servable_def chunk_def word_less_nat_alt)
  have r: "range_lo req (interval_of r) = unat (fst r) * c \<and> range_hi req (length content) (interval_of r) = range_end c content r \<and>
      iv_ok req (length content) (interval_of r)" if "r \<in> set cs" for r
  proof -
    have b: "unat (fst r) \<le> unat (snd r)" "unat (snd r) \<le> length content div c"
      using assms(5,6) that by (auto simp: rising_def word_le_nat_alt)
    have d: "length content div c * c \<le> length content" by simp
    have s: "unat (snd r) * c \<le> length content" "unat (fst r) * c \<le> length content" "unat (fst r) * c \<le> c + unat (snd r) * c"
      using mult_le_mono1 [OF b(2), of c] mult_le_mono1 [OF b(1), of c] d by linarith+
    have "unat (snd r) < 4294967295" using b(2) assms(7) c div_le_dividend [of "length content" c] by linarith
    then have "snd r \<noteq> UINT32_MAX" by (auto simp: word_unat_eq_iff)
    with s show ?thesis using assms(7)
      by (simp add: range_lo_def range_hi_def range_end_def iv_ok_def interval_of_def assms(4) [symmetric])
  qed
  have "\<forall>iv \<in> set (requested_ivs req). iv_ok req (length content) iv" using r unfolding assms(3) by auto
  moreover have "map (\<lambda>iv. spec_packets (chunk req) (session_id req) content (range_lo req iv)
      (range_hi req (length content) iv)) (requested_ivs req) = map (range_packets c (session_id req) content) cs"
    using r unfolding assms(3) by (auto simp: range_packets_def assms(4))
  ultimately show ?thesis
    using payload_source.start_sending_data_ok [OF assms(1,2,8-10) refl _ assms(11,12), of clock] by auto
qed

section \<open>From the interruption to the complete file\<close>

text \<open>
  The missing ranges fit into one request, and the gap of the search for missing ranges (the last
  packet alone) is not met.
\<close>

definition requestable :: "seg list \<Rightarrow> u32 \<Rightarrow> bool" where
  "requestable xs hi \<longleftrightarrow> snd (last xs) + 1 \<noteq> hi \<and> 1 \<le> length (compl_spec xs 0 hi) \<and> length (compl_spec xs 0 hi) \<le> 8"

text \<open>A server that holds the payload and has been given a request.\<close>

definition serving :: "u8 list \<Rightarrow> dtp_meta_req_t \<Rightarrow> server \<Rightarrow> bool" where
  "serving content req sv \<longleftrightarrow> request (sv_ctx sv) = req \<and> keep_running (sv_ctx sv) \<and>
     unat (pm_size (payload_meta (sv_ctx sv))) = length content"

text \<open>
  The server ends its turn with \<open>DTP_OK\<close>, and with the packets it has sent the hooks of the session complete
  the file.
\<close>

definition completes :: "(server \<times> dtp_result) c_result \<Rightarrow> server \<Rightarrow> string \<Rightarrow> u8 list \<Rightarrow> apm_session \<Rightarrow> hook_world \<Rightarrow> bool" where
  "completes r sv path content s w \<longleftrightarrow> (\<exists>sv' qs s1 w1 s2 w2 s3 w3. r = Inr (sv', DTP_OK) \<and>
     sv_sent sv' = sv_sent sv @ map (tag sv) qs \<and> apm_on_start s w = Inr (s1, w1) \<and>
     fold_c (deliver apm_data_hook) (s1, w1) qs = Inr (s2, w2) \<and> apm_on_end s2 w2 = Inr (s3, w3) \<and>
     contents (hw_files w3) path = Some content)"

text \<open>A later world, maybe of another process, that still has the data file and the meta file.\<close>

definition later_world :: "string \<Rightarrow> hook_world \<Rightarrow> hook_world \<Rightarrow> bool" where
  "later_world path w w' \<longleftrightarrow> may_open (hw_files w') path \<and> may_open (hw_files w') (path @ ''.meta'') \<and>
     contents (hw_files w') path = contents (hw_files w) path \<and>
     contents (hw_files w') (path @ ''.meta'') = contents (hw_files w) (path @ ''.meta'') \<and> plenty (hw_heap w')"

lemma first_transfer_saved:
  assumes "hook_ctx (hooks s) = None" and "bytes_received s = 0" and "user_context s = Some path" and "length path < 251"
    and "may_open (hw_files w) path" and "may_open (hw_files w) (path @ ''.meta'')" and "plenty (hw_heap w)"
    and "8 < mtu (request_meta s)" and "c = unat (mtu (request_meta s)) - 8" and "on_data_packet (hooks s) = Some 7"
    and "\<forall>p \<in> set ps. genuine c content p" and "sorted (map (packet_no c) ps)" and "length content < 4294967295"
    and "0 < length (concat (map pk_data ps))" and "length (concat (map pk_data ps)) < 4294967296"
  shows "\<exists>s1 w1 s2 w2 s3 w3 w4 bs xs. apm_on_start s w = Inr (s1, w1) \<and>
    fold_c (deliver apm_data_hook) (s1, w1) ps = Inr (s2, w2) \<and> apm_on_end s2 w2 = Inr (s3, w3) \<and>
    apm_on_serialize le s3 w3 = Inr (s3, w4) \<and> contents (hw_files w4) path = Some bs \<and>
    contents (hw_files w4) (path @ ''.meta'') = Some (meta_bytes le s3 xs) \<and> stores c content (packet_no c ` set ps) bs \<and>
    ordered xs \<and> covered xs = of_nat ` packet_no c ` set ps \<and>
    request_meta s3 = request_meta s \<and> payload_size s3 = payload_size s \<and> 0 < bytes_received s3"
proof -
  have l: "length path < 1024" using assms(4) by simp
  obtain s1 w1 s2 w2 s3 w3 bs xs where a: "apm_on_start s w = Inr (s1, w1)"
      "fold_c (deliver apm_data_hook) (s1, w1) ps = Inr (s2, w2)" "apm_on_end s2 w2 = Inr (s3, w3)"
      "contents (hw_files w3) path = Some bs" "stores c content (packet_no c ` set ps) bs" "ended xs None s3 w3"
      "sorted (map (packet_no c) ps) \<longrightarrow> ordered xs \<and> covered xs = of_nat ` packet_no c ` set ps"
    using fresh_transfer_stored [OF assms(1-3) l assms(5,7-11,13)] by (elim exE conjE) (rule that)
  have x: "ordered xs" "covered xs = of_nat ` packet_no c ` set ps" using a(7) assms(12) by simp_all
  have k: "user_context s3 = Some path" "request_meta s3 = request_meta s" "payload_size s3 = payload_size s"
      "bytes_received s3 = (\<Sum>p \<leftarrow> ps. ucast (pk_length p) - 8)" "may_open (hw_files w3) (path @ ''.meta'')"
    using apm_on_start_keeps [OF a(1)] apm_data.deliver_all_keeps [OF a(2)] apm_on_end_keeps [OF a(3)]
      deliver_may_open [OF a(2)] assms(2,3,6) by auto
  have "0 < bytes_received s3"
    using assms(14,15) unfolding k(4) genuine_bytes_sum [OF assms(11)] by (simp add: word_less_nat_alt unat_of_nat_u32)
  moreover obtain fs where "apm_on_serialize le s3 w3 = Inr (s3, w3\<lparr>hw_files := fs\<rparr>)"
      "contents fs = (contents (hw_files w3))(path @ ''.meta'' := Some (meta_bytes le s3 xs))"
    using serialize_writes [OF a(6) k(1) _ k(5), of le] assms(4) by auto
  ultimately show ?thesis
    using a(1-6) x k(2,3)
    by (intro exI [of _ s1] exI [of _ w1] exI [of _ s2] exI [of _ w2] exI [of _ s3] exI [of _ w3]
        exI [of _ "w3\<lparr>hw_files := fs\<rparr>"] exI [of _ bs] exI [of _ xs]) simp
qed

lemma ordered_length: "ordered (x # xs) \<Longrightarrow> length xs + unat (snd x) \<le> unat (snd (last (x # xs)))"
proof (induction xs arbitrary: x)
  case (Cons y xs)
  then have "ordered (y # xs)" "unat (snd x) < unat (snd y)"
    by (auto simp: ordered_Cons succ_less_iff word_le_nat_alt)
  with Cons.IH [of y] show ?case by simp
qed simp

lemma record_bounds:
  assumes "ordered xs" and "xs \<noteq> []" and "covered xs \<subseteq> {..hi}" and "hi < 4294967294"
  shows "snd (last xs) \<le> hi \<and> length xs < 4294967295"
proof -
  have "fst (last xs) \<le> snd (last xs)" using ordered_valid [OF assms(1)] assms(2) by simp
  then have "snd (last xs) \<in> covered xs" using assms(2) by (auto simp: covered_def intro: bexI [of _ "last xs"])
  then have l: "snd (last xs) \<le> hi" using assms(3) by auto
  obtain y ys where "xs = y # ys" using assms(2) by (cases xs) auto
  then have "length xs \<le> Suc (unat (snd (last xs)))" using ordered_length [of y ys] assms(1) by simp
  with l assms(4) show ?thesis by (simp add: word_le_nat_alt word_less_nat_alt)
qed

lemma missing_bounds:
  assumes "ordered xs" and "xs \<noteq> []" and "snd (last xs) \<le> hi" and "r \<in> set (compl_spec xs 0 hi)"
  shows "snd r \<le> hi"
proof -
  obtain y ys where xs: "xs = y # ys" using assms(2) by (cases xs) auto
  have "fst r \<le> snd r" using rising_missing [OF assms(1-3)] assms(4) by (simp add: rising_def)
  then have "snd r \<in> covered (compl_spec xs 0 hi)" using assms(4) by (auto simp: covered_def intro: bexI [of _ r])
  then show ?thesis using covered_compl_spec [of y ys hi] assms(1,3) by (auto simp: xs split: if_splits)
qed

text \<open>The second half: the saved session is read back, the server is asked, its packets complete the file.\<close>

lemma saved_session_completed:
  assumes "user_context s0 = Some path" and "length path < 251" and "may_open (hw_files w) path"
    and "may_open (hw_files w) (path @ ''.meta'')" and "contents (hw_files w) (path @ ''.meta'') = Some (meta_bytes le s xs)"
    and "contents (hw_files w) path = Some bs" and "plenty (hw_heap w)" and "length (intervals (request_meta s0)) = 8"
    and "on_data_packet (hooks s0) = Some 7" and "8 < mtu (request_meta s)" and "c = unat (mtu (request_meta s)) - 8"
    and "0 < throughput (request_meta s)" and "payload_size s = of_nat (length content)" and "0 < bytes_received s"
    and "ordered xs" and "xs \<noteq> []" and "stores c content (unat ` covered xs) bs"
    and "length content mod c \<noteq> 0" and "length content + c < 4294967296" and "hi = of_nat (length content div c)"
    and "covered xs \<subseteq> {..hi}" and "requestable xs hi" and "payload_source rd (payload_id (request_meta s)) content"
  shows "\<exists>s6 w6. apm_on_deserialize le s0 w = Inr (s6, w6) \<and>
    (\<forall>sv env fuel clock. serving content (request_meta s6) sv \<and> steady env (request_meta s6) \<and> length content < fuel \<longrightarrow>
      completes (start_sending_data fuel clock rd env sv) sv path content s6 w6)"
proof -
  let ?cs = "compl_spec xs 0 hi" and ?n = "length content div c"
  have "c \<noteq> 1" using assms(18) by auto
  then have c: "1 < c" using assms(10,11) by (simp add: word_less_nat_alt)
  then have c8: "c + 8 < 65536" using assms(11) unat_lt_u16 [of "mtu (request_meta s)"] by linarith
  have n: "?n \<le> length content" "?n < 4294967294" using assms(19) c div_le_dividend [of "length content" c] by linarith+
  then have hi: "unat hi = ?n" using assms(20) by (simp add: unat_of_nat_u32)
  then have "hi < 4294967294" using n by (simp add: word_less_nat_alt)
  note rb = record_bounds [OF assms(15,16,21) this]
  have ps: "unat (payload_size s) = length content" using assms(13,19) by (simp add: unat_of_nat_u32)
  have cs: "?cs = compl_spec xs 0 (of_nat (unat (payload_size s) div (unat (mtu (request_meta s)) - 8)))"
    unfolding ps assms(20) assms(11) [symmetric] ..
  obtain s6 w6 where d: "apm_on_deserialize le s0 w = Inr (s6, w6)" "same_settings s s6" "resumable xs s6 w6"
      "requested_ivs (request_meta s6) = map interval_of (take 8 ?cs)" "length (intervals (request_meta s6)) = 8"
      "unat (nof_intervals (request_meta s6)) = min 8 (length ?cs)" "user_context s6 = user_context s0"
      "on_data_packet (hooks s6) = on_data_packet (hooks s0)" "contents (hw_files w6) = contents (hw_files w)"
      "may_open (hw_files w6) = may_open (hw_files w)"
    using deserialize_reads [OF assms(1,2,4,5,7) conjunct2 [OF rb] assms(10,8) cs] by (elim exE conjE) (rule that, (assumption | simp)+)
  have q: "snd (last xs) + 1 \<noteq> hi" "1 \<le> length ?cs" "length ?cs \<le> 8" using assms(22) by (auto simp: requestable_def)
  have m: "mtu (request_meta s6) = mtu (request_meta s)" "throughput (request_meta s6) = throughput (request_meta s)"
      "bytes_received s6 = bytes_received s" "payload_id (request_meta s6) = payload_id (request_meta s)"
    using d(2) by (simp_all add: same_settings_def)
  have rq: "requested_ivs (request_meta s6) = map interval_of ?cs" "servable (request_meta s6)" "c = chunk (request_meta s6)"
    using d(4-6) q(2,3) m assms(10-12) by (simp_all add: servable_def chunk_def word_le_nat_alt)
  have ris: "rising ?cs" using rising_missing [OF assms(15,16)] rb by blast
  have bd: "\<forall>r \<in> set ?cs. unat (snd r) \<le> ?n"
    using missing_bounds [OF assms(15,16) conjunct1 [OF rb]] hi by (auto simp: word_le_nat_alt)
  let ?qs = "concat (map (range_packets c (session_id (request_meta s6)) content) ?cs)"
  have mp: "\<forall>p \<in> set ?qs. genuine c content p" "sorted (map (packet_no c) ?qs)" "covered ?cs = of_nat ` packet_no c ` set ?qs"
    using missing_packets [OF _ c8 assms(18) _ ris bd refl] c assms(19) by simp_all
  have src: "payload_source rd (payload_id (request_meta s6)) content" using assms(23) m(4) by simp
  have f: "0 < bytes_received s6" "user_context s6 = Some path" "length path < 1024" "may_open (hw_files w6) path"
      "contents (hw_files w6) path = Some bs" "8 < mtu (request_meta s6)" "c = unat (mtu (request_meta s6)) - 8"
      "on_data_packet (hooks s6) = Some 7" "length content < 4294967295"
    using m d(7-10) assms(1-3,6,9-11,14,19) c by auto
  obtain s7 w7 s8 w8 s9 w9 ys where h: "apm_on_start s6 w6 = Inr (s7, w7)"
      "fold_c (deliver apm_data_hook) (s7, w7) ?qs = Inr (s8, w8)" "apm_on_end s8 w8 = Inr (s9, w9)"
      "contents (hw_files w9) path = Some content"
    using resumed_transfer_stored [OF d(3) f(1-8) mp(1,2) f(9) assms(15-17,20) conjunct1 [OF rb] q(1) equalityD1 [OF mp(3)]]
    by (elim exE conjE) (rule that)
  show ?thesis
  proof (intro exI [of _ s6] exI [of _ w6] conjI d(1) allI impI)
    fix sv env fuel clock
    assume a: "serving content (request_meta s6) sv \<and> steady env (request_meta s6) \<and> length content < fuel"
    then obtain sv' where "start_sending_data fuel clock rd env sv = Inr (sv', DTP_OK)"
        "sv_sent sv' = sv_sent sv @ map (tag sv) ?qs"
      using missing_ranges_served [OF src rq(2,1,3) ris bd assms(19), of sv env fuel clock] by (auto simp: serving_def)
    with h show "completes (start_sending_data fuel clock rd env sv) sv path content s6 w6"
      unfolding completes_def by (intro exI [of _ sv'] exI [of _ ?qs] exI [of _ s7] exI [of _ w7] exI [of _ s8] exI [of _ w8]
          exI [of _ s9] exI [of _ w9]) simp
  qed
qed

text \<open>
  C3. An interrupted download is resumed and completed: a fresh session receives some packets of a payload
  in increasing order, ends and saves itself. Provided at most eight ranges are missing (and not the
  last packet alone), then in every later world that still has the two files, reading the session back gives a request for which
  a server with that payload, in any undisturbed environment, sends packets with which
  the resumed session completes the file: it is the payload, byte by byte. No step fails.\<close>

theorem interrupted_download_resumed:
  assumes "hook_ctx (hooks s) = None" and "bytes_received s = 0" and "user_context s = Some path" and "length path < 251"
    and "may_open (hw_files w) path" and "may_open (hw_files w) (path @ ''.meta'')" and "plenty (hw_heap w)"
    and "8 < mtu (request_meta s)" and "c = unat (mtu (request_meta s)) - 8" and "on_data_packet (hooks s) = Some 7"
    and "\<forall>p \<in> set ps. genuine c content p" and "sorted (map (packet_no c) ps)" and "ps \<noteq> []"
    and "length (concat (map pk_data ps)) < 4294967296"
    and "0 < throughput (request_meta s)" and "payload_size s = of_nat (length content)"
    and "length content mod c \<noteq> 0" and "length content + c < 4294967296" and "hi = of_nat (length content div c)"
    and "user_context s0 = Some path" and "length (intervals (request_meta s0)) = 8" and "on_data_packet (hooks s0) = Some 7"
    and "payload_source rd (payload_id (request_meta s)) content"
  shows "\<exists>s1 w1 s2 w2 s3 w3 w4 xs. apm_on_start s w = Inr (s1, w1) \<and>
    fold_c (deliver apm_data_hook) (s1, w1) ps = Inr (s2, w2) \<and> apm_on_end s2 w2 = Inr (s3, w3) \<and>
    apm_on_serialize le s3 w3 = Inr (s3, w4) \<and> ordered xs \<and> covered xs = of_nat ` packet_no c ` set ps \<and>
    (requestable xs hi \<longrightarrow> (\<forall>w5. later_world path w4 w5 \<longrightarrow>
      (\<exists>s6 w6. apm_on_deserialize le s0 w5 = Inr (s6, w6) \<and>
        (\<forall>sv env fuel clock. serving content (request_meta s6) sv \<and> steady env (request_meta s6) \<and> length content < fuel \<longrightarrow>
          completes (start_sending_data fuel clock rd env sv) sv path content s6 w6))))"
proof -
  have c: "0 < c" using assms(8,9) by (simp add: word_less_nat_alt)
  have len: "length content < 4294967295" using assms(18) c by linarith
  obtain p where p: "p \<in> set ps" using assms(13) by (cases ps) auto
  have "genuine c content p" using assms(11) p by simp
  then have "pk_data p \<noteq> []" using c by (auto simp: genuine_def)
  then have pos: "0 < length (concat (map pk_data ps))" using p by fastforce
  obtain s1 w1 s2 w2 s3 w3 w4 bs xs where a: "apm_on_start s w = Inr (s1, w1)"
      "fold_c (deliver apm_data_hook) (s1, w1) ps = Inr (s2, w2)" "apm_on_end s2 w2 = Inr (s3, w3)"
      "apm_on_serialize le s3 w3 = Inr (s3, w4)" "contents (hw_files w4) path = Some bs"
      "contents (hw_files w4) (path @ ''.meta'') = Some (meta_bytes le s3 xs)" "stores c content (packet_no c ` set ps) bs"
      "ordered xs" "covered xs = of_nat ` packet_no c ` set ps"
      "request_meta s3 = request_meta s" "payload_size s3 = payload_size s" "0 < bytes_received s3"
    using first_transfer_saved [OF assms(1-12) len pos assms(14), of le] by (elim exE conjE) (rule that)
  have ne: "xs \<noteq> []" using a(9) p by auto
  have un: "unat ` covered xs = packet_no c ` set ps"
    unfolding a(9) by (simp add: image_image unat_of_nat_u32 [OF packet_no_lt])
  have le: "packet_no c q \<le> length content div c" if "q \<in> set ps" for q
    using assms(11) that by (auto simp: genuine_def packet_no_def intro!: div_le_mono)
  have "length content div c < 4294967296" using le_less_trans [OF div_le_dividend, of _ 4294967296] len by simp
  then have sub: "covered xs \<subseteq> {..hi}"
    using le unfolding a(9) assms(19) by (auto simp: word_le_nat_alt unat_of_nat_u32 [OF packet_no_lt] unat_of_nat_u32)
  have fin: "\<exists>s6 w6. apm_on_deserialize le s0 w5 = Inr (s6, w6) \<and>
      (\<forall>sv env fuel clock. serving content (request_meta s6) sv \<and> steady env (request_meta s6) \<and> length content < fuel \<longrightarrow>
        completes (start_sending_data fuel clock rd env sv) sv path content s6 w6)"
    if "requestable xs hi" and "later_world path w4 w5" for w5
    by (rule saved_session_completed [where s = s3 and xs = xs and bs = bs and hi = hi and c = c])
      (use that assms a ne un sub in \<open>simp_all add: later_world_def\<close>)
  show ?thesis
    by (rule exI [of _ s1], rule exI [of _ w1], rule exI [of _ s2], rule exI [of _ w2], rule exI [of _ s3],
        rule exI [of _ w3], rule exI [of _ w4], rule exI [of _ xs], intro conjI a(1-4,8,9) impI allI)
      (rule fin)
qed

text \<open>Eighteen bytes in five packets: the first and the third have arrived, then the session is resumed.\<close>

definition interrupted_session :: apm_session where
  "interrupted_session = file_session\<lparr>payload_size := 18\<rparr>"

definition two_packets :: "data_packet list" where
  "two_packets = [\<lparr>pk_length = 12, pk_offset = 0, pk_session = 7, pk_data = replicate 4 1\<rparr>,
     \<lparr>pk_length = 12, pk_offset = 8, pk_session = 7, pk_data = replicate 4 1\<rparr>]"

definition ones_reader :: reader where
  "ones_reader pid off n = (n, take (unat n) (drop (unat off) (replicate 18 1)))"

lemma ones_source: "payload_source ones_reader pid (replicate 18 1)"
  by unfold_locales (simp_all add: ones_reader_def)

definition ones_server :: "dtp_meta_req_t \<Rightarrow> server" where
  "ones_server req = idle_server\<lparr>sv_ctx := (sv_ctx idle_server)\<lparr>request := req, keep_running := True,
     payload_meta := (payload_meta (sv_ctx idle_server))\<lparr>pm_size := 18\<rparr>\<rparr>\<rparr>"

text \<open>Another process, later: an empty heap, the same files.\<close>

definition restarted :: "hook_world \<Rightarrow> hook_world" where
  "restarted w = w\<lparr>hw_heap := empty_heap, hw_files := (hw_files w)\<lparr>may_open := \<lambda>_. True\<rparr>\<rparr>"

lemma requestable_example:
  assumes "ordered xs" and "covered xs = of_nat ` packet_no 4 ` set two_packets"
  shows "requestable xs (of_nat (length (replicate 18 (1::u8)) div 4))"
proof -
  have "covered xs = covered [(0, 0), (2, 2)]"
    unfolding assms(2) by (auto simp: two_packets_def packet_no_def seg_set_def)
  then have "xs = [(0, 0), (2, 2)]" using ordered_unique [OF assms(1), of "[(0, 0), (2, 2)]"] by simp
  then show ?thesis by (simp add: requestable_def compl_spec_def)
qed

theorem interrupted_download_resumed_witness:
  "\<exists>s1 w1 s2 w2 s3 w3 w4 s6 w6 sv' qs s7 w7 s8 w8 s9 w9. apm_on_start interrupted_session example_world = Inr (s1, w1) \<and>
    fold_c (deliver apm_data_hook) (s1, w1) two_packets = Inr (s2, w2) \<and> apm_on_end s2 w2 = Inr (s3, w3) \<and>
    apm_on_serialize True s3 w3 = Inr (s3, w4) \<and>
    apm_on_deserialize True interrupted_session (restarted w4) = Inr (s6, w6) \<and>
    start_sending_data 19 (\<lambda>_. 0) ones_reader attentive (ones_server (request_meta s6)) = Inr (sv', DTP_OK) \<and>
    sv_sent sv' = map (tag (ones_server (request_meta s6))) qs \<and>
    apm_on_start s6 w6 = Inr (s7, w7) \<and> fold_c (deliver apm_data_hook) (s7, w7) qs = Inr (s8, w8) \<and>
    apm_on_end s8 w8 = Inr (s9, w9) \<and> contents (hw_files w9) ''f'' = Some (replicate 18 1)"
proof -
  let ?s = interrupted_session
  have s: "hook_ctx (hooks ?s) = None" "bytes_received ?s = 0" "user_context ?s = Some ''f''"
      "8 < mtu (request_meta ?s)" "4 = unat (mtu (request_meta ?s)) - 8" "on_data_packet (hooks ?s) = Some 7"
      "0 < throughput (request_meta ?s)" "payload_size ?s = of_nat (length (replicate 18 (1::u8)))"
      "length (intervals (request_meta ?s)) = 8"
    by (simp_all add: interrupted_session_def file_session_def apm_session_hooks_def zero_session_def whole_request_def)
  have w: "may_open (hw_files example_world) ''f''" "may_open (hw_files example_world) (''f'' @ ''.meta'')"
      "plenty (hw_heap example_world)"
    by (simp_all add: example_world_def plenty_empty_heap)
  have p: "\<forall>p \<in> set two_packets. genuine 4 (replicate 18 1) p" "sorted (map (packet_no 4) two_packets)" "two_packets \<noteq> []"
      "length (concat (map pk_data two_packets)) < 4294967296"
    by (simp_all add: two_packets_def genuine_def packet_no_def)
  have n: "length ''f'' < 251" "length (replicate 18 (1::u8)) mod 4 \<noteq> 0" "length (replicate 18 (1::u8)) + 4 < 4294967296"
    by simp_all
  obtain s1 w1 s2 w2 s3 w3 w4 xs where a: "apm_on_start ?s example_world = Inr (s1, w1)"
      "fold_c (deliver apm_data_hook) (s1, w1) two_packets = Inr (s2, w2)" "apm_on_end s2 w2 = Inr (s3, w3)"
      "apm_on_serialize True s3 w3 = Inr (s3, w4)" "ordered xs" "covered xs = of_nat ` packet_no 4 ` set two_packets"
    and r: "requestable xs (of_nat (length (replicate 18 (1::u8)) div 4)) \<longrightarrow> (\<forall>w5. later_world ''f'' w4 w5 \<longrightarrow>
      (\<exists>s6 w6. apm_on_deserialize True ?s w5 = Inr (s6, w6) \<and>
        (\<forall>sv env fuel clock. serving (replicate 18 1) (request_meta s6) sv \<and> steady env (request_meta s6) \<and>
            length (replicate 18 (1::u8)) < fuel \<longrightarrow>
          completes (start_sending_data fuel clock ones_reader env sv) sv ''f'' (replicate 18 1) s6 w6)))"
    using interrupted_download_resumed [OF s(1-3) n(1) w s(4-6) p s(7,8) n(2,3) refl s(3,9,6) ones_source, of True]
    by (elim exE conjE) (rule that)
  have w5: "later_world ''f'' w4 (restarted w4)"
    by (simp add: later_world_def restarted_def plenty_empty_heap)
  obtain s6 w6 where d: "apm_on_deserialize True ?s (restarted w4) = Inr (s6, w6)"
    and e: "\<And>sv env fuel clock. serving (replicate 18 1) (request_meta s6) sv \<and> steady env (request_meta s6) \<and>
            length (replicate 18 (1::u8)) < fuel \<Longrightarrow>
          completes (start_sending_data fuel clock ones_reader env sv) sv ''f'' (replicate 18 1) s6 w6"
    using mp [OF spec [OF mp [OF r requestable_example [OF a(5,6)]]] w5] by blast
  have sv: "serving (replicate 18 1) (request_meta s6) (ones_server (request_meta s6)) \<and>
      steady attentive (request_meta s6) \<and> length (replicate 18 (1::u8)) < 19" "sv_sent (ones_server (request_meta s6)) = []"
    by (simp_all add: serving_def ones_server_def steady_def attentive_def idle_server_def)
  from e [OF sv(1), of "\<lambda>_. 0"] a(1-4) d show ?thesis
    unfolding completes_def sv(2) append_Nil by blast
qed

end
