(* ===== verification/Payload.thy ===== *)
theory Payload
  imports Server_Correct Stdio
begin

text \<open>
  Where the server's payloads come from: the registry of files of \<open>src/dtp_file_payload.c\<close> and the test
  payload of \<open>src/payload_api.c\<close>. The registry is the global list, first element first; its
  elements are not shared, so the list itself stands for the linked nodes, and \<open>pf_static\<close> marks the one
  node that was not allocated. Allocation succeeds; error messages are left out.
\<close>

section \<open>State\<close>

record payload_file_t =
  pf_id :: u8
  pf_filename :: string
  pf_file :: file_ptr
  pf_size :: u64
  pf_read :: hook
  pf_static :: bool

record payload_world =
  g_payload_list :: "payload_file_t list"
  pw_files :: file_system

text \<open>The addresses of the three read functions.\<close>

definition payload_read_hook :: hook where "payload_read_hook = 20"
definition test_memory_payload_read_hook :: hook where "test_memory_payload_read_hook = 21"
definition api_payload_read_hook :: hook where "api_payload_read_hook = 22"

definition test_payload :: payload_file_t where
  "test_payload = \<lparr>pf_id = 255, pf_filename = '':mem:'', pf_file = None, pf_size = 67102980,
     pf_read = test_memory_payload_read_hook, pf_static = True\<rparr>"

definition initial_payloads :: "file_system \<Rightarrow> payload_world" where
  "initial_payloads fs = \<lparr>g_payload_list = [test_payload], pw_files = fs\<rparr>"

section \<open>Test data\<close>

definition test_data :: "u8 list" where
  "test_data = [48, 49, 50, 51, 52, 53, 54, 55, 56, 57, 65, 66, 67, 68, 69, 70]"

fun test_memory_loop :: "nat \<Rightarrow> u32 \<Rightarrow> u8 \<Rightarrow> u32 \<Rightarrow> u8 list \<Rightarrow> (u32 \<times> u8 list) c_result" where
  "test_memory_loop 0 sz start so_far out = Inl Diverges"
| "test_memory_loop (Suc n) sz start so_far out =
     (if so_far < sz then
        c_bind (memcpy_at out (unat so_far) (drop (unat start) test_data)) (\<lambda>out.
        test_memory_loop n sz 0 (so_far + (16 - ucast start)) out)
      else Inr (so_far, out))"

definition test_memory_payload_read :: "u8 list \<Rightarrow> u8 \<Rightarrow> u32 \<Rightarrow> u32 \<Rightarrow> (u32 \<times> u8 list) c_result" where
  "test_memory_payload_read out pid offset sz =
     c_bind (test_memory_loop (unat sz + 1) sz (ucast (offset mod 16)) 0 out) (\<lambda>(so_far, out).
     if so_far > sz then
       (if so_far < 16 then Inl Out_Of_Bounds
        else c_bind (memcpy_at out (unat so_far - 16) (take (unat (so_far - sz)) test_data)) (\<lambda>out. Inr (sz, out)))
     else Inr (sz, out))"

section \<open>The registry\<close>

fun payload_lookup :: "payload_file_t list \<Rightarrow> u8 \<Rightarrow> nat option" where
  "payload_lookup [] pid = None"
| "payload_lookup (p # ps) pid = (if pf_id p = pid then Some 0 else map_option Suc (payload_lookup ps pid))"

text \<open>The number of bytes to read, as the source computes it.\<close>

definition clip_size :: "u64 \<Rightarrow> u32 \<Rightarrow> u32 \<Rightarrow> u32" where
  "clip_size psize offset sz =
     (if psize < ucast offset then 0 else if psize < ucast (offset + sz) then ucast (ucast offset - psize) else sz)"

text \<open>
  \<open>room\<close> is the number of bytes the output buffer can take. The offset of \<open>fseek\<close> is a \<open>long\<close>, taken to be wider than
  32 bits.
\<close>

definition payload_read :: "nat \<Rightarrow> payload_world \<Rightarrow> u8 \<Rightarrow> u32 \<Rightarrow> u32 \<Rightarrow> (payload_world \<times> u32 \<times> u8 list) c_result" where
  "payload_read room w pid offset sz0 =
     (case payload_lookup (g_payload_list w) pid of
        None \<Rightarrow> Inr (w, 0, [])
      | Some i \<Rightarrow>
          let p = g_payload_list w ! i; sz = clip_size (pf_size p) offset sz0 in
          if sz > 0 then
            let (fs, f) = (if pf_file p = None then fopen_existing (pw_files w) (pf_filename p) else (pw_files w, pf_file p));
                w1 = w\<lparr>g_payload_list := (g_payload_list w)[i := p\<lparr>pf_file := f\<rparr>], pw_files := fs\<rparr> in
            if f \<noteq> None then
              c_bind (fseek fs f (unat offset)) (\<lambda>fs.
              c_bind (fread fs f (unat sz)) (\<lambda>(fs, got).
              if length got \<le> room then Inr (w1\<lparr>pw_files := fs\<rparr>, of_nat (length got), got) else Inl Out_Of_Bounds))
            else Inr (w1, 0, [])
          else Inr (w, 0, []))"

definition dtp_file_payload_del :: "u8 \<Rightarrow> payload_world \<Rightarrow> payload_world c_result" where
  "dtp_file_payload_del pid w =
     (case payload_lookup (g_payload_list w) pid of
        None \<Rightarrow> Inr w
      | Some i \<Rightarrow>
          let p = g_payload_list w ! i in
          c_bind (if pf_file p \<noteq> None then fclose (pw_files w) (pf_file p) else Inr (pw_files w)) (\<lambda>fs.
          if pf_static p then Inl Bad_Free
          else Inr (w\<lparr>g_payload_list := take i (g_payload_list w) @ drop (Suc i) (g_payload_list w), pw_files := fs\<rparr>)))"

text \<open>The result tells whether the caller gets an object; \<open>filename\<close> may be NULL.\<close>

definition dtp_file_payload_add :: "u8 \<Rightarrow> string option \<Rightarrow> payload_world \<Rightarrow> (payload_world \<times> bool) c_result" where
  "dtp_file_payload_add pid filename w0 =
     c_bind (if payload_lookup (g_payload_list w0) pid \<noteq> None then dtp_file_payload_del pid w0 else Inr w0) (\<lambda>w.
     case filename of
       None \<Rightarrow> Inr (w, False)
     | Some path \<Rightarrow>
         (case fopen_existing (pw_files w) path of
            (fs, None) \<Rightarrow> Inr (w\<lparr>pw_files := fs\<rparr>, False)
          | (fs, f) \<Rightarrow>
              c_bind (fclose fs f) (\<lambda>fs'.
              Inr (w\<lparr>pw_files := fs', g_payload_list :=
                \<lparr>pf_id = pid, pf_filename = path, pf_file = None, pf_size = of_nat (length (file_bytes fs path)),
                 pf_read = payload_read_hook, pf_static = False\<rparr> # g_payload_list w\<rparr>, True))))"

definition dtp_file_payload_get_meta ::
    "dtp_payload_meta_t \<Rightarrow> u8 \<Rightarrow> payload_world \<Rightarrow> dtp_payload_meta_t \<times> bool" where
  "dtp_file_payload_get_meta meta pid w =
     (case payload_lookup (g_payload_list w) pid of
        Some i \<Rightarrow> (meta\<lparr>pm_size := ucast (pf_size (g_payload_list w ! i)), pm_read := Some (pf_read (g_payload_list w ! i))\<rparr>, True)
      | None \<Rightarrow> (meta\<lparr>pm_size := 0, pm_read := None\<rparr>, False))"

text \<open>The lines printed: id, size and name of every payload.\<close>

definition dtp_file_payload_info :: "payload_world \<Rightarrow> (u8 \<times> u64 \<times> string) list" where
  "dtp_file_payload_info w = map (\<lambda>p. (pf_id p, pf_size p, pf_filename p)) (g_payload_list w)"

section \<open>The default payload\<close>

text \<open>
  \<open>sizeof(test_data)\<close> counts the terminating NUL. The condition before the loop compares \<open>so_far\<close>, which is
  0, so the other branch is never taken.
\<close>

definition api_test_data :: "u8 list" where
  "api_test_data = [48, 49, 50, 51, 52, 53, 54, 55, 56, 57, 65, 66, 67, 68, 69, 0]"

fun api_read_loop :: "nat \<Rightarrow> u32 \<Rightarrow> u32 \<Rightarrow> u8 list \<Rightarrow> u8 list c_result" where
  "api_read_loop 0 sz so_far out = Inl Diverges"
| "api_read_loop (Suc n) sz so_far out =
     (if so_far < sz then
        c_bind (memcpy_at out (unat so_far) api_test_data) (\<lambda>out. api_read_loop n sz (so_far + 16) out)
      else Inr out)"

definition api_payload_read :: "u8 list \<Rightarrow> u8 \<Rightarrow> u32 \<Rightarrow> u32 \<Rightarrow> (u32 \<times> u8 list) c_result" where
  "api_payload_read out pid offset sz =
     c_bind (api_read_loop (unat sz + 1) sz 0 out) (\<lambda>out. Inr (sz, out))"

definition get_payload_meta :: "dtp_payload_meta_t \<Rightarrow> u8 \<Rightarrow> dtp_payload_meta_t \<times> bool" where
  "get_payload_meta meta pid =
     (meta\<lparr>pm_base := 0, pm_size := 20 * 1024 * 1024, pm_read := Some api_payload_read_hook\<rparr>, True)"

end
