(* ===== verification/Payload_Correct.thy ===== *)
theory Payload_Correct
  imports Payload
begin

text \<open>
  What the registry of file payloads promises the server: a registered file is a payload in the sense of
  \<open>payload_source\<close>, the registry stays well formed under every sequence of operations, and what reading
  past the end and the built-in test payloads do.
\<close>

section \<open>Lookup\<close>

lemma payload_lookup_SomeD: "payload_lookup ps pid = Some i \<Longrightarrow> i < length ps \<and> pf_id (ps ! i) = pid"
  by (induction ps arbitrary: i) (auto split: if_splits)

lemma payload_lookup_None: "payload_lookup ps pid = None \<longleftrightarrow> pid \<notin> pf_id ` set ps"
  by (induction ps) auto

lemma payload_lookup_ids: "map pf_id ps = map pf_id qs \<Longrightarrow> payload_lookup ps pid = payload_lookup qs pid"
  by (induction ps qs rule: list_induct2') auto

lemma payload_lookup_update:
  "pf_id q = pf_id (ps ! i) \<Longrightarrow> payload_lookup (ps[i := q]) pid = payload_lookup ps pid"
  by (rule payload_lookup_ids) (metis list_update_id map_update)

section \<open>The invariant of the registry\<close>

text \<open>
  Ids are distinct, exactly the static node has id 255, and an open file belongs to one payload and is
  the file of that payload.
\<close>

definition open_ok :: "payload_world \<Rightarrow> payload_file_t \<Rightarrow> bool" where
  "open_ok w p \<longleftrightarrow> (\<forall>n. pf_file p = Some n \<longrightarrow> n < next_stream (pw_files w) \<and>
     (\<exists>pos. streams (pw_files w) n = Some \<lparr>st_path = pf_filename p, st_pos = pos\<rparr>))"

definition handles :: "payload_file_t list \<Rightarrow> nat list" where
  "handles ps = concat (map (\<lambda>p. case pf_file p of None \<Rightarrow> [] | Some n \<Rightarrow> [n]) ps)"

definition payload_inv :: "payload_world \<Rightarrow> bool" where
  "payload_inv w \<longleftrightarrow> distinct (map pf_id (g_payload_list w)) \<and> distinct (handles (g_payload_list w)) \<and>
     (\<forall>p \<in> set (g_payload_list w). (pf_static p \<longleftrightarrow> pf_id p = 255) \<and> open_ok w p) \<and>
     255 \<in> pf_id ` set (g_payload_list w)"

lemma handles_simps [simp]:
  "handles [] = []" "handles (p # ps) = (case pf_file p of None \<Rightarrow> [] | Some n \<Rightarrow> [n]) @ handles ps"
  "handles (ps @ qs) = handles ps @ handles qs"
  by (simp_all add: handles_def)

lemma set_handles: "n \<in> set (handles ps) \<longleftrightarrow> (\<exists>p \<in> set ps. pf_file p = Some n)"
  by (induction ps) (auto split: option.splits)

lemma lookup_split:
  assumes "payload_lookup ps pid = Some i"
  obtains xs p ys where "ps = xs @ p # ys" "i = length xs" "pf_id p = pid"
  using payload_lookup_SomeD [OF assms] id_take_nth_drop [of i ps] by (metis length_take min_absorb2 less_imp_le)

lemma open_ok_None: "pf_file p = None \<Longrightarrow> open_ok w p"
  by (simp add: open_ok_def)

lemma payload_inv_initial: "payload_inv (initial_payloads fs)"
  by (simp add: payload_inv_def initial_payloads_def test_payload_def open_ok_None)

lemma open_ok_same:
  "open_ok w p \<Longrightarrow> next_stream (pw_files w) \<le> next_stream (pw_files w') \<Longrightarrow>
   (\<And>n. pf_file p = Some n \<Longrightarrow> streams (pw_files w') n = streams (pw_files w) n) \<Longrightarrow> open_ok w' p"
  by (auto simp: open_ok_def intro: less_le_trans)

text \<open>
  An entry of the registry with its recorded size and the present contents of its file; a file is
  registered when the two agree.
\<close>

definition entry :: "payload_world \<Rightarrow> u8 \<Rightarrow> string \<Rightarrow> u64 \<Rightarrow> u8 list \<Rightarrow> bool" where
  "entry w pid path sz bs \<longleftrightarrow> (\<exists>i. payload_lookup (g_payload_list w) pid = Some i \<and>
     pf_filename (g_payload_list w ! i) = path \<and> pf_size (g_payload_list w ! i) = sz \<and>
     pf_read (g_payload_list w ! i) = payload_read_hook \<and> open_ok w (g_payload_list w ! i)) \<and>
     contents (pw_files w) path = Some bs \<and> may_open (pw_files w) path"

definition registered :: "payload_world \<Rightarrow> u8 \<Rightarrow> string \<Rightarrow> u8 list \<Rightarrow> bool" where
  "registered w pid path content \<longleftrightarrow> entry w pid path (of_nat (length content)) content \<and> length content < 4294967296"

section \<open>Reading\<close>

text \<open>The stream a read uses.\<close>

lemma open_for_reading:
  assumes "open_ok w p" and "may_open (pw_files w) (pf_filename p)" and "contents (pw_files w) (pf_filename p) = Some bs"
  shows "\<exists>fs n pos. (if pf_file p = None then fopen_existing (pw_files w) (pf_filename p) else (pw_files w, pf_file p)) = (fs, Some n) \<and>
    n < next_stream fs \<and> streams fs n = Some \<lparr>st_path = pf_filename p, st_pos = pos\<rparr> \<and> contents fs = contents (pw_files w) \<and>
    may_open fs = may_open (pw_files w)"
  using assms by (cases "pf_file p") (auto simp: fopen_existing_def new_stream_def open_ok_def)

lemma seek_read:
  assumes "streams fs n = Some \<lparr>st_path = path, st_pos = pos\<rparr>" and "contents fs path = Some bs"
  shows "\<exists>fs1 fs2. fseek fs (Some n) k = Inr fs1 \<and> fread fs1 (Some n) len = Inr (fs2, take len (drop k bs)) \<and>
    contents fs2 = contents fs \<and> may_open fs2 = may_open fs \<and> next_stream fs2 = next_stream fs \<and>
    (\<exists>pos. streams fs2 n = Some \<lparr>st_path = path, st_pos = pos\<rparr>)"
  using assms by (simp add: fseek_def fread_def stream_of_def file_bytes_def Let_def)

lemma payload_read_nothing:
  "entry w pid path sz bs \<Longrightarrow> clip_size sz off n = 0 \<Longrightarrow> payload_read room w pid off n = Inr (w, 0, [])"
  by (auto simp: entry_def payload_read_def Let_def)

lemma payload_read_stream:
  assumes "entry w pid path sz bs" and "k = clip_size sz off n" and "0 < k" and "got = take (unat k) (drop (unat off) bs)"
  shows "\<exists>w'. payload_read room w pid off n =
      (if length got \<le> room then Inr (w', of_nat (length got), got) else Inl Out_Of_Bounds) \<and> entry w' pid path sz bs"
proof -
  obtain i where i: "payload_lookup (g_payload_list w) pid = Some i" using assms(1) by (auto simp: entry_def)
  let ?p = "g_payload_list w ! i"
  have r: "pf_filename ?p = path" "pf_size ?p = sz" "pf_read ?p = payload_read_hook" "open_ok w ?p"
      "may_open (pw_files w) path" "contents (pw_files w) path = Some bs"
    using assms(1) i by (auto simp: entry_def)
  obtain fs f pos where o: "(if pf_file ?p = None then fopen_existing (pw_files w) (pf_filename ?p) else (pw_files w, pf_file ?p)) = (fs, Some f)"
      "f < next_stream fs" "streams fs f = Some \<lparr>st_path = path, st_pos = pos\<rparr>" "contents fs = contents (pw_files w)"
      "may_open fs = may_open (pw_files w)"
    using open_for_reading [OF r(4), of bs] r(1,5,6) by auto
  obtain fs1 fs2 where q: "fseek fs (Some f) (unat off) = Inr fs1" "fread fs1 (Some f) (unat k) = Inr (fs2, got)"
      "contents fs2 = contents fs" "may_open fs2 = may_open fs" "next_stream fs2 = next_stream fs"
      "\<exists>pos. streams fs2 f = Some \<lparr>st_path = path, st_pos = pos\<rparr>"
    using seek_read [OF o(3), of bs "unat off" "unat k"] o(4) r(6) assms(4) by auto
  let ?w = "w\<lparr>g_payload_list := (g_payload_list w)[i := ?p\<lparr>pf_file := Some f\<rparr>], pw_files := fs2\<rparr>"
  have l: "i < length (g_payload_list w)" using payload_lookup_SomeD [OF i] by simp
  have "entry ?w pid path sz bs"
    using r q(3-6) o(2,4,5) i l by (simp add: entry_def payload_lookup_update open_ok_def)
  moreover have "payload_read room w pid off n =
      (if length got \<le> room then Inr (?w, of_nat (length got), got) else Inl Out_Of_Bounds)"
    using assms(2,3) i r(2) o(1) q(1,2) by (simp add: payload_read_def Let_def cong: if_cong split del: if_split)
  ultimately show ?thesis by blast
qed

lemma payload_read_inside:
  assumes "registered w pid path content" and "unat off + unat n \<le> length content"
  shows "\<exists>w'. payload_read (unat n) w pid off n = Inr (w', n, take (unat n) (drop (unat off) content)) \<and> registered w' pid path content"
proof -
  let ?sz = "of_nat (length content) :: u64"
  have e: "entry w pid path ?sz content" "length content < 4294967296" using assms(1) by (simp_all add: registered_def)
  have sz: "unat ?sz = length content" using e(2) by (simp add: unat_of_nat)
  have "unat (off + n) = unat off + unat n" using assms(2) e(2) by (intro unat_add_u32) simp
  then have k: "clip_size ?sz off n = n" using assms(2) sz by (simp add: clip_size_def word_less_nat_alt)
  show ?thesis
  proof (cases "n = 0")
    case True
    then show ?thesis using assms(1) payload_read_nothing [OF e(1)] k by simp
  next
    case False
    then have "0 < n" by (simp add: word_neq_0_conv)
    from payload_read_stream [OF e(1) k [symmetric] this refl, of "unat n"] assms(2) e(2) show ?thesis
      by (auto simp: registered_def)
  qed
qed

section \<open>Adding and removing\<close>

lemma del_inv:
  assumes "payload_inv w" and "pid \<noteq> 255"
  shows "\<exists>w'. dtp_file_payload_del pid w = Inr w' \<and> payload_inv w' \<and>
    pf_id ` set (g_payload_list w') = pf_id ` set (g_payload_list w) - {pid} \<and>
    contents (pw_files w') = contents (pw_files w) \<and> may_open (pw_files w') = may_open (pw_files w)"
proof (cases "payload_lookup (g_payload_list w) pid")
  case None
  then show ?thesis using assms(1) payload_lookup_None [of "g_payload_list w" pid] by (simp add: dtp_file_payload_del_def)
next
  case (Some i)
  then obtain xs p ys where l: "g_payload_list w = xs @ p # ys" "i = length xs" "pf_id p = pid" by (rule lookup_split)
  have inv: "\<not> pf_static p" "open_ok w p" "distinct (map pf_id (xs @ p # ys))" "distinct (handles (xs @ p # ys))"
      "\<forall>q \<in> set (xs @ ys). (pf_static q \<longleftrightarrow> pf_id q = 255) \<and> open_ok w q" "255 \<in> pf_id ` set (xs @ ys)"
    using assms l by (auto simp: payload_inv_def)
  let ?fs = "case pf_file p of None \<Rightarrow> pw_files w | Some n \<Rightarrow> (pw_files w)\<lparr>streams := (streams (pw_files w))(n := None)\<rparr>"
  let ?w = "w\<lparr>g_payload_list := xs @ ys, pw_files := ?fs\<rparr>"
  have fc: "(if pf_file p \<noteq> None then fclose (pw_files w) (pf_file p) else Inr (pw_files w)) = Inr ?fs"
    using inv(2) by (auto simp: fclose_def stream_of_def open_ok_def split: option.splits)
  then have run: "dtp_file_payload_del pid w = Inr ?w"
    using Some l inv(1) by (simp add: dtp_file_payload_del_def Let_def)
  have "open_ok ?w q" if q: "q \<in> set (xs @ ys)" for q
  proof (rule open_ok_same)
    show "open_ok w q" using inv(5) q by blast
    show "next_stream (pw_files w) \<le> next_stream (pw_files ?w)" by (simp split: option.split)
    fix n assume n: "pf_file q = Some n"
    then have "n \<in> set (handles (xs @ ys))" using q by (auto simp: set_handles)
    then have "pf_file p \<noteq> Some n" using inv(4) by (auto split: option.splits)
    then show "streams (pw_files ?w) n = streams (pw_files w) n" by (auto split: option.split)
  qed
  then have "payload_inv ?w" using inv(3-6) by (auto simp: payload_inv_def)
  moreover have "pf_id ` set (g_payload_list ?w) = pf_id ` set (g_payload_list w) - {pid}"
    unfolding l(1) l(3) [symmetric] using inv(3) by (simp add: insert_Diff_if Un_Diff) blast
  moreover have "contents (pw_files ?w) = contents (pw_files w)" "may_open (pw_files ?w) = may_open (pw_files w)"
    by (simp_all split: option.split)
  ultimately show ?thesis using run by blast
qed

definition readable :: "payload_world \<Rightarrow> string \<Rightarrow> bool" where
  "readable w path \<longleftrightarrow> may_open (pw_files w) path \<and> contents (pw_files w) path \<noteq> None"

lemma add_registers:
  assumes "payload_inv w" and "pid \<noteq> 255"
  shows "\<exists>w' ok. dtp_file_payload_add pid f w = Inr (w', ok) \<and> payload_inv w' \<and>
    (\<forall>path content. f = Some path \<and> may_open (pw_files w) path \<and> contents (pw_files w) path = Some content \<longrightarrow>
       ok \<and> entry w' pid path (of_nat (length content)) content) \<and>
    (ok \<longrightarrow> (\<exists>path. f = Some path \<and> readable w path)) \<and>
    pf_id ` set (g_payload_list w') = (if ok then insert pid (pf_id ` set (g_payload_list w)) else pf_id ` set (g_payload_list w) - {pid})"
proof -
  let ?del = "if payload_lookup (g_payload_list w) pid \<noteq> None then dtp_file_payload_del pid w else Inr w"
  obtain w1 where d: "?del = Inr w1" "payload_inv w1" "pf_id ` set (g_payload_list w1) = pf_id ` set (g_payload_list w) - {pid}"
      "contents (pw_files w1) = contents (pw_files w)" "may_open (pw_files w1) = may_open (pw_files w)"
  proof (cases "payload_lookup (g_payload_list w) pid")
    case None
    with assms(1) that [of w] show ?thesis by (simp add: payload_lookup_None)
  next
    case (Some i)
    with del_inv [OF assms] that show ?thesis by auto
  qed
  show ?thesis
  proof (cases "\<exists>path content. f = Some path \<and> may_open (pw_files w) path \<and> contents (pw_files w) path = Some content")
    case False
    then have "dtp_file_payload_add pid f w = Inr (w1, False)"
      using d(1,4,5) by (auto simp: dtp_file_payload_add_def fopen_existing_def split: option.split)
    with False d(2,3) show ?thesis by auto
  next
    case True
    then obtain path content where f: "f = Some path" "may_open (pw_files w) path" "contents (pw_files w) path = Some content"
      by blast
    let ?n = "next_stream (pw_files w1)"
    let ?fs = "(pw_files w1)\<lparr>streams := (streams (pw_files w1))(?n := None), next_stream := Suc ?n\<rparr>"
    let ?p = "\<lparr>pf_id = pid, pf_filename = path, pf_file = None, pf_size = of_nat (length content),
       pf_read = payload_read_hook, pf_static = False\<rparr>"
    let ?w = "w1\<lparr>g_payload_list := ?p # g_payload_list w1, pw_files := ?fs\<rparr>"
    have run: "dtp_file_payload_add pid f w = Inr (?w, True)"
      using d(1,4,5) f
      by (simp add: dtp_file_payload_add_def fopen_existing_def new_stream_def fclose_def stream_of_def file_bytes_def)
    have "open_ok ?w q" if "q \<in> set (g_payload_list w1)" for q
    proof (rule open_ok_same [of w1])
      show ok: "open_ok w1 q" using that d(2) by (simp add: payload_inv_def)
      fix m assume "pf_file q = Some m"
      with ok have "m \<noteq> ?n" by (auto simp: open_ok_def)
      then show "streams (pw_files ?w) m = streams (pw_files w1) m" by simp
    qed simp
    moreover have "pid \<notin> pf_id ` set (g_payload_list w1)" using d(3) by simp
    ultimately have "payload_inv ?w" using d(2) assms(2) by (simp add: payload_inv_def open_ok_None)
    moreover have "entry ?w pid path (of_nat (length content)) content"
      using f d(4,5) by (simp add: entry_def open_ok_None)
    moreover have "pf_id ` set (g_payload_list ?w) = insert pid (pf_id ` set (g_payload_list w))"
      using d(3) by (simp add: insert_Diff_if)
    ultimately show ?thesis using run f by (intro exI [of _ ?w] exI [of _ True]) (simp add: readable_def)
  qed
qed

section \<open>Reading keeps the registry well formed\<close>

lemma inv_open:
  assumes "payload_inv w" and "g_payload_list w = xs @ p # ys" and "m \<notin> set (handles (xs @ ys))"
    and "next_stream (pw_files w) \<le> next_stream fs" and "m < next_stream fs"
    and "streams fs m = Some \<lparr>st_path = pf_filename p, st_pos = pos\<rparr>" and "\<And>k. k \<noteq> m \<Longrightarrow> streams fs k = streams (pw_files w) k"
  shows "payload_inv (w\<lparr>g_payload_list := xs @ p\<lparr>pf_file := Some m\<rparr> # ys, pw_files := fs\<rparr>)"
proof -
  let ?w = "w\<lparr>g_payload_list := xs @ p\<lparr>pf_file := Some m\<rparr> # ys, pw_files := fs\<rparr>"
  have "open_ok ?w q" if q: "q \<in> set (xs @ ys)" for q
  proof (rule open_ok_same [of w])
    show "open_ok w q" using assms(1,2) q by (auto simp: payload_inv_def)
    fix n assume "pf_file q = Some n"
    with assms(3) q have "n \<noteq> m" by (auto simp: set_handles)
    then show "streams (pw_files ?w) n = streams (pw_files w) n" using assms(7) by simp
  qed (use assms(4) in simp)
  moreover have "open_ok ?w (p\<lparr>pf_file := Some m\<rparr>)" using assms(5,6) by (simp add: open_ok_def)
  moreover have "distinct (handles (xs @ p\<lparr>pf_file := Some m\<rparr> # ys))"
    using assms(1-3) by (auto simp: payload_inv_def split: option.splits)
  ultimately show ?thesis using assms(1,2) by (auto simp: payload_inv_def)
qed

lemma read_inv:
  assumes "payload_inv w" and "payload_read room w pid off n = Inr (w', r, bs)"
  shows "payload_inv w'"
proof (cases "payload_lookup (g_payload_list w) pid")
  case None
  then show ?thesis using assms by (simp add: payload_read_def)
next
  case (Some i)
  then obtain xs p ys where l: "g_payload_list w = xs @ p # ys" "i = length xs" by (rule lookup_split)
  let ?k = "clip_size (pf_size p) off n"
  obtain fs f where o: "(if pf_file p = None then fopen_existing (pw_files w) (pf_filename p) else (pw_files w, pf_file p)) = (fs, f)"
    by fastforce
  have inv: "open_ok w p" "distinct (handles (xs @ p # ys))" "\<forall>q \<in> set (xs @ ys). open_ok w q"
    using assms(1) l(1) by (auto simp: payload_inv_def)
  show ?thesis
  proof (cases "?k = 0 \<or> f = None")
    case True
    then have "w' = w"
      using assms(2) Some l o by (cases "pf_file p") (auto simp: payload_read_def Let_def fopen_existing_def new_stream_def split: if_splits)
    with assms(1) show ?thesis by simp
  next
    case False
    then obtain m where m: "f = Some m" by auto
    obtain pos where st: "streams fs m = Some \<lparr>st_path = pf_filename p, st_pos = pos\<rparr>" "m < next_stream fs"
        "next_stream (pw_files w) \<le> next_stream fs" "\<And>k. k \<noteq> m \<Longrightarrow> streams fs k = streams (pw_files w) k"
      using o m inv(1) by (cases "pf_file p") (auto simp: fopen_existing_def new_stream_def open_ok_def split: if_splits)
    have fresh: "m \<notin> set (handles (xs @ ys))"
    proof (cases "pf_file p")
      case None
      then have "m = next_stream (pw_files w)" using o m by (auto simp: fopen_existing_def new_stream_def split: if_splits)
      with inv(3) show ?thesis unfolding set_handles open_ok_def by blast
    next
      case (Some m')
      then show ?thesis using o m inv(2) by auto
    qed
    obtain fs2 pos' where w': "w' = w\<lparr>g_payload_list := xs @ p\<lparr>pf_file := Some m\<rparr> # ys, pw_files := fs2\<rparr>"
        "fs2 = fs\<lparr>streams := (streams fs)(m := Some \<lparr>st_path = pf_filename p, st_pos = pos'\<rparr>)\<rparr>"
      using assms(2) Some l o m False st(1)
      by (auto simp: payload_read_def Let_def fseek_def fread_def stream_of_def word_neq_0_conv [symmetric] split: if_splits)
    show ?thesis
      unfolding w'(1) using st fresh w'(2) by (intro inv_open [OF assms(1) l(1), of m fs2 pos']) simp_all
  qed
qed

section \<open>Properties\<close>

text \<open>What can happen to the registry.\<close>

inductive payload_reachable :: "payload_world \<Rightarrow> bool" where
  start: "payload_reachable (initial_payloads fs)"
| add: "payload_reachable w \<Longrightarrow> pid \<noteq> 255 \<Longrightarrow> dtp_file_payload_add pid f w = Inr (w', ok) \<Longrightarrow> payload_reachable w'"
| del: "payload_reachable w \<Longrightarrow> pid \<noteq> 255 \<Longrightarrow> dtp_file_payload_del pid w = Inr w' \<Longrightarrow> payload_reachable w'"
| read: "payload_reachable w \<Longrightarrow> payload_read room w pid off n = Inr (w', r, bs) \<Longrightarrow> payload_reachable w'"

lemma payload_reachable_inv: "payload_reachable w \<Longrightarrow> payload_inv w"
proof (induction rule: payload_reachable.induct)
  case (add w pid f w' ok)
  then show ?case using add_registers [of w pid f] by auto
next
  case (del w pid w')
  then show ?case using del_inv [of w pid] by auto
qed (auto intro: payload_inv_initial read_inv)

lemma del_static: "payload_inv w \<Longrightarrow> dtp_file_payload_del 255 w = Inl Bad_Free"
proof -
  assume inv: "payload_inv w"
  then obtain i where i: "payload_lookup (g_payload_list w) 255 = Some i"
    using payload_lookup_None [of "g_payload_list w" 255] by (cases "payload_lookup (g_payload_list w) 255") (auto simp: payload_inv_def)
  then have "g_payload_list w ! i \<in> set (g_payload_list w)" "pf_id (g_payload_list w ! i) = 255"
    using payload_lookup_SomeD [OF i] by auto
  then have "pf_static (g_payload_list w ! i)" "open_ok w (g_payload_list w ! i)" using inv by (auto simp: payload_inv_def)
  with i show ?thesis
    by (cases "pf_file (g_payload_list w ! i)") (auto simp: dtp_file_payload_del_def Let_def fclose_def stream_of_def open_ok_def)
qed

lemma add_succeeds:
  assumes "payload_inv w" and "pid \<noteq> 255"
  shows "\<exists>w' ok. dtp_file_payload_add pid f w = Inr (w', ok) \<and> (ok \<longleftrightarrow> (\<exists>path. f = Some path \<and> readable w path)) \<and>
      pf_id ` set (g_payload_list w') = (if ok then insert pid (pf_id ` set (g_payload_list w)) else pf_id ` set (g_payload_list w) - {pid})"
proof -
  obtain w' ok where r: "dtp_file_payload_add pid f w = Inr (w', ok)"
      "\<forall>path content. f = Some path \<and> may_open (pw_files w) path \<and> contents (pw_files w) path = Some content \<longrightarrow>
         ok \<and> entry w' pid path (of_nat (length content)) content"
      "ok \<longrightarrow> (\<exists>path. f = Some path \<and> readable w path)"
      "pf_id ` set (g_payload_list w') = (if ok then insert pid (pf_id ` set (g_payload_list w)) else pf_id ` set (g_payload_list w) - {pid})"
    using add_registers [OF assms, of f] by (elim exE conjE) (rule that)
  have "ok \<longleftrightarrow> (\<exists>path. f = Some path \<and> readable w path)" using r(2,3) by (auto simp: readable_def)
  with r(1,4) show ?thesis by (intro exI conjI)
qed

lemma add_static: "payload_inv w \<Longrightarrow> dtp_file_payload_add 255 f w = Inl Bad_Free"
proof -
  assume inv: "payload_inv w"
  then have "payload_lookup (g_payload_list w) 255 \<noteq> None"
    using payload_lookup_None [of "g_payload_list w" 255] by (auto simp: payload_inv_def)
  with del_static [OF inv] show ?thesis by (simp add: dtp_file_payload_add_def)
qed

text \<open>A read that stays inside the size noted for the payload, whatever has become of the file since.\<close>

definition inside :: "payload_world \<Rightarrow> u8 \<Rightarrow> u32 \<Rightarrow> u32 \<Rightarrow> bool" where
  "inside w pid off n \<longleftrightarrow> (\<forall>p \<in> set (g_payload_list w). pf_id p = pid \<longrightarrow> unat off + unat n \<le> unat (pf_size p))"

lemma clip_inside: "unat off + unat n \<le> unat sz \<Longrightarrow> clip_size sz off n = n"
proof -
  assume le: "unat off + unat n \<le> unat sz"
  have "unat (off + n) \<le> unat off + unat n" by (simp add: unat_word_ariths(1))
  with le have "\<not> sz < ucast off" "\<not> sz < ucast (off + n)" by (simp_all add: word_less_nat_alt)
  then show ?thesis by (simp add: clip_size_def)
qed

lemma read_inside_returns:
  assumes "payload_inv w" and "inside w pid off n" and "unat n \<le> room"
  shows "\<exists>w' r bs. payload_read room w pid off n = Inr (w', r, bs) \<and> r = of_nat (length bs) \<and> length bs \<le> unat n"
proof (cases "payload_lookup (g_payload_list w) pid")
  case None
  then show ?thesis by (simp add: payload_read_def)
next
  case (Some i)
  let ?p = "g_payload_list w ! i"
  have p: "?p \<in> set (g_payload_list w)" "pf_id ?p = pid" using payload_lookup_SomeD [OF Some] by auto
  then have cl: "clip_size (pf_size ?p) off n = n" and ok: "open_ok w ?p"
    using assms(1,2) clip_inside by (auto simp: inside_def payload_inv_def)
  obtain fs f where o: "(if pf_file ?p = None then fopen_existing (pw_files w) (pf_filename ?p) else (pw_files w, pf_file ?p)) = (fs, f)"
    by fastforce
  show ?thesis
  proof (cases "n = 0 \<or> f = None")
    case True
    with Some cl o show ?thesis by (auto simp: payload_read_def Let_def)
  next
    case False
    then obtain m where m: "f = Some m" by auto
    then obtain st where st: "streams fs m = Some st"
      using o ok by (cases "pf_file ?p") (auto simp: fopen_existing_def new_stream_def open_ok_def split: if_splits)
    let ?got = "take (unat n) (drop (unat off) (file_bytes fs (st_path st)))"
    obtain fs1 fs2 where q: "fseek fs (Some m) (unat off) = Inr fs1" "fread fs1 (Some m) (unat n) = Inr (fs2, ?got)"
      using st by (simp add: fseek_def fread_def stream_of_def file_bytes_def Let_def)
    have "length ?got \<le> room" using assms(3) by simp
    then have "payload_read room w pid off n = Inr (w\<lparr>g_payload_list := (g_payload_list w)[i := ?p\<lparr>pf_file := Some m\<rparr>], pw_files := fs2\<rparr>,
        of_nat (length ?got), ?got)"
      using Some cl o False m q
      by (simp add: payload_read_def Let_def word_neq_0_conv [symmetric] del: length_take length_drop cong: if_cong split del: if_split)
    then show ?thesis by (intro exI conjI) (assumption, simp_all)
  qed
qed

text \<open>
  C24. The registry of file payloads stays well formed: in every state reached by adding, removing and reading payloads,
  ids are distinct. Adding and removing an id other than that of the built-in test payload never
  fails; adding reports success, and the id is known afterwards, exactly when the file can be opened, and
  otherwise the id is unknown; removing forgets exactly that id. A read inside the size noted for its payload
  returns and does not deliver more than it was asked for. Removing or replacing the built-in payload, id
  255, frees memory that was never allocated.\<close>

theorem payload_registry_safe:
  assumes "payload_reachable w"
  shows "distinct (map pf_id (g_payload_list w)) \<and>
    (\<forall>pid f. pid \<noteq> 255 \<longrightarrow>
       (\<exists>w' ok. dtp_file_payload_add pid f w = Inr (w', ok) \<and> (ok \<longleftrightarrow> (\<exists>path. f = Some path \<and> readable w path)) \<and>
          pf_id ` set (g_payload_list w') = (if ok then insert pid (pf_id ` set (g_payload_list w)) else pf_id ` set (g_payload_list w) - {pid})) \<and>
       (\<exists>w'. dtp_file_payload_del pid w = Inr w' \<and> pf_id ` set (g_payload_list w') = pf_id ` set (g_payload_list w) - {pid})) \<and>
    (\<forall>pid off n room. inside w pid off n \<and> unat n \<le> room \<longrightarrow>
       (\<exists>w' r bs. payload_read room w pid off n = Inr (w', r, bs) \<and> r = of_nat (length bs) \<and> length bs \<le> unat n)) \<and>
    dtp_file_payload_del 255 w = Inl Bad_Free \<and> (\<forall>f. dtp_file_payload_add 255 f w = Inl Bad_Free)"
proof -
  have inv: "payload_inv w" using assms by (rule payload_reachable_inv)
  have di: "distinct (map pf_id (g_payload_list w))" using inv by (simp add: payload_inv_def)
  have de: "\<exists>w'. dtp_file_payload_del pid w = Inr w' \<and> pf_id ` set (g_payload_list w') = pf_id ` set (g_payload_list w) - {pid}"
    if "pid \<noteq> 255" for pid
    using del_inv [OF inv that] by (elim exE conjE) (intro exI conjI)
  have rd: "\<exists>w' r bs. payload_read room w pid off n = Inr (w', r, bs) \<and> r = of_nat (length bs) \<and> length bs \<le> unat n"
    if "inside w pid off n \<and> unat n \<le> room" for pid off n room
    using read_inside_returns [OF inv] that by blast
  show ?thesis by (intro conjI allI impI di del_static [OF inv] add_static [OF inv] add_succeeds [OF inv] de rd) auto
qed

definition example_files :: file_system where
  "example_files = \<lparr>contents = [''a'' \<mapsto> replicate 20 1], may_open = (\<lambda>_. True), streams = (\<lambda>_. None), next_stream = 0\<rparr>"

theorem payload_registry_safe_witness:
  "\<exists>w' w''. dtp_file_payload_add 3 (Some ''a'') (initial_payloads example_files) = Inr (w', True) \<and>
    dtp_file_payload_add 4 (Some ''b'') w' = Inr (w'', False) \<and> pf_id ` set (g_payload_list w'') = {3, 255} \<and>
    dtp_file_payload_del 255 w' = Inl Bad_Free"
proof -
  let ?w = "initial_payloads example_files"
  have ids: "pf_id ` set (g_payload_list ?w) = {255}" by (simp add: initial_payloads_def test_payload_def)
  have rd: "readable ?w ''a''" by (simp add: readable_def initial_payloads_def example_files_def)
  obtain w' where w': "dtp_file_payload_add 3 (Some ''a'') ?w = Inr (w', True)" "pf_id ` set (g_payload_list w') = {3, 255}"
    using payload_registry_safe [OF payload_reachable.start [of example_files], THEN conjunct2, THEN conjunct1, rule_format, of 3 "Some ''a''",
        THEN conjunct1] rd ids by auto
  then have r: "payload_reachable w'" by (intro payload_reachable.add [OF payload_reachable.start, of 3]) simp_all
  have nb: "\<not> readable w' ''b''"
    using w'(1) by (auto simp: dtp_file_payload_add_def initial_payloads_def test_payload_def example_files_def fopen_existing_def
        new_stream_def fclose_def stream_of_def readable_def)
  obtain w'' where w'': "dtp_file_payload_add 4 (Some ''b'') w' = Inr (w'', False)" "pf_id ` set (g_payload_list w'') = {3, 255} - {4}"
    using payload_registry_safe [OF r, THEN conjunct2, THEN conjunct1, rule_format, of 4 "Some ''b''", THEN conjunct1] nb w'(2) by auto
  have "{3, 255} - {4} = {3, 255 :: u8}" by auto
  then show ?thesis using w'(1) w'' payload_registry_safe [OF r] by (intro exI [of _ w'] exI [of _ w'']) simp
qed

text \<open>
  The reader the server calls for a registered file; the caller provides the space it asks for. The server's reads
  stay inside the file, where no read overruns (\<open>payload_read_past_end\<close> shows where one does; such a read counts
  as 0 bytes here), and a stream opened by a read does not change what later reads deliver.
\<close>

definition file_reader :: "payload_world \<Rightarrow> reader" where
  "file_reader w pid off n = (case payload_read (unat n) w pid off n of Inl _ \<Rightarrow> (0, []) | Inr (_, r, bs) \<Rightarrow> (r, bs))"

lemma registered_source: "registered w pid path content \<Longrightarrow> payload_source (file_reader w) pid content"
proof
  assume r: "registered w pid path content"
  then show "length content < 2 ^ 32" by (simp add: registered_def)
  fix off n :: u32
  assume "unat off + unat n \<le> length content"
  from payload_read_inside [OF r this] show "file_reader w pid off n = (n, take (unat n) (drop (unat off) content))"
    by (auto simp: file_reader_def)
qed

lemma registered_meta:
  "registered w pid path content \<Longrightarrow>
   dtp_file_payload_get_meta meta pid w = (meta\<lparr>pm_size := of_nat (length content), pm_read := Some payload_read_hook\<rparr>, True)"
proof -
  assume "registered w pid path content"
  then obtain i where i: "payload_lookup (g_payload_list w) pid = Some i" "pf_size (g_payload_list w ! i) = of_nat (length content)"
      "pf_read (g_payload_list w ! i) = payload_read_hook" "length content < 4294967296"
    by (auto simp: registered_def entry_def)
  have "unat (ucast (of_nat (length content) :: u64) :: u32) = length content"
    using i(4) by (subst unat_ucast_u64_u32) (simp_all add: unat_of_nat)
  then have "ucast (of_nat (length content) :: u64) = (of_nat (length content) :: u32)"
    using i(4) by (simp add: word_unat_eq_iff unat_of_nat_u32)
  with i show ?thesis by (simp add: dtp_file_payload_get_meta_def)
qed

text \<open>
  C11. Registering a readable file of less than 4 GiB makes it a payload: the server is told its size and its read
  function, and reading any part of it delivers that part, as often as it is asked for - the interface the
  server's transfer relies on.\<close>

theorem file_payload_served:
  assumes "payload_reachable w" and "pid \<noteq> 255" and "may_open (pw_files w) path"
    and "contents (pw_files w) path = Some content" and "length content < 4294967296"
  shows "\<exists>w'. dtp_file_payload_add pid (Some path) w = Inr (w', True) \<and>
    dtp_file_payload_get_meta meta pid w' = (meta\<lparr>pm_size := of_nat (length content), pm_read := Some payload_read_hook\<rparr>, True) \<and>
    payload_source (file_reader w') pid content \<and>
    (\<forall>off n. unat off + unat n \<le> length content \<longrightarrow>
      (\<exists>w''. payload_read (unat n) w' pid off n = Inr (w'', n, take (unat n) (drop (unat off) content)) \<and>
         payload_source (file_reader w'') pid content))"
proof -
  obtain w' where w': "dtp_file_payload_add pid (Some path) w = Inr (w', True)" "entry w' pid path (of_nat (length content)) content"
    using add_registers [OF payload_reachable_inv [OF assms(1)] assms(2), of "Some path"] assms(3,4) by auto
  then have r: "registered w' pid path content" using assms(5) by (simp add: registered_def)
  have "\<exists>w''. payload_read (unat n) w' pid off n = Inr (w'', n, take (unat n) (drop (unat off) content)) \<and>
      payload_source (file_reader w'') pid content" if "unat off + unat n \<le> length content" for off n
    using payload_read_inside [OF r that] registered_source by blast
  with w'(1) registered_source [OF r] registered_meta [OF r] show ?thesis by blast
qed

theorem file_payload_served_witness:
  "\<exists>w'. dtp_file_payload_add 3 (Some ''a'') (initial_payloads example_files) = Inr (w', True) \<and>
    file_reader w' 3 4 8 = (8, replicate 8 1)"
proof -
  have p: "(3::u8) \<noteq> 255" "may_open (pw_files (initial_payloads example_files)) ''a''"
      "contents (pw_files (initial_payloads example_files)) ''a'' = Some (replicate 20 1)" "length (replicate 20 (1::u8)) < 4294967296"
    by (simp_all add: initial_payloads_def example_files_def)
  obtain w' where w': "dtp_file_payload_add 3 (Some ''a'') (initial_payloads example_files) = Inr (w', True)"
      "payload_source (file_reader w') 3 (replicate 20 1)"
    using file_payload_served [OF payload_reachable.start p] by blast
  from payload_source.reads [OF w'(2), of 4 8] w'(1) show ?thesis by auto
qed

lemma clip_past_end:
  assumes "unat off < sz" and "sz < unat off + unat n" and "unat off + unat n < 4294967296"
  shows "unat (clip_size (of_nat sz) off n) = 4294967296 - (sz - unat off)"
proof -
  have sz: "unat (of_nat sz :: u64) = sz" "unat (of_nat sz :: u32) = sz" using assms by (simp_all add: unat_of_nat)
  have "unat (off + n) = unat off + unat n" using assms(3) by (rule unat_add_u32)
  then have clip: "clip_size (of_nat sz) off n = ucast (ucast off - of_nat sz :: u64)"
    using assms(1,2) sz(1) by (simp add: clip_size_def word_less_nat_alt)
  define d where "d = sz - unat off"
  have d: "0 < d" "d < 4294967296" using assms by (simp_all add: d_def)
  have "\<not> (of_nat sz :: u64) \<le> ucast off" using sz(1) assms(1) by (simp add: word_le_nat_alt)
  then have "unat (ucast off - of_nat sz :: u64) = unat off + 2 ^ 64 - sz"
    using sz(1) unat_sub_if_size [of "ucast off :: u64" "of_nat sz"] by (simp add: word_size word_le_nat_alt)
  also have "\<dots> = 4294967295 * 4294967296 + (4294967296 - d)" using assms d by (simp add: d_def)
  finally have "unat (clip_size (of_nat sz) off n) = (4294967295 * 4294967296 + (4294967296 - d)) mod 4294967296"
    unfolding clip by (simp only: unsigned_ucast_eq take_bit_eq_mod) simp
  also have "\<dots> = (4294967296 - d) mod 4294967296" by (rule mod_mult_self3)
  also have "\<dots> = 4294967296 - d" using d by (intro mod_less) linarith
  finally show ?thesis by (simp add: d_def)
qed

text \<open>
  C40. A read that starts inside a registered file and runs past its end computes its size the wrong way round and
  so asks for almost 4 GiB. For a file that still has its registered size this goes unnoticed: reading stops at the
  end of the file, and the rest of it is delivered. When the file has grown by then, the
  caller's buffer is overrun.\<close>

theorem payload_read_past_end:
  assumes "entry w pid path (of_nat sz) bs" and "unat off < sz" and "sz < unat off + unat n"
    and "unat off + unat n < 2147483648"
  shows "(length bs = sz \<longrightarrow> (\<exists>w'. payload_read (unat n) w pid off n = Inr (w', of_nat (sz - unat off), drop (unat off) bs))) \<and>
    (length bs > unat off + unat n \<longrightarrow> payload_read (unat n) w pid off n = Inl Out_Of_Bounds)"
proof -
  let ?k = "clip_size (of_nat sz) off n" and ?got = "take (unat (clip_size (of_nat sz) off n)) (drop (unat off) bs)"
  have k: "unat ?k = 4294967296 - (sz - unat off)" using assms(2-4) by (intro clip_past_end) simp_all
  then have "0 < ?k" using assms(2-4) by (simp add: word_less_nat_alt)
  from payload_read_stream [OF assms(1) refl this refl, of "unat n"] obtain w' where
    r: "payload_read (unat n) w pid off n = (if length ?got \<le> unat n then Inr (w', of_nat (length ?got), ?got) else Inl Out_Of_Bounds)"
    by blast
  have "?got = drop (unat off) bs" "length ?got \<le> unat n" if "length bs = sz" using that k assms(2-4) by simp_all
  moreover have "\<not> length ?got \<le> unat n" if "length bs > unat off + unat n" using that k assms(2-4) by simp
  ultimately show ?thesis using r by (simp split del: if_split)
qed

text \<open>A file registered with 20 bytes that has grown to 40.\<close>

definition grown_world :: payload_world where
  "grown_world = \<lparr>g_payload_list = [\<lparr>pf_id = 3, pf_filename = ''a'', pf_file = None, pf_size = 20, pf_read = payload_read_hook,
      pf_static = False\<rparr>, test_payload],
    pw_files = example_files\<lparr>contents := [''a'' \<mapsto> replicate 40 1]\<rparr>\<rparr>"

theorem payload_read_past_end_witness: "payload_read 8 grown_world 3 16 8 = Inl Out_Of_Bounds"
proof -
  have "entry grown_world 3 ''a'' (of_nat 20) (replicate 40 1)"
    by (simp add: entry_def grown_world_def open_ok_None example_files_def)
  from payload_read_past_end [OF this, of 16 8] show ?thesis by simp
qed

section \<open>The test payloads\<close>

text \<open>
  Both test readers copy whole blocks of sixteen bytes: into a buffer of exactly the size asked for they
  write past its end unless the blocks happen to fit.
\<close>

lemma length_memcpy_at: "memcpy_at out pos xs = Inr out' \<Longrightarrow> length out' = length out"
  by (auto simp: memcpy_at_def split: if_splits)

lemma api_read_loop_overruns:
  assumes "unat sz mod 16 \<noteq> 0" and "unat sz + 16 < 4294967296"
  shows "unat so_far mod 16 = 0 \<Longrightarrow> unat so_far < unat sz \<Longrightarrow> length out = unat sz \<Longrightarrow> unat sz - unat so_far < n \<Longrightarrow>
    api_read_loop n sz so_far out = Inl Out_Of_Bounds"
proof (induction n arbitrary: so_far out)
  case (Suc n)
  have len: "length api_test_data = 16" by (simp add: api_test_data_def)
  show ?case
  proof (cases "unat so_far + 16 \<le> unat sz")
    case True
    then obtain out' where m: "memcpy_at out (unat so_far) api_test_data = Inr out'"
      using Suc.prems(3) len by (simp add: memcpy_at_def)
    have u: "unat (so_far + 16) = unat so_far + 16" using unat_add_u32 [of so_far 16] Suc.prems(2) assms(2) by simp
    have "unat so_far + 16 \<noteq> unat sz" using assms(1) Suc.prems(1) by (metis mod_add_self2)
    then have "api_read_loop n sz (so_far + 16) out' = Inl Out_Of_Bounds"
      using Suc.IH [of "so_far + 16" out'] Suc.prems True u length_memcpy_at [OF m] by simp
    with m Suc.prems(2) show ?thesis by (simp add: word_less_nat_alt)
  next
    case False
    then show ?thesis using Suc.prems(2,3) len by (simp add: memcpy_at_def word_less_nat_alt)
  qed
qed simp

lemma api_payload_overruns:
  "unat sz mod 16 \<noteq> 0 \<Longrightarrow> unat sz + 16 < 4294967296 \<Longrightarrow> length out = unat sz \<Longrightarrow>
   api_payload_read out pid off sz = Inl Out_Of_Bounds"
  using api_read_loop_overruns [of sz 0 out "unat sz + 1"]
  by (cases "unat sz") (auto simp: api_payload_read_def simp del: api_read_loop.simps)

lemma test_payload_overruns: "test_memory_payload_read (replicate 5 0) 255 4 5 = Inl Out_Of_Bounds"
proof -
  have "test_memory_loop (Suc 5) 5 4 0 (replicate 5 0) = Inl Out_Of_Bounds"
    by (subst test_memory_loop.simps(2)) (simp add: memcpy_at_def test_data_def)
  then show ?thesis by (simp add: test_memory_payload_read_def del: test_memory_loop.simps)
qed

end
