(* ===== verification/Vmem.thy ===== *)
theory Vmem
  imports Server_Correct Stdio
begin

text \<open>
  Downloads of memory: the requests a client sends to the memory server of the other node
  (\<open>src/dtp_vmem_client.c\<close>) and the handler and task on that node (\<open>src/dtp_vmem_server.c\<close>). Packets
  are arrays of bytes, and both sides access them through packed structs, so the definitions write
  and read single fields at their offsets, in the byte order of the host after the conversions the
  code makes. The header in front of every request belongs to another library: its size and the
  effect of the two assignments to its fields are a parameter.
\<close>

section \<open>Fields in network byte order\<close>

definition bswap :: "('w::len) word \<Rightarrow> 'w word" where
  "bswap w = host_value True (rev (host_bytes True w))"

text \<open>\<open>htobe16\<close>, \<open>htobe32\<close>, \<open>htobe64\<close> and their inverses.\<close>

definition htobe :: "bool \<Rightarrow> ('w::len) word \<Rightarrow> 'w word" where
  "htobe le w = (if le then bswap w else w)"

definition put_field :: "bool \<Rightarrow> nat \<Rightarrow> ('w::len) word \<Rightarrow> u8 list \<Rightarrow> u8 list c_result" where
  "put_field le pos w buf = memcpy_at buf pos (host_bytes le w)"

definition get_field :: "bool \<Rightarrow> nat \<Rightarrow> u8 list \<Rightarrow> ('w::len) word c_result" where
  "get_field le pos buf = c_bind (memcpy_from buf pos (LENGTH('w) div 8)) (\<lambda>bs. Inr (host_value le bs))"

definition get_be :: "bool \<Rightarrow> nat \<Rightarrow> u8 list \<Rightarrow> ('w::len) word c_result" where
  "get_be le pos buf = c_bind (get_field le pos buf) (\<lambda>w. Inr (htobe le w))"

section \<open>The structs\<close>

text \<open>
  Offsets of the members of \<open>dtp_start_req_t\<close> from the beginning of the body, \<open>meta\<close> with its own
  members included, and the sizes of the structs.
\<close>

abbreviation (input) at_vaddr :: nat where "at_vaddr \<equiv> 4"
abbreviation (input) at_size :: nat where "at_size \<equiv> 12"
abbreviation (input) at_throughput :: nat where "at_throughput \<equiv> 16"
abbreviation (input) at_nof_intervals :: nat where "at_nof_intervals \<equiv> 20"
abbreviation (input) at_payload_id :: nat where "at_payload_id \<equiv> 21"
abbreviation (input) at_session_id :: nat where "at_session_id \<equiv> 24"
abbreviation (input) at_mtu :: nat where "at_mtu \<equiv> 28"
abbreviation (input) at_keep_alive :: nat where "at_keep_alive \<equiv> 30"
abbreviation (input) at_interval :: "nat \<Rightarrow> nat" where "at_interval i \<equiv> 32 + 8 * i"

definition sizeof_start_req :: nat where "sizeof_start_req = 96"
definition sizeof_stop_req :: nat where "sizeof_stop_req = 4"
definition sizeof_status_resp :: nat where "sizeof_status_resp = 8"

definition DTP_REQUEST_START_TRANSFER :: u8 where "DTP_REQUEST_START_TRANSFER = 0"
definition DTP_REQUEST_STOP_TRANSFER :: u8 where "DTP_REQUEST_STOP_TRANSFER = 1"
definition DTP_REQUEST_TRANSFER_STATUS :: u8 where "DTP_REQUEST_TRANSFER_STATUS = 2"
definition DTP_REQUEST_TRANSFER_ALIVE :: u8 where "DTP_REQUEST_TRANSFER_ALIVE = 3"

definition DTP_TRANSFER_STATUS_OK :: u32 where "DTP_TRANSFER_STATUS_OK = 0"
definition DTP_TRANSFER_STATUS_BUSY :: u32 where "DTP_TRANSFER_STATUS_BUSY = 1"

text \<open>
  The header \<open>vmem_request_hdr_t\<close>: its size, and its bytes after \<open>type\<close> and \<open>version\<close> were assigned, given
  the version and the bytes it had before.
\<close>

record vmem_hdr =
  hd_size :: nat
  hd_store :: "int \<Rightarrow> u8 list \<Rightarrow> u8 list"

definition body :: "vmem_hdr \<Rightarrow> nat" where
  "body H = hd_size H + 1"

text \<open>\<open>dtp_vmem_request_t\<close>: the header and the request type behind it.\<close>

definition put_request :: "vmem_hdr \<Rightarrow> int \<Rightarrow> u8 \<Rightarrow> u8 list \<Rightarrow> u8 list c_result" where
  "put_request H version kind buf =
     c_bind (memcpy_at buf 0 (hd_store H version (take (hd_size H) buf))) (\<lambda>b. memcpy_at b (hd_size H) [kind])"

section \<open>Client\<close>

text \<open>
  What the network answers: the connection, the packet buffer with whatever bytes it holds, and the data
  of the packet \<open>csp_read\<close> returns. The calls a function makes are its trace.
\<close>

record vmem_env =
  ve_conn :: "conn option"
  ve_buffer :: "u8 list option"
  ve_reply :: "u8 list option"

datatype csp_call = Csp_Connect int int bool | Csp_Send conn "u8 list" | Csp_Free "u8 list" | Csp_Close conn

definition put_interval :: "bool \<Rightarrow> nat \<Rightarrow> interval_t list \<Rightarrow> u8 list \<Rightarrow> nat \<Rightarrow> u8 list c_result" where
  "put_interval le base ivs b i =
     c_bind (c_index ivs i) (\<lambda>iv.
     c_bind (put_field le (base + at_interval i) (htobe le (iv_start iv)) b)
       (put_field le (base + at_interval i + 4) (htobe le (iv_end iv))))"

definition clamped_intervals :: "u8 \<Rightarrow> u8" where
  "clamped_intervals n = (if n > 8 then 8 else n)"

text \<open>The bytes of the body of a start request, written behind \<open>base\<close> into \<open>buf\<close>.\<close>

definition put_start_req :: "bool \<Rightarrow> nat \<Rightarrow> dtp_meta_req_t \<Rightarrow> u32 \<Rightarrow> u64 \<Rightarrow> u32 \<Rightarrow> u8 list \<Rightarrow> u8 list c_result" where
  "put_start_req le base req sid va sz buf =
     c_bind (put_field le (base + at_vaddr) (htobe le va) buf) (\<lambda>b.
     c_bind (put_field le (base + at_size) (htobe le sz) b) (\<lambda>b.
     c_bind (put_field le (base + at_throughput) (htobe le (throughput req)) b) (\<lambda>b.
     c_bind (put_field le (base + at_mtu) (htobe le (mtu req)) b) (\<lambda>b.
     c_bind (put_field le (base + at_session_id) (htobe le sid) b) (\<lambda>b.
     c_bind (put_field le (base + at_keep_alive) (keep_alive_to_wire le (keep_alive_interval req)) b) (\<lambda>b.
     c_bind (put_field le (base + at_nof_intervals) (clamped_intervals (nof_intervals req)) b) (\<lambda>b.
     fold_c (put_interval le base (intervals req)) b [0..<unat (clamped_intervals (nof_intervals req))])))))))"

text \<open>What the four functions share: without a connection or a buffer the result is -1, and then a connection stays open.\<close>

definition with_packet :: "vmem_env \<Rightarrow> int \<Rightarrow> int \<Rightarrow> bool \<Rightarrow> (conn \<Rightarrow> u8 list \<Rightarrow> (int \<times> csp_call list) c_result) \<Rightarrow>
    (int \<times> csp_call list) c_result" where
  "with_packet env node tmo rdp f =
     (case ve_conn env of
        None \<Rightarrow> Inr (-1, [Csp_Connect node tmo rdp])
      | Some c \<Rightarrow>
          (case ve_buffer env of
             None \<Rightarrow> Inr (-1, [Csp_Connect node tmo rdp])
           | Some buf \<Rightarrow> c_bind (f c buf) (\<lambda>(res, calls). Inr (res, Csp_Connect node tmo rdp # calls))))"

definition vmem_request_dtp_start_download :: "bool \<Rightarrow> vmem_hdr \<Rightarrow> vmem_env \<Rightarrow> 'c dtp_t \<Rightarrow> int \<Rightarrow> u32 \<Rightarrow> int \<Rightarrow> int \<Rightarrow>
    int \<Rightarrow> u64 \<Rightarrow> u32 \<Rightarrow> (int \<times> csp_call list) c_result" where
  "vmem_request_dtp_start_download le H env session node sid tmo version use_rdp va sz =
     with_packet env node tmo (use_rdp \<noteq> 0) (\<lambda>c buf.
     c_bind (put_request H version DTP_REQUEST_START_TRANSFER buf) (\<lambda>b.
     c_bind (put_start_req le (body H) (request_meta session) sid va sz b) (\<lambda>b.
     Inr (0, [Csp_Send c (take (body H + sizeof_start_req) b), Csp_Close c]))))"

definition vmem_request_dtp_stop_download :: "bool \<Rightarrow> vmem_hdr \<Rightarrow> vmem_env \<Rightarrow> int \<Rightarrow> u32 \<Rightarrow> int \<Rightarrow> int \<Rightarrow> int \<Rightarrow>
    (int \<times> csp_call list) c_result" where
  "vmem_request_dtp_stop_download le H env node sid tmo version use_rdp =
     with_packet env node tmo (use_rdp \<noteq> 0) (\<lambda>c buf.
     c_bind (put_request H version DTP_REQUEST_STOP_TRANSFER buf) (\<lambda>b.
     c_bind (put_field le (body H) (htobe le sid) b) (\<lambda>b.
     Inr (0, [Csp_Send c (take (body H + sizeof_stop_req) b), Csp_Close c]))))"

text \<open>The status is a \<open>uint32_t\<close> cast to \<open>int\<close>.\<close>

definition vmem_request_dtp_status :: "bool \<Rightarrow> vmem_hdr \<Rightarrow> vmem_env \<Rightarrow> int \<Rightarrow> int \<Rightarrow> int \<Rightarrow> int \<Rightarrow>
    (int \<times> csp_call list) c_result" where
  "vmem_request_dtp_status le H env node tmo version use_rdp =
     with_packet env node tmo (use_rdp \<noteq> 0) (\<lambda>c buf.
     c_bind (put_request H version DTP_REQUEST_TRANSFER_STATUS buf) (\<lambda>b.
     let sent = Csp_Send c (take (body H) b) in
     case ve_reply env of
       None \<Rightarrow> Inr (-1, [sent, Csp_Close c])
     | Some r \<Rightarrow>
         c_bind (if sizeof_status_resp \<le> length r
                 then c_bind (get_be le 4 r) (\<lambda>status :: u32. Inr (sint status)) else Inr (-1)) (\<lambda>res.
         Inr (res, [sent, Csp_Free r, Csp_Close c]))))"

definition vmem_request_dtp_send_alive :: "vmem_hdr \<Rightarrow> vmem_env \<Rightarrow> int \<Rightarrow> (int \<times> csp_call list) c_result" where
  "vmem_request_dtp_send_alive H env node =
     with_packet env node 100000 True (\<lambda>c buf.
     c_bind (put_request H 0 DTP_REQUEST_TRANSFER_ALIVE buf) (\<lambda>b.
     Inr (-1, [Csp_Send c (take (body H) b), Csp_Close c])))"

section \<open>Server\<close>

text \<open>
  The context of the handler, with the message queue of another library as a parameter type, and the
  transfer context shared with the sending task.
\<close>

record 'q dtp_vmem_context_t =
  vc_session_id :: u32
  vc_queue :: 'q
  vc_transfer :: dtp_server_transfer_ctx_t

text \<open>The context of the task, static and so zero at first, once its queue is created.\<close>

definition initial_vmem_context :: "'q \<Rightarrow> dtp_server_transfer_ctx_t \<Rightarrow> 'q dtp_vmem_context_t" where
  "initial_vmem_context queue ctx = \<lparr>vc_session_id = 0, vc_queue = queue, vc_transfer = ctx\<rparr>"

definition get_interval :: "bool \<Rightarrow> nat \<Rightarrow> u8 list \<Rightarrow> interval_t list \<Rightarrow> nat \<Rightarrow> interval_t list c_result" where
  "get_interval le base data ivs i =
     c_bind (get_be le (base + at_interval i) data) (\<lambda>s.
     c_bind (get_be le (base + at_interval i + 4) data) (\<lambda>e.
     if i < length ivs then Inr (ivs[i := \<lparr>iv_start = s, iv_end = e\<rparr>]) else Inl Out_Of_Bounds))"

text \<open>The message built from a start request; \<open>msg0\<close> is what the uninitialised local variable holds.\<close>

definition start_message :: "bool \<Rightarrow> nat \<Rightarrow> dtp_msg_t \<Rightarrow> u16 \<Rightarrow> u16 \<Rightarrow> u8 list \<Rightarrow> dtp_msg_t c_result" where
  "start_message le base msg0 dst src data =
     c_bind (get_be le (base + at_mtu) data) (\<lambda>m.
     c_bind (get_be le (base + at_throughput) data) (\<lambda>thr.
     c_bind (get_be le (base + at_session_id) data) (\<lambda>sid.
     c_bind (get_field le (base + at_payload_id) data) (\<lambda>pid.
     c_bind (get_field le (base + at_nof_intervals) data) (\<lambda>nof.
     c_bind (get_field le (base + at_keep_alive) data) (\<lambda>ka.
     c_bind (fold_c (get_interval le base data) (intervals (msg_meta msg0)) [0..<unat nof]) (\<lambda>ivs.
     c_bind (get_be le (base + at_vaddr) data) (\<lambda>va.
     c_bind (get_be le (base + at_size) data) (\<lambda>sz.
     Inr (msg0\<lparr>msg := 1, msg_srv_node := dst, msg_dest_port := src, vaddr := va, msg_size := sz,
       msg_meta := (msg_meta msg0)\<lparr>mtu := m, throughput := thr, session_id := sid, payload_id := pid,
         nof_intervals := nof, keep_alive_interval := keep_alive_from_wire le ka, intervals := ivs\<rparr>\<rparr>))))))))))"

text \<open>
  The handler: \<open>data\<close> is the data array of the packet, \<open>dst\<close> its destination and \<open>src\<close> the source of the
  connection, \<open>now\<close> the clock and \<open>buffer\<close> what \<open>csp_buffer_get\<close> returns. The second result is the
  reply, if one is sent. The packet is freed in every case, and the handler's result is always 0.
\<close>

definition vmem_dtp_request_handler :: "bool \<Rightarrow> vmem_hdr \<Rightarrow> ('q \<Rightarrow> dtp_msg_t \<Rightarrow> 'q) \<Rightarrow> dtp_msg_t \<Rightarrow> u32 \<Rightarrow>
    u8 list option \<Rightarrow> u16 \<Rightarrow> u16 \<Rightarrow> u8 list \<Rightarrow> 'q dtp_vmem_context_t \<Rightarrow> ('q dtp_vmem_context_t \<times> u8 list option) c_result" where
  "vmem_dtp_request_handler le H mq_send msg0 now buffer dst src data vc =
     c_bind (get_field le (hd_size H) data) (\<lambda>kind.
     if kind = DTP_REQUEST_START_TRANSFER then
       c_bind (start_message le (body H) msg0 dst src data) (\<lambda>m.
       Inr (vc\<lparr>vc_session_id := session_id (msg_meta m), vc_transfer := (vc_transfer vc)\<lparr>client_alive_ts := now\<rparr>,
               vc_queue := mq_send (vc_queue vc) m\<rparr>, None))
     else if kind = DTP_REQUEST_STOP_TRANSFER then
       c_bind (get_be le (body H) data) (\<lambda>printed :: u32.
       Inr (vc\<lparr>vc_session_id := 0, vc_transfer := (vc_transfer vc)\<lparr>keep_running := False\<rparr>\<rparr>, None))
     else if kind = DTP_REQUEST_TRANSFER_STATUS then
       (case buffer of
          None \<Rightarrow> Inr (vc, None)
        | Some buf \<Rightarrow>
            c_bind (put_field le 0 (htobe le (vc_session_id vc)) buf) (\<lambda>b.
            c_bind (put_field le 4 (htobe le (if keep_running (vc_transfer vc)
              then DTP_TRANSFER_STATUS_BUSY else DTP_TRANSFER_STATUS_OK)) b) (\<lambda>b.
            Inr (vc, Some (take sizeof_status_resp b)))))
     else if kind = DTP_REQUEST_TRANSFER_ALIVE then
       Inr (if keep_running (vc_transfer vc) then vc\<lparr>vc_transfer := (vc_transfer vc)\<lparr>client_alive_ts := now\<rparr>\<rparr> else vc, None)
     else Inr (vc, None))"

text \<open>
  The task: the operations handed to the server loop, and one turn of that loop with them.
  \<open>mq_receive\<close> takes a message from the queue, \<open>vmem_read\<close> reads memory; both belong to other libraries.
\<close>

definition async_recv :: "('q \<Rightarrow> dtp_msg_t \<times> 'q) \<Rightarrow> 'q \<Rightarrow> dtp_msg_t \<times> 'q" where
  "async_recv mq_receive q = mq_receive q"

definition async_vmem_read :: "(u64 \<Rightarrow> u32 \<Rightarrow> u8 list) \<Rightarrow> u64 \<Rightarrow> u32 \<Rightarrow> u32 \<times> u8 list" where
  "async_vmem_read vmem_read from_vaddr sz = (sz, vmem_read from_vaddr sz)"

definition dtp_vmem_server_task_turn :: "nat \<Rightarrow> (nat \<Rightarrow> u32) \<Rightarrow> ('q \<Rightarrow> dtp_msg_t \<times> 'q) \<Rightarrow> (u64 \<Rightarrow> u32 \<Rightarrow> u8 list) \<Rightarrow>
    hook \<Rightarrow> nat \<Rightarrow> env \<Rightarrow> 'q dtp_vmem_context_t \<Rightarrow> server \<Rightarrow> ('q dtp_vmem_context_t \<times> server) c_result" where
  "dtp_vmem_server_task_turn fuel clock mq_receive vmem_read vmem_read_hook transfer_obj env vc sv =
     (let (m, q) = async_recv mq_receive (vc_queue vc) in
      c_bind (vmem_server_turn fuel clock (\<lambda>a n. snd (async_vmem_read vmem_read a n)) vmem_read_hook transfer_obj env m
        (sv\<lparr>sv_ctx := vc_transfer vc\<rparr>)) (\<lambda>sv'.
      Inr (vc\<lparr>vc_queue := q, vc_transfer := sv_ctx sv'\<rparr>, sv')))"

end
