(* ===== verification/Vmem_Correct.thy ===== *)
theory Vmem_Correct
  imports Vmem Session_Pool
begin

text \<open>
  Correctness of memory download requests: every field a client writes into a request is read by the
  handler of the other node, whatever bytes the packet buffers held before and whatever the byte order
  of the two hosts' common type is; the handler's reaction to each request; requests that make it leave its arrays.
\<close>

section \<open>Byte order\<close>

lemma from_bytes_less: "from_bytes bs < 256 ^ length bs"
proof (induction bs)
  case (Cons b bs)
  have "unat b < 256" by (rule unat_lt_u8)
  with Cons show ?case by simp
qed simp

lemma to_from_bytes: "to_bytes (length bs) (from_bytes bs) = bs"
  by (induction bs) (simp_all add: unat_lt_u8 div_add1_eq)

lemma width_bytes: "8 dvd LENGTH('w) \<Longrightarrow> (256::nat) ^ (LENGTH('w::len) div 8) = 2 ^ LENGTH('w)"
  using power_mult [of "2::nat" 8 "LENGTH('w) div 8"] by simp

lemma host_bytes_value:
  assumes "8 dvd LENGTH('w::len)" and "length bs = LENGTH('w) div 8"
  shows "host_bytes le (host_value le bs :: 'w word) = bs"
proof -
  let ?cs = "if le then bs else rev bs"
  have "from_bytes ?cs < 2 ^ LENGTH('w)"
    using from_bytes_less [of ?cs] assms width_bytes [where 'w = 'w] by (cases le) simp_all
  then have "unat (host_value le bs :: 'w word) = from_bytes ?cs" by (simp add: host_value_def unat_of_nat)
  then have "to_bytes (LENGTH('w) div 8) (unat (host_value le bs :: 'w word)) = ?cs"
    using to_from_bytes [of ?cs] assms(2) by (cases le) simp_all
  then show ?thesis by (simp add: host_bytes_def Let_def word_size)
qed

lemma host_bytes_order: "host_bytes False w = rev (host_bytes True w)"
  by (simp add: host_bytes_def Let_def)

lemma host_value_order: "host_value False bs = host_value True (rev bs)"
  by (simp add: host_value_def)

text \<open>After \<open>htobe\<close> an object's bytes are those of the big-endian representation, on either kind of host.\<close>

lemma htobe_bytes: "8 dvd LENGTH('w) \<Longrightarrow> host_bytes le (htobe le w) = host_bytes False w" for w :: "'w::len word"
  by (simp add: htobe_def bswap_def host_bytes_value word_size host_bytes_order)

lemma betoh_value: "8 dvd LENGTH('w) \<Longrightarrow> htobe le (host_value le (host_bytes False w)) = w" for w :: "'w::len word"
  by (simp add: htobe_def bswap_def host_bytes_value word_size host_bytes_order host_roundtrip)
     (simp add: host_bytes_order [symmetric] host_value_order [symmetric] host_roundtrip)

section \<open>Fields of a buffer\<close>

definition field_at :: "u8 list \<Rightarrow> nat \<times> u8 list \<Rightarrow> bool" where
  "field_at b f = (fst f + length (snd f) \<le> length b \<and>
     (\<forall>i < length (snd f). b ! (fst f + i) = snd f ! i))"

lemma field_at_bytes: "field_at b (pos, xs) \<Longrightarrow> memcpy_from b pos (length xs) = Inr xs"
  by (auto simp: field_at_def memcpy_from_def intro: nth_equalityI)

definition apart :: "nat \<times> u8 list \<Rightarrow> nat \<times> u8 list \<Rightarrow> bool" where
  "apart f g \<longleftrightarrow> fst f + length (snd f) \<le> fst g \<or> fst g + length (snd g) \<le> fst f"

fun put_all :: "u8 list \<Rightarrow> (nat \<times> u8 list) list \<Rightarrow> u8 list c_result" where
  "put_all b [] = Inr b"
| "put_all b (f # fs) = c_bind (memcpy_at b (fst f) (snd f)) (\<lambda>b. put_all b fs)"

fun all_apart :: "(nat \<times> u8 list) list \<Rightarrow> bool" where
  "all_apart [] = True"
| "all_apart (f # fs) = ((\<forall>g \<in> set fs. apart f g) \<and> all_apart fs)"

lemma memcpy_at_field:
  assumes "fst f + length (snd f) \<le> length b"
  obtains b' where "memcpy_at b (fst f) (snd f) = Inr b'" and "length b' = length b" and "field_at b' f"
    and "\<And>g. apart f g \<Longrightarrow> field_at b g \<Longrightarrow> field_at b' g"
proof
  let ?b = "take (fst f) b @ snd f @ drop (fst f + length (snd f)) b"
  show "memcpy_at b (fst f) (snd f) = Inr ?b" using assms by (simp add: memcpy_at_def)
  show len: "length ?b = length b" using assms by simp
  show "field_at ?b f" using assms by (simp add: field_at_def nth_append)
  fix g assume "apart f g" "field_at b g"
  then show "field_at ?b g" using assms unfolding field_at_def len by (auto simp: apart_def nth_append)
qed

lemma put_all_fields:
  "all_apart fs \<Longrightarrow> \<forall>f \<in> set fs. fst f + length (snd f) \<le> length b \<Longrightarrow>
   \<exists>b'. put_all b fs = Inr b' \<and> length b' = length b \<and> (\<forall>f \<in> set fs. field_at b' f) \<and>
     (\<forall>g. (\<forall>f \<in> set fs. apart f g) \<longrightarrow> field_at b g \<longrightarrow> field_at b' g)"
proof (induction fs arbitrary: b)
  case (Cons f fs)
  obtain b1 where b1: "memcpy_at b (fst f) (snd f) = Inr b1" "length b1 = length b" "field_at b1 f"
      "\<And>g. apart f g \<Longrightarrow> field_at b g \<Longrightarrow> field_at b1 g"
    using memcpy_at_field [of f b] Cons.prems(2) by auto
  obtain b2 where b2: "put_all b1 fs = Inr b2" "length b2 = length b1" "\<forall>f \<in> set fs. field_at b2 f"
      "\<forall>g. (\<forall>f \<in> set fs. apart f g) \<longrightarrow> field_at b1 g \<longrightarrow> field_at b2 g"
    using Cons.IH [of b1] Cons.prems b1(2) by auto
  have sym: "\<forall>g \<in> set fs. apart g f" using Cons.prems(1) by (auto simp: apart_def)
  have "field_at b2 f" using b2(4) sym b1(3) by blast
  then show ?case using b1 b2 by (intro exI [of _ b2]) simp
qed simp

lemma field_at_take: "field_at b f \<Longrightarrow> fst f + length (snd f) \<le> n \<Longrightarrow> field_at (take n b @ rest) f"
  by (auto simp: field_at_def nth_append)

lemma get_field_at:
  "field_at b (pos, host_bytes le w) \<Longrightarrow> 8 dvd LENGTH('w) \<Longrightarrow> get_field le pos b = Inr w" for w :: "'w::len word"
  using field_at_bytes [of b pos "host_bytes le w"] by (simp add: get_field_def word_size host_roundtrip)

lemma get_be_at:
  "field_at b (pos, host_bytes False w) \<Longrightarrow> 8 dvd LENGTH('w) \<Longrightarrow> get_be le pos b = Inr w" for w :: "'w::len word"
  using field_at_bytes [of b pos "host_bytes False w"] by (simp add: get_be_def get_field_def word_size betoh_value)

section \<open>The fields of the requests\<close>

lemma put_all_append: "put_all b (fs @ gs) = c_bind (put_all b fs) (\<lambda>b. put_all b gs)"
  by (induction fs arbitrary: b) (simp_all add: c_bind_assoc)

lemma all_apart_append:
  "all_apart (fs @ gs) \<longleftrightarrow> all_apart fs \<and> all_apart gs \<and> (\<forall>f \<in> set fs. \<forall>g \<in> set gs. apart f g)"
  by (induction fs) auto

definition interval_fields :: "nat \<Rightarrow> interval_t list \<Rightarrow> nat \<Rightarrow> (nat \<times> u8 list) list" where
  "interval_fields base ivs n = concat (map (\<lambda>i. [(base + at_interval i, host_bytes False (iv_start (ivs ! i))),
     (base + at_interval i + 4, host_bytes False (iv_end (ivs ! i)))]) [0..<n])"

definition start_fields :: "bool \<Rightarrow> nat \<Rightarrow> dtp_meta_req_t \<Rightarrow> u32 \<Rightarrow> u64 \<Rightarrow> u32 \<Rightarrow> (nat \<times> u8 list) list" where
  "start_fields le base req sid va sz =
     [(base + at_vaddr, host_bytes False va), (base + at_size, host_bytes False sz),
      (base + at_throughput, host_bytes False (throughput req)), (base + at_mtu, host_bytes False (mtu req)),
      (base + at_session_id, host_bytes False sid),
      (base + at_keep_alive, host_bytes le (keep_alive_to_wire le (keep_alive_interval req))),
      (base + at_nof_intervals, host_bytes le (clamped_intervals (nof_intervals req)))] @
     interval_fields base (intervals req) (unat (clamped_intervals (nof_intervals req)))"

definition request_fields :: "vmem_hdr \<Rightarrow> int \<Rightarrow> u8 \<Rightarrow> u8 list \<Rightarrow> (nat \<times> u8 list) list" where
  "request_fields H version kind buf = [(0, hd_store H version (take (hd_size H) buf)), (hd_size H, [kind])]"

lemma interval_fields_Suc:
  "interval_fields base ivs (Suc n) = interval_fields base ivs n @
     [(base + at_interval n, host_bytes False (iv_start (ivs ! n))),
      (base + at_interval n + 4, host_bytes False (iv_end (ivs ! n)))]"
  by (simp add: interval_fields_def)

lemma interval_fields_range:
  "f \<in> set (interval_fields base ivs n) \<Longrightarrow> base + 32 \<le> fst f \<and> fst f + length (snd f) \<le> base + 32 + 8 * n"
  by (auto simp: interval_fields_def word_size)

lemma interval_fields_apart: "all_apart (interval_fields base ivs n)"
proof (induction n)
  case (Suc n)
  with interval_fields_range [of _ base ivs n] show ?case
    unfolding interval_fields_Suc all_apart_append by (fastforce simp: apart_def word_size)
qed (simp add: interval_fields_def)

lemma put_be: "8 dvd LENGTH('w) \<Longrightarrow> put_field le pos (htobe le w) = (\<lambda>b. memcpy_at b pos (host_bytes False w))"
  for w :: "'w::len word"
  by (simp add: put_field_def htobe_bytes fun_eq_iff)

lemma put_intervals:
  "n \<le> length ivs \<Longrightarrow> fold_c (put_interval le base ivs) b [0..<n] = put_all b (interval_fields base ivs n)"
proof (induction n)
  case (Suc n)
  then show ?case
    by (simp add: interval_fields_Suc put_all_append fold_c_append put_interval_def put_be
        c_bind_assoc [symmetric])
qed (simp add: interval_fields_def)

lemma clamped_le: "unat (clamped_intervals n) \<le> 8"
  by (auto simp: clamped_intervals_def word_less_nat_alt)

lemma put_start_req_fields:
  assumes "8 \<le> length (intervals req)"
  shows "put_start_req le base req sid va sz b = put_all b (start_fields le base req sid va sz)"
  using put_intervals [of "unat (clamped_intervals (nof_intervals req))" "intervals req"]
    clamped_le [of "nof_intervals req"] assms
  by (simp add: put_start_req_def start_fields_def put_be) (simp add: put_field_def)

lemma put_request_fields: "put_request H version kind buf = put_all buf (request_fields H version kind buf)"
  by (simp add: put_request_def request_fields_def)

text \<open>What the code relies on of the header: assigning its members changes bytes of the header only.\<close>

definition header_ok :: "vmem_hdr \<Rightarrow> bool" where
  "header_ok H \<longleftrightarrow> (\<forall>v bs. length bs = hd_size H \<longrightarrow> length (hd_store H v bs) = hd_size H)"

lemma request_fields_apart:
  assumes "header_ok H" and "hd_size H \<le> length buf"
  shows "all_apart (request_fields H version kind buf)"
    and "f \<in> set (request_fields H version kind buf) \<Longrightarrow> fst f + length (snd f) \<le> body H"
  using assms by (auto simp: request_fields_def apart_def header_ok_def body_def)

lemma start_fields_range:
  "f \<in> set (start_fields le base req sid va sz) \<Longrightarrow>
   base + 4 \<le> fst f \<and> fst f + length (snd f) \<le> base + sizeof_start_req"
  using interval_fields_range [of f base "intervals req"] clamped_le [of "nof_intervals req"]
  by (fastforce simp: start_fields_def sizeof_start_req_def word_size)

lemma start_fields_apart: "all_apart (start_fields le base req sid va sz)"
proof -
  have "apart f g" if "g \<in> set (interval_fields base (intervals req) n)" "fst f + length (snd f) \<le> base + 32" for f g n
    using interval_fields_range [OF that(1)] that(2) by (simp add: apart_def)
  then show ?thesis unfolding start_fields_def all_apart_append
    by (intro conjI interval_fields_apart ballI) (simp add: apart_def word_size, auto simp: word_size)
qed

text \<open>A complete start request, as it lies in the packet.\<close>

lemma start_packet:
  assumes "header_ok H" and "body H + sizeof_start_req \<le> length buf" and "8 \<le> length (intervals req)"
  obtains b where "c_bind (put_request H version kind buf) (put_start_req le (body H) req sid va sz) = Inr b"
    and "length b = length buf" and "field_at b (hd_size H, [kind])"
    and "\<forall>f \<in> set (start_fields le (body H) req sid va sz). field_at b f"
proof -
  let ?fs = "request_fields H version kind buf" and ?gs = "start_fields le (body H) req sid va sz"
  have len: "hd_size H \<le> length buf" using assms(2) by (simp add: body_def)
  have 1: "c_bind (put_request H version kind buf) (put_start_req le (body H) req sid va sz) = put_all buf (?fs @ ?gs)"
    unfolding put_request_fields put_all_append using put_start_req_fields [OF assms(3)] by presburger
  have 2: "all_apart (?fs @ ?gs)"
    unfolding all_apart_append using request_fields_apart [OF assms(1) len] start_fields_apart start_fields_range
    by (fastforce simp: apart_def)
  have 3: "\<forall>f \<in> set (?fs @ ?gs). fst f + length (snd f) \<le> length buf"
    using request_fields_apart(2) [OF assms(1) len] start_fields_range assms(2) by fastforce
  have k: "(hd_size H, [kind]) \<in> set (?fs @ ?gs)" by (simp add: request_fields_def)
  from put_all_fields [OF 2 3] obtain b where "put_all buf (?fs @ ?gs) = Inr b" "length b = length buf"
      "\<forall>f \<in> set (?fs @ ?gs). field_at b f" by blast
  with 1 k show ?thesis by (intro that [of b]) (simp_all del: set_append, auto)
qed

section \<open>Reading a request\<close>

lemma u8_bytes [simp]: "host_bytes le (k::u8) = [k]" "host_value le [k] = k"
  by (simp_all add: host_bytes_def host_value_def word_size unat_lt_u8 Let_def)

lemma get_byte: "pos < length b \<Longrightarrow> get_field le pos b = Inr (b ! pos :: u8)"
  using get_field_at [of b pos le "b ! pos"] by (simp add: field_at_def)

lemma get_be_ok: "pos + LENGTH('w) div 8 \<le> length b \<Longrightarrow> \<exists>w :: 'w::len word. get_be le pos b = Inr w"
  by (simp add: get_be_def get_field_def memcpy_from_def)

lemma get_be_fails: "length b < pos + LENGTH('w) div 8 \<Longrightarrow> get_be le pos b = (Inl Out_Of_Bounds :: 'w::len word c_result)"
  by (simp add: get_be_def get_field_def memcpy_from_def)

lemma interval_eta: "\<lparr>iv_start = iv_start x, iv_end = iv_end x\<rparr> = x"
  by (cases x) simp

lemma get_intervals:
  assumes "n \<le> length ivs" and "n \<le> length ivs0" and "\<forall>f \<in> set (interval_fields base ivs n). field_at data f"
  shows "fold_c (get_interval le base data) ivs0 [0..<n] = Inr (take n ivs @ drop n ivs0)"
  using assms
proof (induction n)
  case (Suc n)
  then have *: "fold_c (get_interval le base data) ivs0 [0..<n] = Inr (take n ivs @ drop n ivs0)"
      "get_be le (base + at_interval n) data = Inr (iv_start (ivs ! n))"
      "get_be le (base + at_interval n + 4) data = Inr (iv_end (ivs ! n))"
    by (auto simp: interval_fields_Suc intro: get_be_at)
  have "(take n ivs @ drop n ivs0)[n := ivs ! n] = take (Suc n) ivs @ drop (Suc n) ivs0"
    using Suc.prems by (simp add: list_update_append take_Suc_conv_app_nth Cons_nth_drop_Suc [symmetric])
  then have "get_interval le base data (take n ivs @ drop n ivs0) n = Inr (take (Suc n) ivs @ drop (Suc n) ivs0)"
    unfolding get_interval_def *(2,3) using Suc.prems by (simp add: interval_eta)
  with *(1) show ?case by (simp add: fold_c_append)
qed simp

text \<open>The intervals of any request: up to eight are read, the ninth is outside the array.\<close>

lemma get_intervals_bound:
  assumes "length ivs0 = 8" and "base + sizeof_start_req \<le> length data"
  shows "n \<le> 8 \<Longrightarrow> \<exists>ivs. fold_c (get_interval le base data) ivs0 [0..<n] = Inr ivs \<and> length ivs = 8"
    and "8 < n \<Longrightarrow> fold_c (get_interval le base data) ivs0 [0..<n] = Inl Out_Of_Bounds"
proof -
  show ok: "\<exists>ivs. fold_c (get_interval le base data) ivs0 [0..<n] = Inr ivs \<and> length ivs = 8" if "n \<le> 8" for n
    using that
  proof (induction n)
    case (Suc n)
    obtain s e :: u32 where "get_be le (base + at_interval n) data = Inr s" "get_be le (base + at_interval n + 4) data = Inr e"
      using get_be_ok [where 'w = 32, of "base + at_interval n" data le] get_be_ok [where 'w = 32, of "base + at_interval n + 4" data le]
        Suc.prems assms(2) by (auto simp: sizeof_start_req_def)
    with Suc show ?case by (auto simp: fold_c_append get_interval_def)
  qed (use assms(1) in simp)
  have nine: "get_interval le base data ivs 8 = Inl Out_Of_Bounds" if "length ivs = 8" for ivs
    using that get_be_fails [where 'w = 32, of data "base + at_interval 8" le]
      get_be_fails [where 'w = 32, of data "base + at_interval 8 + 4" le]
      get_be_ok [where 'w = 32, of "base + at_interval 8" data le] get_be_ok [where 'w = 32, of "base + at_interval 8 + 4" data le]
    by (auto simp: get_interval_def not_le c_bind_def split: sum.splits) (metis not_le Inl_inject sum.distinct(1))+
  assume "8 < n"
  then have "[0..<n] = [0..<8] @ 8 # [9..<n]"
    using upt_add_eq_append [of 0 8 "n - 8"] by (simp add: upt_conv_Cons)
  then show "fold_c (get_interval le base data) ivs0 [0..<n] = Inl Out_Of_Bounds"
    using ok [of 8] nine by (auto simp: fold_c_append)
qed

text \<open>The message of a start request whose fields lie in the packet.\<close>

definition message_of :: "dtp_msg_t \<Rightarrow> u16 \<Rightarrow> u16 \<Rightarrow> dtp_meta_req_t \<Rightarrow> u32 \<Rightarrow> u64 \<Rightarrow> u32 \<Rightarrow> u8 \<Rightarrow> u16 \<Rightarrow> dtp_msg_t" where
  "message_of msg0 dst src req sid va sz pid ka =
     (let n = clamped_intervals (nof_intervals req) in
      msg0\<lparr>msg := 1, msg_srv_node := dst, msg_dest_port := src, vaddr := va, msg_size := sz,
       msg_meta := (msg_meta msg0)\<lparr>mtu := mtu req, throughput := throughput req, session_id := sid, payload_id := pid,
         nof_intervals := n, keep_alive_interval := ka,
         intervals := take (unat n) (intervals req) @ drop (unat n) (intervals (msg_meta msg0))\<rparr>\<rparr>)"

lemma keep_alive_bytes:
  "keep_alive_from_wire les (host_value les (host_bytes lec (keep_alive_to_wire lec k))) = (if lec \<or> les then 0 else k)"
proof (cases lec)
  case True
  have z: "keep_alive_to_wire True k = 0" "keep_alive_from_wire les 0 = 0"
    by (simp add: keep_alive_to_wire_def htobe32_def bswap32_low) (simp add: keep_alive_from_wire_def be32toh_def bswap32_def)
  have "host_bytes lec (0::u16) = [0, 0]" by (simp add: host_bytes_def word_size Let_def numeral_2_eq_2)
  then show ?thesis using True z by (cases les) (simp_all add: host_value_def)
qed (auto simp: keep_alive_to_wire_def keep_alive_from_wire_def htobe32_def be32toh_def bswap32_low ucast_u16_u32_u16 host_roundtrip)

lemma start_message_fields:
  assumes "\<forall>f \<in> set (start_fields lec base req sid va sz). field_at data f" and "base + sizeof_start_req \<le> length data"
    and "length (intervals req) = 8" and "length (intervals (msg_meta msg0)) = 8"
  shows "start_message les base msg0 dst src data = Inr (message_of msg0 dst src req sid va sz (data ! (base + at_payload_id))
    (if lec \<or> les then 0 else keep_alive_interval req))"
proof -
  let ?n = "clamped_intervals (nof_intervals req)"
  have f: "field_at data (base + at_vaddr, host_bytes False va)" "field_at data (base + at_size, host_bytes False sz)"
      "field_at data (base + at_throughput, host_bytes False (throughput req))"
      "field_at data (base + at_mtu, host_bytes False (mtu req))" "field_at data (base + at_session_id, host_bytes False sid)"
      "field_at data (base + at_keep_alive, host_bytes lec (keep_alive_to_wire lec (keep_alive_interval req)))"
      "field_at data (base + at_nof_intervals, host_bytes les ?n)"
      "\<forall>f \<in> set (interval_fields base (intervals req) (unat ?n)). field_at data f"
    using assms(1) by (simp_all add: start_fields_def)
  have pid: "get_field les (base + at_payload_id) data = Inr (data ! (base + at_payload_id))"
    using assms(2) by (simp add: get_byte sizeof_start_req_def)
  have ka: "get_field les (base + at_keep_alive) data =
      Inr (host_value les (host_bytes lec (keep_alive_to_wire lec (keep_alive_interval req))) :: u16)"
    using field_at_bytes [OF f(6)] by (simp add: get_field_def word_size)
  have ivs: "fold_c (get_interval les base data) (intervals (msg_meta msg0)) [0..<unat ?n] =
      Inr (take (unat ?n) (intervals req) @ drop (unat ?n) (intervals (msg_meta msg0)))"
    using get_intervals [OF _ _ f(8)] clamped_le [of "nof_intervals req"] assms(3,4) by simp
  show ?thesis
    unfolding start_message_def get_be_at [OF f(1), simplified] get_be_at [OF f(2), simplified] get_be_at [OF f(3), simplified]
      get_be_at [OF f(4), simplified] get_be_at [OF f(5), simplified] pid ka get_field_at [OF f(7), simplified] c_bind_Inr ivs
    by (simp add: message_of_def Let_def keep_alive_bytes)
qed

section \<open>Properties\<close>

text \<open>The objects of the examples: a header of two bytes, a client with a connection, a server with an empty queue.\<close>

definition example_hdr :: vmem_hdr where
  "example_hdr = \<lparr>hd_size = 2, hd_store = (\<lambda>v bs. [of_int v, 0x80])\<rparr>"

definition vmem_client :: vmem_env where
  "vmem_client = \<lparr>ve_conn = Some 4, ve_buffer = Some (replicate 256 170), ve_reply = None\<rparr>"

definition vmem_session :: "unit dtp_t" where
  "vmem_session = zero_session\<lparr>request_meta := whole_request 1000 1032\<rparr>"

definition vmem_server :: "dtp_msg_t list dtp_vmem_context_t" where
  "vmem_server = initial_vmem_context [] (sv_ctx idle_server)"

lemma example_facts:
  "header_ok example_hdr" "ve_conn vmem_client = Some 4" "ve_buffer vmem_client = Some (replicate 256 170)"
  "body example_hdr = 3" "length (intervals (request_meta vmem_session)) = 8" "length (intervals (msg_meta memory_message)) = 8"
  by (simp_all add: header_ok_def example_hdr_def vmem_client_def body_def vmem_session_def whole_request_def memory_message_def)

text \<open>A request of another type with the fields \<open>fs\<close> behind its header, and how the handler sees its type.\<close>

lemma control_packet:
  assumes "header_ok H" and "body H + n \<le> length buf" and "all_apart fs"
    and "\<forall>f \<in> set fs. body H \<le> fst f \<and> fst f + length (snd f) \<le> body H + n"
  obtains b where "put_all buf (request_fields H version kind buf @ fs) = Inr b"
    and "\<And>le rest. get_field le (hd_size H) (take (body H + n) b @ rest) = Inr kind"
    and "\<And>f rest. f \<in> set fs \<Longrightarrow> field_at (take (body H + n) b @ rest) f"
proof -
  let ?gs = "request_fields H version kind buf"
  have len: "hd_size H \<le> length buf" using assms(2) by (simp add: body_def)
  note h = request_fields_apart [OF assms(1) len]
  have 1: "all_apart (?gs @ fs)" unfolding all_apart_append using h assms(3,4) by (fastforce simp: apart_def)
  have 2: "\<forall>f \<in> set (?gs @ fs). fst f + length (snd f) \<le> length buf" using h(2) assms(2,4) by fastforce
  have k: "(hd_size H, [kind]) \<in> set ?gs" by (simp add: request_fields_def)
  from put_all_fields [OF 1 2] obtain b where b: "put_all buf (?gs @ fs) = Inr b" "\<forall>f \<in> set (?gs @ fs). field_at b f" by blast
  show ?thesis
  proof (rule that [OF b(1)])
    fix le rest
    have "field_at (take (body H + n) b @ rest) (hd_size H, host_bytes le kind)"
      using field_at_take [of b "(hd_size H, [kind])" "body H + n"] b(2) k by (simp add: body_def)
    then show "get_field le (hd_size H) (take (body H + n) b @ rest) = Inr kind" by (rule get_field_at) simp
  next
    fix f rest assume "f \<in> set fs"
    then show "field_at (take (body H + n) b @ rest) f" using field_at_take [of b f "body H + n"] b(2) assms(4) by simp
  qed
qed

lemma plain_packet:
  assumes "header_ok H" and "body H \<le> length buf"
  shows "\<exists>b. put_request H version kind buf = Inr b \<and>
    (\<forall>le rest. get_field le (hd_size H) (take (body H) b @ rest) = Inr kind)"
  using assms control_packet [of H 0 buf "[]" version kind] by (simp add: put_request_fields) metis

text \<open>The request as the handler sees it.\<close>

lemma start_request_posted:
  assumes "header_ok H" and "ve_conn env = Some c" and "ve_buffer env = Some buf"
    and "body H + sizeof_start_req \<le> length buf" and "length (intervals (request_meta s)) = 8"
    and "length (intervals (msg_meta msg0)) = 8"
  shows "\<exists>bs pid. vmem_request_dtp_start_download lec H env s node sid tmo version rdp va sz =
      Inr (0, [Csp_Connect node tmo (rdp \<noteq> 0), Csp_Send c bs, Csp_Close c]) \<and> length bs = body H + sizeof_start_req \<and>
    (\<forall>rest. vmem_dtp_request_handler les H mq_send msg0 now buffer dst src (bs @ rest) vc =
      Inr (vc\<lparr>vc_session_id := sid, vc_transfer := (vc_transfer vc)\<lparr>client_alive_ts := now\<rparr>,
        vc_queue := mq_send (vc_queue vc) (message_of msg0 dst src (request_meta s) sid va sz pid
          (if lec \<or> les then 0 else keep_alive_interval (request_meta s)))\<rparr>, None))"
proof -
  let ?n = "body H + sizeof_start_req" and ?req = "request_meta s"
  have len8: "8 \<le> length (intervals ?req)" using assms(5) by simp
  obtain b where b: "c_bind (put_request H version DTP_REQUEST_START_TRANSFER buf) (put_start_req lec (body H) ?req sid va sz) = Inr b"
      "length b = length buf" "field_at b (hd_size H, [DTP_REQUEST_START_TRANSFER])"
      "\<forall>f \<in> set (start_fields lec (body H) ?req sid va sz). field_at b f"
    by (rule start_packet [OF assms(1,4) len8])
  have sent: "vmem_request_dtp_start_download lec H env s node sid tmo version rdp va sz =
      Inr (0, [Csp_Connect node tmo (rdp \<noteq> 0), Csp_Send c (take ?n b), Csp_Close c])"
    using b(1) assms(2,3) by (simp add: vmem_request_dtp_start_download_def with_packet_def c_bind_assoc [symmetric])
  have "vmem_dtp_request_handler les H mq_send msg0 now buffer dst src (take ?n b @ rest) vc =
      Inr (vc\<lparr>vc_session_id := sid, vc_transfer := (vc_transfer vc)\<lparr>client_alive_ts := now\<rparr>,
        vc_queue := mq_send (vc_queue vc) (message_of msg0 dst src ?req sid va sz (take ?n b ! (body H + at_payload_id))
          (if lec \<or> les then 0 else keep_alive_interval ?req))\<rparr>, None)" for rest
  proof -
    let ?d = "take ?n b @ rest"
    have "field_at ?d (hd_size H, host_bytes les DTP_REQUEST_START_TRANSFER)"
      using field_at_take [OF b(3), of ?n] by (simp add: body_def sizeof_start_req_def)
    then have k: "get_field les (hd_size H) ?d = Inr DTP_REQUEST_START_TRANSFER" by (rule get_field_at) simp
    have "\<forall>f \<in> set (start_fields lec (body H) ?req sid va sz). field_at ?d f"
      using b(4) field_at_take start_fields_range by blast
    then have m: "start_message les (body H) msg0 dst src ?d = Inr (message_of msg0 dst src ?req sid va sz (?d ! (body H + at_payload_id))
        (if lec \<or> les then 0 else keep_alive_interval ?req))"
      using start_message_fields [OF _ _ assms(5,6)] b(2) assms(4) by simp
    have "?d ! (body H + at_payload_id) = take ?n b ! (body H + at_payload_id)"
      using b(2) assms(4) by (simp add: nth_append sizeof_start_req_def)
    then show ?thesis unfolding vmem_dtp_request_handler_def k c_bind_Inr m by (simp add: message_of_def Let_def)
  qed
  with sent b(2) assms(4) show ?thesis by (intro exI [of _ "take ?n b"] exI conjI allI) simp_all
qed

text \<open>
  C10. A start request reaches the sending task as it was meant: the client sends one packet and closes
  its connection, and the handler that gets this packet - behind it whatever else the receive buffer
  holds - posts one message with the address, size, throughput, MTU, session id and intervals of the
  request, remembers the session id and the time, and leaves everything else alone. This holds for any previous
  content of the packet buffer and any byte order of the two hosts; more than eight intervals are cut to eight; the
  keep-alive interval only arrives when both hosts are big-endian, and the payload id of the message is whatever
  the buffer held, since the client does not write it (memory transfers do not use it).\<close>

theorem start_request_received:
  assumes "header_ok H" and "ve_conn env = Some c" and "ve_buffer env = Some buf"
    and "body H + sizeof_start_req \<le> length buf" and "length (intervals (request_meta s)) = 8"
    and "length (intervals (msg_meta msg0)) = 8"
  shows "\<exists>bs pid. vmem_request_dtp_start_download lec H env s node sid tmo version rdp va sz =
      Inr (0, [Csp_Connect node tmo (rdp \<noteq> 0), Csp_Send c bs, Csp_Close c]) \<and> length bs = body H + sizeof_start_req \<and>
    (\<forall>rest. vmem_dtp_request_handler les H mq_send msg0 now buffer dst src (bs @ rest) vc =
      Inr (vc\<lparr>vc_session_id := sid, vc_transfer := (vc_transfer vc)\<lparr>client_alive_ts := now\<rparr>,
        vc_queue := mq_send (vc_queue vc) (message_of msg0 dst src (request_meta s) sid va sz pid
          (if lec \<or> les then 0 else keep_alive_interval (request_meta s)))\<rparr>, None))"
  by (rule start_request_posted [OF assms])

theorem start_request_received_witness:
  "\<exists>bs vc' m. vmem_request_dtp_start_download True example_hdr vmem_client vmem_session 9 77 1000 2 1 0x2000 5000 =
      Inr (0, [Csp_Connect 9 1000 True, Csp_Send 4 bs, Csp_Close 4]) \<and> length bs = 99 \<and>
    vmem_dtp_request_handler True example_hdr (\<lambda>q m. q @ [m]) memory_message 55 None 9 10 bs vmem_server = Inr (vc', None) \<and>
    vc_queue vc' = [m] \<and> vc_session_id vc' = 77 \<and> vaddr m = 0x2000 \<and> msg_size m = 5000 \<and> mtu (msg_meta m) = 1032"
proof -
  let ?m = "\<lambda>pid. message_of memory_message 9 10 (request_meta vmem_session) 77 0x2000 5000 pid 0"
  let ?vc = "\<lambda>pid. vmem_server\<lparr>vc_session_id := 77, vc_transfer := (vc_transfer vmem_server)\<lparr>client_alive_ts := 55\<rparr>, vc_queue := [?m pid]\<rparr>"
  have len: "body example_hdr + sizeof_start_req \<le> length (replicate 256 (170::u8))"
    by (simp add: example_facts sizeof_start_req_def)
  obtain bs pid where r: "vmem_request_dtp_start_download True example_hdr vmem_client vmem_session 9 77 1000 2 1 0x2000 5000 =
      Inr (0, [Csp_Connect 9 1000 (1 \<noteq> (0::int)), Csp_Send 4 bs, Csp_Close 4])" "length bs = body example_hdr + sizeof_start_req"
      "\<forall>rest. vmem_dtp_request_handler True example_hdr (\<lambda>q m. q @ [m]) memory_message 55 None 9 10 (bs @ rest) vmem_server =
        Inr (vmem_server\<lparr>vc_session_id := 77, vc_transfer := (vc_transfer vmem_server)\<lparr>client_alive_ts := 55\<rparr>,
          vc_queue := vc_queue vmem_server @ [message_of memory_message 9 10 (request_meta vmem_session) 77 0x2000 5000 pid
            (if True \<or> True then 0 else keep_alive_interval (request_meta vmem_session))]\<rparr>, None)"
    using start_request_received [OF example_facts(1-3) len example_facts(5,6)] by blast
  have "vc_queue vmem_server = []" "mtu (request_meta vmem_session) = 1032"
    by (simp_all add: vmem_server_def initial_vmem_context_def vmem_session_def whole_request_def)
  with r(1,2) r(3) [rule_format, of "[]"]
  have "vmem_request_dtp_start_download True example_hdr vmem_client vmem_session 9 77 1000 2 1 0x2000 5000 =
      Inr (0, [Csp_Connect 9 1000 True, Csp_Send 4 bs, Csp_Close 4]) \<and> length bs = 99 \<and>
    vmem_dtp_request_handler True example_hdr (\<lambda>q m. q @ [m]) memory_message 55 None 9 10 bs vmem_server = Inr (?vc pid, None) \<and>
    vc_queue (?vc pid) = [?m pid] \<and> vc_session_id (?vc pid) = 77 \<and> vaddr (?m pid) = 0x2000 \<and> msg_size (?m pid) = 5000 \<and> mtu (msg_meta (?m pid)) = 1032"
    by (simp add: example_facts sizeof_start_req_def message_of_def Let_def)
  then show ?thesis by blast
qed

text \<open>A start request on a packet that is long enough: what the announced number of intervals decides.\<close>

lemma start_request_cases:
  assumes "body H + sizeof_start_req \<le> length data" and "data ! hd_size H = DTP_REQUEST_START_TRANSFER"
    and "length (intervals (msg_meta msg0)) = 8"
  shows "(data ! (body H + 20) \<le> 8 \<longrightarrow>
      (\<exists>vc' m. vmem_dtp_request_handler le H mq_send msg0 now buffer dst src data vc = Inr (vc', None) \<and>
         vc_queue vc' = mq_send (vc_queue vc) m \<and> msg m = 1 \<and> length (intervals (msg_meta m)) = 8 \<and>
         nof_intervals (msg_meta m) = data ! (body H + 20))) \<and>
    (8 < data ! (body H + 20) \<longrightarrow>
      vmem_dtp_request_handler le H mq_send msg0 now buffer dst src data vc = Inl Out_Of_Bounds)"
proof -
  let ?n = "data ! (body H + 20)"
  have k: "get_field le (hd_size H) data = Inr DTP_REQUEST_START_TRANSFER"
    using get_byte [of "hd_size H" data le] assms(1,2) by (simp add: body_def)
  have nof: "get_field le (body H + at_nof_intervals) data = Inr ?n"
    and pid: "get_field le (body H + at_payload_id) data = Inr (data ! (body H + at_payload_id))"
    using assms(1) by (simp_all add: get_byte sizeof_start_req_def)
  have ka: "get_field le (body H + at_keep_alive) data = Inr (host_value le (take 2 (drop (body H + at_keep_alive) data)) :: u16)"
    using assms(1) by (simp add: get_field_def memcpy_from_def sizeof_start_req_def)
  obtain m :: u16 and thr sid sz :: u32 and va :: u64 where r: "get_be le (body H + at_mtu) data = Inr m"
      "get_be le (body H + at_throughput) data = Inr thr" "get_be le (body H + at_session_id) data = Inr sid"
      "get_be le (body H + at_vaddr) data = Inr va" "get_be le (body H + at_size) data = Inr sz"
    using get_be_ok [where 'w = 16, of "body H + at_mtu" data le] get_be_ok [where 'w = 32, of "body H + at_throughput" data le]
      get_be_ok [where 'w = 32, of "body H + at_session_id" data le] get_be_ok [where 'w = 64, of "body H + at_vaddr" data le]
      get_be_ok [where 'w = 32, of "body H + at_size" data le] assms(1) by (auto simp: sizeof_start_req_def)
  note run = vmem_dtp_request_handler_def k c_bind_Inr start_message_def r nof pid ka
  show ?thesis
  proof (intro conjI impI)
    assume "?n \<le> 8"
    then obtain ivs where "fold_c (get_interval le (body H) data) (intervals (msg_meta msg0)) [0..<unat ?n] = Inr ivs" "length ivs = 8"
      using get_intervals_bound(1) [OF assms(3,1), of "unat ?n" le] by (auto simp: word_le_nat_alt)
    then show "\<exists>vc' m. vmem_dtp_request_handler le H mq_send msg0 now buffer dst src data vc = Inr (vc', None) \<and>
         vc_queue vc' = mq_send (vc_queue vc) m \<and> msg m = 1 \<and> length (intervals (msg_meta m)) = 8 \<and>
         nof_intervals (msg_meta m) = ?n" unfolding run by auto
  next
    assume "8 < ?n"
    then have "fold_c (get_interval le (body H) data) (intervals (msg_meta msg0)) [0..<unat ?n] = Inl Out_Of_Bounds"
      using get_intervals_bound(2) [OF assms(3,1), of "unat ?n" le] by (simp add: word_less_nat_alt)
    then show "vmem_dtp_request_handler le H mq_send msg0 now buffer dst src data vc = Inl Out_Of_Bounds"
      unfolding run by simp
  qed
qed

text \<open>
  C25. The handler trusts the number of intervals of a start request: on a packet that is long enough
  it returns, having posted a message with eight array elements and at most eight intervals, if and only if the request
  announces at most eight; with any higher number it accesses memory outside the interval array.\<close>

theorem start_request_bounds:
  assumes "body H + sizeof_start_req \<le> length data" and "data ! hd_size H = DTP_REQUEST_START_TRANSFER"
    and "length (intervals (msg_meta msg0)) = 8"
  shows "(data ! (body H + 20) \<le> 8 \<longrightarrow>
      (\<exists>vc' m. vmem_dtp_request_handler le H mq_send msg0 now buffer dst src data vc = Inr (vc', None) \<and>
         vc_queue vc' = mq_send (vc_queue vc) m \<and> msg m = 1 \<and> length (intervals (msg_meta m)) = 8 \<and>
         nof_intervals (msg_meta m) = data ! (body H + 20))) \<and>
    (8 < data ! (body H + 20) \<longrightarrow>
      vmem_dtp_request_handler le H mq_send msg0 now buffer dst src data vc = Inl Out_Of_Bounds)"
  by (rule start_request_cases [OF assms])

theorem start_request_bounds_witness:
  "vmem_dtp_request_handler True example_hdr (\<lambda>q m. q @ [m]) memory_message 55 None 9 10
     (0 # 0x80 # 0 # replicate 20 0 @ 9 # replicate 80 0) vmem_server = Inl Out_Of_Bounds"
proof -
  let ?d = "0 # 0x80 # 0 # replicate 20 0 @ 9 # replicate 80 0 :: u8 list"
  have "?d ! (body example_hdr + 20) = 9" by (simp add: example_facts nth_append)
  moreover have "body example_hdr + sizeof_start_req \<le> length ?d" "?d ! hd_size example_hdr = DTP_REQUEST_START_TRANSFER"
    by (simp add: example_facts sizeof_start_req_def) (simp add: example_hdr_def DTP_REQUEST_START_TRANSFER_def)
  ultimately show ?thesis using start_request_bounds [of example_hdr ?d memory_message] example_facts(6) by simp
qed

text \<open>
  C28. A stop request ends the transfer on the other node, whichever session id it names: the running flag is
  cleared, the remembered id is reset. An alive request only renews the time of the last sign of life, and only
  while a transfer runs; the client's function reports failure although the request was sent.\<close>

theorem control_requests_handled:
  assumes "header_ok H" and "ve_conn env = Some c" and "ve_buffer env = Some buf" and "body H + sizeof_stop_req \<le> length buf"
  shows "(\<exists>bs. vmem_request_dtp_stop_download lec H env node sid tmo version rdp =
        Inr (0, [Csp_Connect node tmo (rdp \<noteq> 0), Csp_Send c bs, Csp_Close c]) \<and>
      (\<forall>rest. vmem_dtp_request_handler les H mq_send msg0 now buffer dst src (bs @ rest) vc =
        Inr (vc\<lparr>vc_session_id := 0, vc_transfer := (vc_transfer vc)\<lparr>keep_running := False\<rparr>\<rparr>, None))) \<and>
    (\<exists>bs. vmem_request_dtp_send_alive H env node =
        Inr (-1, [Csp_Connect node 100000 True, Csp_Send c bs, Csp_Close c]) \<and>
      (\<forall>rest. vmem_dtp_request_handler les H mq_send msg0 now buffer dst src (bs @ rest) vc =
        Inr (if keep_running (vc_transfer vc) then vc\<lparr>vc_transfer := (vc_transfer vc)\<lparr>client_alive_ts := now\<rparr>\<rparr> else vc, None)))"
proof (rule conjI)
  let ?f = "(body H, host_bytes False sid)"
  have f: "all_apart [?f]" "\<forall>f \<in> set [?f]. body H \<le> fst f \<and> fst f + length (snd f) \<le> body H + sizeof_stop_req"
    by (simp_all add: sizeof_stop_req_def word_size)
  obtain b where b: "put_all buf (request_fields H version DTP_REQUEST_STOP_TRANSFER buf @ [?f]) = Inr b"
      "\<And>rest. get_field les (hd_size H) (take (body H + sizeof_stop_req) b @ rest) = Inr DTP_REQUEST_STOP_TRANSFER"
      "\<And>rest. field_at (take (body H + sizeof_stop_req) b @ rest) ?f"
    using control_packet [OF assms(1,4) f, of version DTP_REQUEST_STOP_TRANSFER] by (metis list.set_intros(1))
  have "vmem_request_dtp_stop_download lec H env node sid tmo version rdp =
      Inr (0, [Csp_Connect node tmo (rdp \<noteq> 0), Csp_Send c (take (body H + sizeof_stop_req) b), Csp_Close c])"
    using b(1) assms(2,3)
    by (simp add: vmem_request_dtp_stop_download_def with_packet_def put_request_fields put_be put_all_append c_bind_assoc [symmetric])
  moreover have "get_be les (body H) (take (body H + sizeof_stop_req) b @ rest) = Inr sid" for rest
    using get_be_at [OF b(3)] by simp
  ultimately show "\<exists>bs. vmem_request_dtp_stop_download lec H env node sid tmo version rdp =
        Inr (0, [Csp_Connect node tmo (rdp \<noteq> 0), Csp_Send c bs, Csp_Close c]) \<and>
      (\<forall>rest. vmem_dtp_request_handler les H mq_send msg0 now buffer dst src (bs @ rest) vc =
        Inr (vc\<lparr>vc_session_id := 0, vc_transfer := (vc_transfer vc)\<lparr>keep_running := False\<rparr>\<rparr>, None))"
    by (intro exI [of _ "take (body H + sizeof_stop_req) b"])
       (simp add: vmem_dtp_request_handler_def b(2) DTP_REQUEST_START_TRANSFER_def DTP_REQUEST_STOP_TRANSFER_def del: append_take_drop_id)
next
  have len: "body H \<le> length buf" using assms(4) by simp
  obtain b where b: "put_request H 0 DTP_REQUEST_TRANSFER_ALIVE buf = Inr b"
      "\<forall>le rest. get_field le (hd_size H) (take (body H) b @ rest) = Inr DTP_REQUEST_TRANSFER_ALIVE"
    using plain_packet [OF assms(1) len] by blast
  have "vmem_request_dtp_send_alive H env node = Inr (-1, [Csp_Connect node 100000 True, Csp_Send c (take (body H) b), Csp_Close c])"
    using b(1) assms(2,3) by (simp add: vmem_request_dtp_send_alive_def with_packet_def)
  then show "\<exists>bs. vmem_request_dtp_send_alive H env node =
        Inr (-1, [Csp_Connect node 100000 True, Csp_Send c bs, Csp_Close c]) \<and>
      (\<forall>rest. vmem_dtp_request_handler les H mq_send msg0 now buffer dst src (bs @ rest) vc =
        Inr (if keep_running (vc_transfer vc) then vc\<lparr>vc_transfer := (vc_transfer vc)\<lparr>client_alive_ts := now\<rparr>\<rparr> else vc, None))"
    using b(2)
    by (intro exI [of _ "take (body H) b"])
       (simp add: vmem_dtp_request_handler_def DTP_REQUEST_START_TRANSFER_def DTP_REQUEST_STOP_TRANSFER_def
         DTP_REQUEST_TRANSFER_STATUS_def DTP_REQUEST_TRANSFER_ALIVE_def)
qed

theorem control_requests_handled_witness:
  "\<exists>bs vc'. vmem_request_dtp_stop_download False example_hdr vmem_client 9 77 1000 2 0 =
      Inr (0, [Csp_Connect 9 1000 False, Csp_Send 4 bs, Csp_Close 4]) \<and>
    vmem_dtp_request_handler True example_hdr (\<lambda>q m. q @ [m]) memory_message 55 None 9 10 (bs @ [1, 2, 3]) vmem_server = Inr (vc', None) \<and>
    \<not> keep_running (vc_transfer vc')"
proof -
  have len: "body example_hdr + sizeof_stop_req \<le> length (replicate 256 (170::u8))"
    by (simp add: example_facts sizeof_stop_req_def)
  from control_requests_handled [OF example_facts(1-3) len, of False 9 77 1000 2 0 True "\<lambda>q m. q @ [m]" memory_message 55 None 9 10 vmem_server]
  obtain bs where "vmem_request_dtp_stop_download False example_hdr vmem_client 9 77 1000 2 0 =
      Inr (0, [Csp_Connect 9 1000 (0 \<noteq> (0::int)), Csp_Send 4 bs, Csp_Close 4])"
      "\<forall>rest. vmem_dtp_request_handler True example_hdr (\<lambda>q m. q @ [m]) memory_message 55 None 9 10 (bs @ rest) vmem_server =
        Inr (vmem_server\<lparr>vc_session_id := 0, vc_transfer := (vc_transfer vmem_server)\<lparr>keep_running := False\<rparr>\<rparr>, None)"
    by blast
  then show ?thesis by (intro exI [of _ bs] exI conjI) (simp, rule allE, assumption, assumption, simp)
qed

text \<open>
  C27. A status request is answered with the remembered session id and whether a transfer runs, without any
  change of the server's state, and the client's function returns this: 1 for a running transfer, 0 otherwise.\<close>

theorem status_request_roundtrip:
  assumes "header_ok H" and "ve_conn env = Some c" and "ve_buffer env = Some buf" and "body H \<le> length buf"
    and "sizeof_status_resp \<le> length rbuf"
  shows "\<exists>bs r. (\<forall>rest. vmem_dtp_request_handler les H mq_send msg0 now (Some rbuf) dst src (bs @ rest) vc = Inr (vc, Some r)) \<and>
    length r = sizeof_status_resp \<and> get_be lec 0 r = Inr (vc_session_id vc) \<and>
    vmem_request_dtp_status lec H (env\<lparr>ve_reply := Some r\<rparr>) node tmo version rdp =
      Inr (if keep_running (vc_transfer vc) then 1 else 0,
        [Csp_Connect node tmo (rdp \<noteq> 0), Csp_Send c bs, Csp_Free r, Csp_Close c])"
proof -
  obtain b where b: "put_request H version DTP_REQUEST_TRANSFER_STATUS buf = Inr b"
      "\<forall>le rest. get_field le (hd_size H) (take (body H) b @ rest) = Inr DTP_REQUEST_TRANSFER_STATUS"
    using plain_packet [OF assms(1), OF assms(4)] by blast
  define st :: u32 where "st = (if keep_running (vc_transfer vc) then 1 else 0)"
  let ?fs = "[(0, host_bytes False (vc_session_id vc)), (4, host_bytes False st)]"
  have "all_apart ?fs" "\<forall>f \<in> set ?fs. fst f + length (snd f) \<le> length rbuf"
    using assms(5) by (simp_all add: apart_def word_size sizeof_status_resp_def)
  from put_all_fields [OF this] obtain r where r: "put_all rbuf ?fs = Inr r" "length r = length rbuf"
      "field_at r (0, host_bytes False (vc_session_id vc))" "field_at r (4, host_bytes False st)" by auto
  let ?r = "take 8 r"
  have g: "get_be lec 0 ?r = Inr (vc_session_id vc)" "get_be lec 4 ?r = Inr st"
    using get_be_at [OF field_at_take [OF r(3), of 8 "[]"]] get_be_at [OF field_at_take [OF r(4), of 8 "[]"]]
    by (simp_all add: word_size)
  have h: "vmem_dtp_request_handler les H mq_send msg0 now (Some rbuf) dst src (take (body H) b @ rest) vc = Inr (vc, Some ?r)" for rest
    using b(2) r(1)
    by (simp add: vmem_dtp_request_handler_def DTP_REQUEST_START_TRANSFER_def DTP_REQUEST_STOP_TRANSFER_def sizeof_status_resp_def
        DTP_REQUEST_TRANSFER_STATUS_def DTP_TRANSFER_STATUS_OK_def DTP_TRANSFER_STATUS_BUSY_def put_be st_def c_bind_assoc [symmetric] split: if_splits)
  have "vmem_request_dtp_status lec H (env\<lparr>ve_reply := Some ?r\<rparr>) node tmo version rdp =
      Inr (sint st, [Csp_Connect node tmo (rdp \<noteq> 0), Csp_Send c (take (body H) b), Csp_Free ?r, Csp_Close c])"
    using b(1) g(2) r(2) assms(2,3,5)
    by (simp add: vmem_request_dtp_status_def with_packet_def sizeof_status_resp_def)
  moreover have "sint st = (if keep_running (vc_transfer vc) then 1 else 0)" by (simp add: st_def)
  moreover have "length ?r = sizeof_status_resp" using r(2) assms(5) by (simp add: sizeof_status_resp_def)
  ultimately show ?thesis using h g(1) by (intro exI [of _ "take (body H) b"] exI [of _ ?r] conjI allI) simp_all
qed

theorem status_request_roundtrip_witness:
  "\<exists>bs r. vmem_dtp_request_handler False example_hdr (\<lambda>q m. q @ [m]) memory_message 55 (Some (replicate 8 0)) 9 10 bs vmem_server =
      Inr (vmem_server, Some r) \<and>
    vmem_request_dtp_status True example_hdr (vmem_client\<lparr>ve_reply := Some r\<rparr>) 9 1000 2 1 =
      Inr (0, [Csp_Connect 9 1000 True, Csp_Send 4 bs, Csp_Free r, Csp_Close 4])"
proof -
  have len: "body example_hdr \<le> length (replicate 256 (170::u8))" "sizeof_status_resp \<le> length (replicate 8 (0::u8))"
    by (simp_all add: example_facts sizeof_status_resp_def)
  from status_request_roundtrip [OF example_facts(1-3) len, of False "\<lambda>q m. q @ [m]" memory_message 55 9 10 vmem_server True 9 1000 2 1]
  obtain bs r where r: "\<forall>rest. vmem_dtp_request_handler False example_hdr (\<lambda>q m. q @ [m]) memory_message 55 (Some (replicate 8 0)) 9 10 (bs @ rest) vmem_server =
      Inr (vmem_server, Some r)"
      "vmem_request_dtp_status True example_hdr (vmem_client\<lparr>ve_reply := Some r\<rparr>) 9 1000 2 1 =
        Inr (if keep_running (vc_transfer vmem_server) then 1 else 0, [Csp_Connect 9 1000 (1 \<noteq> (0::int)), Csp_Send 4 bs, Csp_Free r, Csp_Close 4])"
    by blast
  have "\<not> keep_running (vc_transfer vmem_server)" by (simp add: vmem_server_def initial_vmem_context_def idle_server_def)
  with r(2) r(1) [rule_format, of "[]"] show ?thesis by (intro exI [of _ bs] exI [of _ r]) simp
qed

end
