(* ===== verification/Vmem_System.thy ===== *)
theory Vmem_System
  imports Vmem_Correct
begin

text \<open>
  The memory server as a system of two tasks: the request handler, which posts messages and changes the
  shared transfer context, and the sending task, which takes the messages one after the other. The
  message queue belongs to another library; its laws are hypotheses. The steps are whole calls of the
  handler and whole turns of the task; what the handler does to a running transfer is part of the
  environment of the turn.
\<close>

section \<open>The message queue\<close>

text \<open>
  \<open>members q\<close> are the messages in a queue. A message that is sent to a full queue may be lost; receiving
  blocks on an empty queue, and gives one of the messages otherwise.
\<close>

definition queue_laws :: "('q \<Rightarrow> dtp_msg_t \<Rightarrow> 'q) \<Rightarrow> ('q \<Rightarrow> dtp_msg_t \<times> 'q) \<Rightarrow> ('q \<Rightarrow> dtp_msg_t set) \<Rightarrow> bool" where
  "queue_laws mq_send mq_receive members \<longleftrightarrow>
     (\<forall>q m. members (mq_send q m) \<subseteq> insert m (members q)) \<and>
     (\<forall>q. members q \<noteq> {} \<longrightarrow> fst (mq_receive q) \<in> members q \<and> members (snd (mq_receive q)) \<subseteq> members q)"

section \<open>Steps and reachable states\<close>

inductive vmem_step :: "bool \<Rightarrow> vmem_hdr \<Rightarrow> ('q \<Rightarrow> dtp_msg_t \<Rightarrow> 'q) \<Rightarrow> ('q \<Rightarrow> dtp_msg_t \<times> 'q) \<Rightarrow> ('q \<Rightarrow> dtp_msg_t set) \<Rightarrow>
    'q dtp_vmem_context_t \<times> server \<Rightarrow> 'q dtp_vmem_context_t \<times> server \<Rightarrow> bool"
  for le H mq_send mq_receive members where
  handle: "length (intervals (msg_meta msg0)) = 8 \<Longrightarrow>
    vmem_dtp_request_handler le H mq_send msg0 now buffer dst src data vc = Inr (vc', reply) \<Longrightarrow>
    vmem_step le H mq_send mq_receive members (vc, sv) (vc', sv)"
| turn: "members (vc_queue vc) \<noteq> {} \<Longrightarrow>
    dtp_vmem_server_task_turn fuel clock mq_receive vmem_read vmem_read_hook transfer_obj env vc sv = Inr (vc', sv') \<Longrightarrow>
    vmem_step le H mq_send mq_receive members (vc, sv) (vc', sv')"

inductive vmem_reachable :: "bool \<Rightarrow> vmem_hdr \<Rightarrow> ('q \<Rightarrow> dtp_msg_t \<Rightarrow> 'q) \<Rightarrow> ('q \<Rightarrow> dtp_msg_t \<times> 'q) \<Rightarrow> ('q \<Rightarrow> dtp_msg_t set) \<Rightarrow>
    'q dtp_vmem_context_t \<times> server \<Rightarrow> bool"
  for le H mq_send mq_receive members where
  boot: "members queue = {} \<Longrightarrow> \<not> keep_running ctx \<Longrightarrow>
    vmem_reachable le H mq_send mq_receive members (initial_vmem_context queue ctx, sv)"
| step: "vmem_reachable le H mq_send mq_receive members st \<Longrightarrow> vmem_step le H mq_send mq_receive members st st' \<Longrightarrow>
    vmem_reachable le H mq_send mq_receive members st'"

inductive_cases vmem_stepE: "vmem_step le H mq_send mq_receive members (vc, sv) (vc', sv')"

section \<open>Well-formed messages\<close>

text \<open>The type of a message: the kind the task knows, eight array elements, at most eight of them in use.\<close>

definition message_ok :: "dtp_msg_t \<Rightarrow> bool" where
  "message_ok m \<longleftrightarrow> msg m = 1 \<and> length (intervals (msg_meta m)) = 8 \<and> nof_intervals (msg_meta m) \<le> 8"

definition context_ok :: "('q \<Rightarrow> dtp_msg_t set) \<Rightarrow> 'q dtp_vmem_context_t \<Rightarrow> bool" where
  "context_ok members vc \<longleftrightarrow> (\<forall>m \<in> members (vc_queue vc). message_ok m) \<and> \<not> keep_running (vc_transfer vc)"

lemma get_interval_length:
  "get_interval le base data ivs i = Inr ivs' \<Longrightarrow> length ivs' = length ivs \<and> i < length ivs"
  by (auto simp: get_interval_def c_bind_eq_Inr split: if_splits)

lemma get_intervals_length:
  "fold_c (get_interval le base data) ivs is = Inr ivs' \<Longrightarrow> length ivs' = length ivs \<and> (\<forall>i \<in> set is. i < length ivs)"
proof (induction "is" arbitrary: ivs)
  case (Cons i "is")
  then obtain ivs1 where "get_interval le base data ivs i = Inr ivs1" "fold_c (get_interval le base data) ivs1 is = Inr ivs'"
    by (auto simp: c_bind_eq_Inr)
  with get_interval_length [of le base data ivs i ivs1] Cons.IH [of ivs1] show ?case by simp
qed simp

lemma start_message_ok:
  assumes "start_message le base msg0 dst src data = Inr m" and "length (intervals (msg_meta msg0)) = 8"
  shows "message_ok m"
proof -
  obtain nof :: u8 and ivs where "fold_c (get_interval le base data) (intervals (msg_meta msg0)) [0..<unat nof] = Inr ivs"
      and m: "msg m = 1" "intervals (msg_meta m) = ivs" "nof_intervals (msg_meta m) = nof"
    using assms(1) by (auto simp: start_message_def c_bind_eq_Inr)
  note l = get_intervals_length [OF this(1), unfolded assms(2)]
  have "unat nof \<le> 8"
  proof (rule ccontr)
    assume "\<not> unat nof \<le> 8"
    then have "8 \<in> set [0..<unat nof]" by simp
    with l show False by blast
  qed
  with l m show ?thesis by (simp add: message_ok_def word_le_nat_alt)
qed

text \<open>The handler and the task keep the type of the context.\<close>

lemma handler_keeps:
  assumes "vmem_dtp_request_handler le H mq_send msg0 now buffer dst src data vc = Inr (vc', reply)"
    and "length (intervals (msg_meta msg0)) = 8"
  shows "\<not> keep_running (vc_transfer vc) \<Longrightarrow> \<not> keep_running (vc_transfer vc')"
    and "vc_queue vc' = vc_queue vc \<or> (\<exists>m. message_ok m \<and> vc_queue vc' = mq_send (vc_queue vc) m)"
  using assms(1)
  by (auto simp: vmem_dtp_request_handler_def c_bind_eq_Inr split: if_splits option.splits
      dest: start_message_ok [OF _ assms(2)])

lemma turn_keeps:
  assumes "dtp_vmem_server_task_turn fuel clock mq_receive vmem_read f obj env vc sv = Inr (vc', sv')"
    and "\<not> keep_running (vc_transfer vc)"
  shows "\<not> keep_running (vc_transfer vc')" and "vc_queue vc' = snd (mq_receive (vc_queue vc))"
  using assms
  by (auto simp: dtp_vmem_server_task_turn_def async_recv_def vmem_server_turn_def c_bind_eq_Inr Let_def
      split: if_splits prod.splits)

lemma step_keeps:
  assumes "queue_laws mq_send mq_receive members" and "vmem_step le H mq_send mq_receive members (vc, sv) (vc', sv')"
    and "context_ok members vc"
  shows "context_ok members vc'"
  using assms(2)
proof (rule vmem_stepE)
  fix msg0 :: dtp_msg_t and now buffer dst src data reply
  assume h: "length (intervals (msg_meta msg0)) = 8"
    "vmem_dtp_request_handler le H mq_send msg0 now buffer dst src data vc = Inr (vc', reply)"
  have "members (mq_send q m) \<subseteq> insert m (members q)" for q m using assms(1) by (simp add: queue_laws_def)
  then show ?thesis using handler_keeps [OF h(2,1)] assms(3) by (fastforce simp: context_ok_def)
next
  fix fuel clock vmem_read f obj env
  assume t: "members (vc_queue vc) \<noteq> {}"
    "dtp_vmem_server_task_turn fuel clock mq_receive vmem_read f obj env vc sv = Inr (vc', sv')"
  have "members (snd (mq_receive (vc_queue vc))) \<subseteq> members (vc_queue vc)"
    using assms(1) t(1) by (simp add: queue_laws_def)
  then show ?thesis using turn_keeps [OF t(2)] assms(3) by (auto simp: context_ok_def)
qed

lemma reachable_ok:
  assumes "queue_laws mq_send mq_receive members"
  shows "vmem_reachable le H mq_send mq_receive members st \<Longrightarrow> context_ok members (fst st)"
proof (induction rule: vmem_reachable.induct)
  case (boot queue ctx sv)
  then show ?case by (simp add: context_ok_def initial_vmem_context_def)
next
  case (step st st')
  then show ?case using step_keeps [OF assms, of le H "fst st" "snd st" "fst st'" "snd st'"] by simp
qed

section \<open>Progress\<close>

text \<open>
  What a client has to get right beyond the type: a positive throughput, an MTU above the eight header
  bytes, at least one interval, and intervals inside the region.
\<close>

definition message_sound :: "dtp_msg_t \<Rightarrow> bool" where
  "message_sound m \<longleftrightarrow> 0 < throughput (msg_meta m) \<and> 8 < mtu (msg_meta m) \<and> 1 \<le> nof_intervals (msg_meta m) \<and>
     (\<forall>iv \<in> set (requested_ivs (msg_meta m)). iv_ok (msg_meta m) (unat (msg_size m)) iv)"

lemma turn_progress:
  assumes "message_ok m" and "message_sound m" and "steady env (msg_meta m)" and "unat (msg_size m) < fuel"
  shows "\<exists>sv'. vmem_server_turn fuel clock (mem_read mem) f obj env m sv = Inr sv'"
proof -
  have "servable (msg_meta m)" using assms(1,2) by (simp add: message_ok_def message_sound_def servable_def)
  then show ?thesis
    using vmem_turn_ranges [of m env fuel clock mem f obj sv] assms by (auto simp: message_ok_def message_sound_def)
qed

text \<open>A packet that is long enough for every kind of request and announces at most eight intervals.\<close>

definition packet_ok :: "vmem_hdr \<Rightarrow> u8 list \<Rightarrow> bool" where
  "packet_ok H data \<longleftrightarrow> body H + sizeof_start_req \<le> length data \<and>
     (data ! hd_size H = DTP_REQUEST_START_TRANSFER \<longrightarrow> data ! (body H + 20) \<le> 8)"

definition buffer_ok :: "u8 list option \<Rightarrow> bool" where
  "buffer_ok buffer \<longleftrightarrow> (case buffer of None \<Rightarrow> True | Some buf \<Rightarrow> sizeof_status_resp \<le> length buf)"

lemma status_fields_written:
  assumes "8 \<le> length buf"
  shows "\<exists>b b'. put_field le 0 (v :: u32) buf = Inr b \<and> put_field le 4 (w :: u32) b = Inr b'"
  using assms by (simp add: put_field_def memcpy_at_def word_size)

lemma handler_progress:
  assumes "packet_ok H data" and "buffer_ok buffer" and "length (intervals (msg_meta msg0)) = 8"
  shows "\<exists>vc' reply. vmem_dtp_request_handler le H mq_send msg0 now buffer dst src data vc = Inr (vc', reply)"
proof (cases "data ! hd_size H = DTP_REQUEST_START_TRANSFER")
  case True
  then show ?thesis
    using start_request_cases [OF _ True assms(3), of le mq_send now buffer dst src vc] assms(1)
    by (auto simp: packet_ok_def)
next
  case False
  have l: "body H + 96 \<le> length data" using assms(1) by (simp add: packet_ok_def sizeof_start_req_def)
  then have k: "get_field le (hd_size H) data = Inr (data ! hd_size H)" by (intro get_byte) (simp add: body_def)
  obtain sid :: u32 where sid: "get_be le (body H) data = Inr sid"
    using get_be_ok [where 'w = 32, of "body H" data le] l by auto
  have b: "\<exists>b b'. put_field le 0 (v :: u32) buf = Inr b \<and> put_field le 4 (w :: u32) b = Inr b'" if "buffer = Some buf" for buf v w
    using that assms(2) by (intro status_fields_written) (simp add: buffer_ok_def sizeof_status_resp_def)
  show ?thesis
  proof (cases buffer)
    case None
    with False show ?thesis by (simp add: vmem_dtp_request_handler_def k sid)
  next
    case (Some buf)
    from b [OF Some, of "htobe le (vc_session_id vc)" "htobe le (if keep_running (vc_transfer vc)
              then DTP_TRANSFER_STATUS_BUSY else DTP_TRANSFER_STATUS_OK)"] False Some show ?thesis
      by (auto simp: vmem_dtp_request_handler_def k sid simp del: if_split)
  qed
qed

lemma transfer_size_cong:
  assumes "request a = request b" and "payload_meta a = payload_meta b"
  shows "compute_transfer_size a = compute_transfer_size b"
proof -
  have "size_step a = size_step b" by (intro ext) (simp only: size_step_def assms)
  then show ?thesis using assms(1) by (simp add: compute_transfer_size_def)
qed

section \<open>Properties\<close>

text \<open>
  C12. Type safety of the memory server: however the calls of the handler and the turns of the task follow each other
  from the start, with whatever packets on which the handler returns (one that announces more than eight intervals
  makes it leave its array, and nothing is said of what follows), every message in the queue has the kind the task knows, eight
  array elements and at most eight intervals in use, and no transfer counts as running between two
  turns. In each of these states the handler returns on every packet that is long enough and announces at most eight
  intervals, and the task returns from its turn when the queued messages have a positive throughput, an
  MTU above eight, at least one interval and intervals inside their region.\<close>

theorem vmem_server_type_safe:
  assumes "queue_laws mq_send mq_receive members" and "vmem_reachable le H mq_send mq_receive members (vc, sv)"
  shows "context_ok members vc \<and>
    (packet_ok H data \<and> buffer_ok buffer \<and> length (intervals (msg_meta msg0)) = 8 \<longrightarrow>
      (\<exists>vc' reply. vmem_dtp_request_handler le H mq_send msg0 now buffer dst src data vc = Inr (vc', reply))) \<and>
    (members (vc_queue vc) \<noteq> {} \<and>
      (\<forall>m \<in> members (vc_queue vc). message_sound m \<and> steady env (msg_meta m) \<and> unat (msg_size m) < fuel) \<longrightarrow>
      (\<exists>vc' sv'. dtp_vmem_server_task_turn fuel clock mq_receive (mem_read mem) f obj env vc sv = Inr (vc', sv')))"
proof (intro conjI impI)
  show ok: "context_ok members vc" using reachable_ok [OF assms] by simp
  show "\<exists>vc' reply. vmem_dtp_request_handler le H mq_send msg0 now buffer dst src data vc = Inr (vc', reply)"
    if "packet_ok H data \<and> buffer_ok buffer \<and> length (intervals (msg_meta msg0)) = 8"
    using that by (intro handler_progress) auto
  assume t: "members (vc_queue vc) \<noteq> {} \<and>
      (\<forall>m \<in> members (vc_queue vc). message_sound m \<and> steady env (msg_meta m) \<and> unat (msg_size m) < fuel)"
  obtain m q where r: "mq_receive (vc_queue vc) = (m, q)" by force
  then have "m \<in> members (vc_queue vc)" using assms(1) t unfolding queue_laws_def by (metis fst_conv)
  then obtain sv' where "vmem_server_turn fuel clock (mem_read mem) f obj env m (sv\<lparr>sv_ctx := vc_transfer vc\<rparr>) = Inr sv'"
    using turn_progress [of m env fuel clock mem f obj "sv\<lparr>sv_ctx := vc_transfer vc\<rparr>"] t ok by (auto simp: context_ok_def)
  then show "\<exists>vc' sv'. dtp_vmem_server_task_turn fuel clock mq_receive (mem_read mem) f obj env vc sv = Inr (vc', sv')"
    by (simp add: dtp_vmem_server_task_turn_def async_recv_def async_vmem_read_def r)
qed

text \<open>A queue as a list: the messages in their order, none lost.\<close>

lemma list_queue: "queue_laws (\<lambda>q m. q @ [m]) (\<lambda>q. (hd q, tl q)) set"
  by (auto simp: queue_laws_def intro: list.set_sel)

lemma one_request_reachable:
  assumes "vmem_dtp_request_handler True example_hdr (\<lambda>q m. q @ [m]) memory_message 55 None 9 10 bs vmem_server = Inr (vc, None)"
  shows "vmem_reachable True example_hdr (\<lambda>q m. q @ [m]) (\<lambda>q. (hd q, tl q)) set (vc, idle_server)"
proof (rule vmem_reachable.step)
  show "vmem_reachable True example_hdr (\<lambda>q m. q @ [m]) (\<lambda>q. (hd q, tl q)) set (vmem_server, idle_server)"
    unfolding vmem_server_def by (rule vmem_reachable.boot) (simp_all add: idle_server_def)
  show "vmem_step True example_hdr (\<lambda>q m. q @ [m]) (\<lambda>q. (hd q, tl q)) set (vmem_server, idle_server) (vc, idle_server)"
    using example_facts(6) assms by (rule vmem_step.handle)
qed

theorem vmem_server_type_safe_witness:
  "\<exists>bs vc vc' sv'. vmem_request_dtp_start_download True example_hdr vmem_client vmem_session 9 77 1000 2 1 0x2000 5000 =
      Inr (0, [Csp_Connect 9 1000 True, Csp_Send 4 bs, Csp_Close 4]) \<and>
    vmem_dtp_request_handler True example_hdr (\<lambda>q m. q @ [m]) memory_message 55 None 9 10 bs vmem_server = Inr (vc, None) \<and>
    context_ok set vc \<and> vc_queue vc \<noteq> [] \<and>
    dtp_vmem_server_task_turn 5001 (\<lambda>_. 0) (\<lambda>q. (hd q, tl q)) (mem_read (\<lambda>_. 7)) 9 1 quiet vc idle_server = Inr (vc', sv')"
proof -
  let ?m = "\<lambda>pid. message_of memory_message 9 10 (request_meta vmem_session) 77 0x2000 5000 pid 0"
  have len: "body example_hdr + sizeof_start_req \<le> length (replicate 256 (170::u8))"
    by (simp add: example_facts sizeof_start_req_def)
  obtain bs pid where r: "vmem_request_dtp_start_download True example_hdr vmem_client vmem_session 9 77 1000 2 1 0x2000 5000 =
      Inr (0, [Csp_Connect 9 1000 (1 \<noteq> (0::int)), Csp_Send 4 bs, Csp_Close 4])"
      "\<forall>rest. vmem_dtp_request_handler True example_hdr (\<lambda>q m. q @ [m]) memory_message 55 None 9 10 (bs @ rest) vmem_server =
        Inr (vmem_server\<lparr>vc_session_id := 77, vc_transfer := (vc_transfer vmem_server)\<lparr>client_alive_ts := 55\<rparr>,
          vc_queue := vc_queue vmem_server @ [message_of memory_message 9 10 (request_meta vmem_session) 77 0x2000 5000 pid
            (if True \<or> True then 0 else keep_alive_interval (request_meta vmem_session))]\<rparr>, None)"
    using start_request_posted [OF example_facts(1-3) len example_facts(5,6)] by blast
  let ?vc = "vmem_server\<lparr>vc_session_id := 77, vc_transfer := (vc_transfer vmem_server)\<lparr>client_alive_ts := 55\<rparr>, vc_queue := [?m pid]\<rparr>"
  have h: "vmem_dtp_request_handler True example_hdr (\<lambda>q m. q @ [m]) memory_message 55 None 9 10 bs vmem_server = Inr (?vc, None)"
    using r(2) [rule_format, of "[]"] by (simp add: vmem_server_def initial_vmem_context_def)
  have "message_sound (?m pid)" "steady quiet (msg_meta (?m pid))" "unat (msg_size (?m pid)) < 5001"
    by (simp_all add: message_sound_def message_of_def vmem_session_def whole_request_def clamped_intervals_def steady_quiet
        requested_ivs_def iv_ok_def range_lo_def range_hi_def memory_message_def)
  then have "set (vc_queue ?vc) \<noteq> {} \<and>
      (\<forall>m \<in> set (vc_queue ?vc). message_sound m \<and> steady quiet (msg_meta m) \<and> unat (msg_size m) < 5001)" by simp
  with vmem_server_type_safe [OF list_queue one_request_reachable [OF h], where env = quiet and fuel = 5001 and clock = "\<lambda>_. 0"
      and mem = "\<lambda>_. 7" and f = 9 and obj = 1] h r(1) show ?thesis by auto
qed

text \<open>
  C26. A stop request that the handler serves before the task has taken the start message from the queue has no effect on
  the transfer: the turn of the task is the one without the request, but for the session id that is
  reported. The task sets \<open>keep_running\<close> itself when it starts.\<close>

theorem early_stop_ignored:
  assumes "vmem_dtp_request_handler le H mq_send msg0 now buffer dst src data vc = Inr (vc', reply)"
    and "data ! hd_size H = DTP_REQUEST_STOP_TRANSFER" and "hd_size H < length data"
    and "msg (fst (mq_receive (vc_queue vc))) = 1"
  shows "dtp_vmem_server_task_turn fuel clock mq_receive vmem_read f obj env vc' sv =
    c_bind (dtp_vmem_server_task_turn fuel clock mq_receive vmem_read f obj env vc sv)
      (\<lambda>(vc1, sv1). Inr (vc1\<lparr>vc_session_id := 0\<rparr>, sv1))"
proof -
  have "vc' = vc\<lparr>vc_session_id := 0, vc_transfer := (vc_transfer vc)\<lparr>keep_running := False\<rparr>\<rparr>"
    using assms(1-3)
    by (simp add: vmem_dtp_request_handler_def get_byte c_bind_eq_Inr DTP_REQUEST_START_TRANSFER_def DTP_REQUEST_STOP_TRANSFER_def
        split: if_splits)
  moreover obtain m q where "mq_receive (vc_queue vc) = (m, q)" by force
  moreover have "compute_transfer_size (ctx\<lparr>keep_running := False, request := r, payload_meta := pm\<rparr>) =
      compute_transfer_size (ctx\<lparr>request := r, payload_meta := pm\<rparr>)" for ctx r pm
    by (rule transfer_size_cong) simp_all
  ultimately show ?thesis
    using assms(4)
    by (cases vc) (simp add: dtp_vmem_server_task_turn_def async_recv_def vmem_server_turn_def Let_def c_bind_assoc split_def)
qed

theorem early_stop_ignored_witness:
  "dtp_vmem_server_task_turn 5001 (\<lambda>_. 0) (\<lambda>q. (hd q, tl q)) (mem_read (\<lambda>_. 7)) 9 1 quiet
     (vmem_server\<lparr>vc_session_id := 0, vc_queue := [memory_message]\<rparr>) idle_server =
   c_bind (dtp_vmem_server_task_turn 5001 (\<lambda>_. 0) (\<lambda>q. (hd q, tl q)) (mem_read (\<lambda>_. 7)) 9 1 quiet
     (vmem_server\<lparr>vc_session_id := 77, vc_queue := [memory_message]\<rparr>) idle_server)
     (\<lambda>(vc1, sv1). Inr (vc1\<lparr>vc_session_id := 0\<rparr>, sv1))"
proof -
  let ?vc = "vmem_server\<lparr>vc_session_id := 77, vc_queue := [memory_message]\<rparr>"
  let ?d = "[0, 0x80, 1, 0, 0, 0, 77] :: u8 list"
  have "vmem_dtp_request_handler True example_hdr (\<lambda>q m. q @ [m]) memory_message 55 None 9 10 ?d ?vc =
      Inr (vmem_server\<lparr>vc_session_id := 0, vc_queue := [memory_message]\<rparr>, None)"
    by (simp add: vmem_dtp_request_handler_def get_be_def get_field_def memcpy_from_def body_def example_hdr_def
        DTP_REQUEST_START_TRANSFER_def DTP_REQUEST_STOP_TRANSFER_def vmem_server_def initial_vmem_context_def idle_server_def)
  from early_stop_ignored [OF this, where mq_receive = "\<lambda>q. (hd q, tl q)"] show ?thesis
    by (simp add: example_hdr_def DTP_REQUEST_STOP_TRANSFER_def memory_message_def)
qed

end
