(* ===== verification/Log.thy ===== *)
theory Log
  imports Dtp_Types
begin

text \<open>
  The log of the library, \<open>src/dtp_log.c\<close>. The state are the three colour strings of the file and what
  has been printed. The text \<open>vprintf\<close> makes of a format and its arguments is an argument of the two
  functions; the prefix with file and line is written out.
\<close>

section \<open>State and operations\<close>

definition YELLOW :: string where "YELLOW = CHR 0x1B # ''[0;33m''"
definition GREEN :: string where "GREEN = CHR 0x1B # ''[0;32m''"
definition RESET :: string where "RESET = CHR 0x1B # ''[0m''"

record log_state =
  log_yellow :: string
  log_green :: string
  log_reset :: string
  log_out :: string

definition initial_log :: log_state where
  "initial_log = \<lparr>log_yellow = YELLOW, log_green = GREEN, log_reset = RESET, log_out = ''''\<rparr>"

text \<open>The conversion \<open>%u\<close>.\<close>

definition digit :: "nat \<Rightarrow> char" where
  "digit d = char_of (48 + d)"

fun decimal :: "nat \<Rightarrow> string" where
  "decimal n = (if n < 10 then [digit n] else decimal (n div 10) @ [digit (n mod 10)])"

declare decimal.simps [simp del]

definition print :: "string \<Rightarrow> log_state \<Rightarrow> log_state" where
  "print txt st = st\<lparr>log_out := log_out st @ txt\<rparr>"

definition dbg_log_impl :: "string \<Rightarrow> u32 \<Rightarrow> string \<Rightarrow> log_state \<Rightarrow> log_state" where
  "dbg_log_impl file_name line message st =
     (let st1 = print (log_green st @ ''[LOG] '' @ file_name @ '':'' @ decimal (unat line) @ '': '') st;
          st2 = print message st1
      in print (log_reset st2 @ ''\<newline>'') st2)"

definition dbg_warn_impl :: "string \<Rightarrow> u32 \<Rightarrow> string \<Rightarrow> log_state \<Rightarrow> log_state" where
  "dbg_warn_impl file_name line message st =
     (let st1 = print (log_yellow st @ ''[WARN] '' @ file_name @ '':'' @ decimal (unat line) @ '': '') st;
          st2 = print message st1
      in print (log_reset st2 @ ''\<newline>'') st2)"

definition dbg_enable_colors :: "bool \<Rightarrow> log_state \<Rightarrow> log_state" where
  "dbg_enable_colors enable st =
     (if enable then st\<lparr>log_yellow := YELLOW, log_green := GREEN, log_reset := RESET\<rparr>
      else st\<lparr>log_yellow := '''', log_green := '''', log_reset := ''''\<rparr>)"

section \<open>Numbers are printed in full\<close>

definition number_of :: "string \<Rightarrow> nat" where
  "number_of = foldl (\<lambda>n ch. 10 * n + (of_char ch - 48)) 0"

lemma digit_value: "d < 10 \<Longrightarrow> of_char (digit d) = 48 + d"
  by (simp add: digit_def)

lemma number_of_snoc: "number_of (xs @ [ch]) = 10 * number_of xs + (of_char ch - 48)"
  by (simp add: number_of_def)

lemma decimal_number: "number_of (decimal n) = n"
proof (induction n rule: decimal.induct)
  case (1 n)
  show ?case
  proof (cases "n < 10")
    case True
    then show ?thesis by (simp add: decimal.simps [of n] number_of_def digit_value)
  next
    case False
    with 1 have "number_of (decimal n) = 10 * (n div 10) + n mod 10"
      by (simp add: decimal.simps [of n] number_of_snoc digit_value)
    then show ?thesis by simp
  qed
qed

lemma decimal_digits: "ch \<in> set (decimal n) \<Longrightarrow> \<exists>d < 10. ch = digit d"
proof (induction n rule: decimal.induct)
  case (1 n)
  show ?case
  proof (cases "n < 10")
    case True
    with "1.prems" show ?thesis by (auto simp: decimal.simps [of n])
  next
    case False
    with "1.prems" have "ch \<in> set (decimal (n div 10)) \<or> ch = digit (n mod 10)" by (auto simp: decimal.simps [of n])
    then show ?thesis using "1.IH" [OF False] by (auto intro: exI [of _ "n mod 10"])
  qed
qed

lemma digit_not_escape: "d < 10 \<Longrightarrow> digit d \<noteq> CHR 0x1B"
proof
  assume d: "d < 10" and "digit d = CHR 0x1B"
  then have "of_char (digit d) = (27::nat)" by simp
  with digit_value [OF d] show False by simp
qed

section \<open>Properties\<close>

definition logged :: "(bool \<times> string \<times> u32 \<times> string) list \<Rightarrow> log_state \<Rightarrow> log_state" where
  "logged calls st = fold (\<lambda>(warning, file_name, line, message).
     if warning then dbg_warn_impl file_name line message else dbg_log_impl file_name line message) calls st"

lemma log_keeps_colors:
  "log_green (dbg_log_impl f l m st) = log_green st" "log_yellow (dbg_log_impl f l m st) = log_yellow st"
  "log_reset (dbg_log_impl f l m st) = log_reset st" "log_green (dbg_warn_impl f l m st) = log_green st"
  "log_yellow (dbg_warn_impl f l m st) = log_yellow st" "log_reset (dbg_warn_impl f l m st) = log_reset st"
  by (simp_all add: dbg_log_impl_def dbg_warn_impl_def print_def Let_def)

lemma logged_plain:
  assumes "log_green st = ''''" and "log_yellow st = ''''" and "log_reset st = ''''"
    and "\<forall>(w, f, l, m) \<in> set calls. CHR 0x1B \<notin> set f \<union> set m" and "CHR 0x1B \<notin> set (log_out st)"
  shows "CHR 0x1B \<notin> set (log_out (logged calls st))"
  using assms
proof (induction calls arbitrary: st)
  case (Cons c calls)
  obtain w f l m where c: "c = (w, f, l, m)" by (cases c) auto
  let ?st = "if w then dbg_warn_impl f l m st else dbg_log_impl f l m st"
  have num: "CHR 0x1B \<notin> set (decimal (unat l))" using decimal_digits digit_not_escape by metis
  have "CHR 0x1B \<notin> set f \<union> set m" using Cons.prems(4) c by auto
  then have "CHR 0x1B \<notin> set (log_out ?st)"
    using Cons.prems(1-3,5) num by (auto simp: dbg_log_impl_def dbg_warn_impl_def print_def Let_def)
  then have "CHR 0x1B \<notin> set (log_out (logged calls ?st))"
    using Cons.prems by (intro Cons.IH) (simp_all add: log_keeps_colors)
  then show ?case by (cases w) (simp_all add: logged_def c)
qed (simp add: logged_def)

text \<open>
  Once colours are switched off, whatever is logged afterwards contains no escape character but those of
  the messages and file names; once they are switched on, every line is framed by its colour and the
  reset sequence.
\<close>

lemma colors_off_plain:
  assumes "\<forall>(w, f, l, m) \<in> set calls. CHR 0x1B \<notin> set f \<union> set m" and "CHR 0x1B \<notin> set (log_out st)"
  shows "CHR 0x1B \<notin> set (log_out (logged calls (dbg_enable_colors False st)))"
  using assms by (intro logged_plain) (simp_all add: dbg_enable_colors_def)

lemma colors_on_framed:
  "log_out (dbg_warn_impl f l m (dbg_enable_colors True st)) =
     log_out st @ YELLOW @ ''[WARN] '' @ f @ '':'' @ decimal (unat l) @ '': '' @ m @ RESET @ ''\<newline>''"
  "log_out (dbg_log_impl f l m (dbg_enable_colors True st)) =
     log_out st @ GREEN @ ''[LOG] '' @ f @ '':'' @ decimal (unat l) @ '': '' @ m @ RESET @ ''\<newline>''"
  by (simp_all add: dbg_warn_impl_def dbg_log_impl_def dbg_enable_colors_def print_def Let_def)

lemma last_color_setting_counts: "dbg_enable_colors a (dbg_enable_colors b st) = dbg_enable_colors a st"
  by (simp add: dbg_enable_colors_def)

end
