(* ===== verification/Spec2Isabelle.thy ===== *)
theory Spec2Isabelle
  imports Segments_Correct Protocol Session_Pool Server_Correct Client_Sessions Client_Outcomes Resumption Payload_Correct Vmem_System Log
begin

text \<open>
  A verification development of libdtp, a library that moves large payloads between nodes of a CSP
  network: a client asks a server for a payload (or for parts of it), the server answers with the payload's
  size and sends numbered data packets at a limited rate, the client stores them, keeps a record of
  what arrived and can resume an interrupted transfer later.

  \<^bold>\<open>Parts and theories.\<close> Paths are relative to the repository.

  \<^item> \<open>Dtp_Prelude\<close>: machine integers, the failures of C statements as values (\<open>c_error\<close>), their sequencing
    (\<open>c_bind\<close>, \<open>fold_c\<close>), arrays, and the lemmas on words that all theories use. Undefined behaviour,
    traps and loops that never end are results of the model (\<open>Inl\<close>), so that a theorem whose conclusion
    is \<open>Inr\<close> also says that they do not happen.
  \<^item> \<open>C_Float\<close>: the float and double arithmetic of the metrics, with correct rounding.
  \<^item> \<open>Dtp_Types\<close>: the structs and enums of \<open>include/dtp/dtp.h\<close>, \<open>dtp_protocol.h\<close>, \<open>platform.h\<close>, \<open>dtp_session.h\<close>.
  \<^item> \<open>Segments_Spec\<close>, \<open>Segments\<close>, \<open>Segments_Correct\<close>: the lists of packet ranges of
    \<open>src/dtp_client_posix_segments_utils.c\<close>, as linked nodes in an explicit heap with malloc and free, against lists
    of intervals and sets of packet numbers.
  \<^item> \<open>Protocol\<close>: \<open>src/dtp_protocol.c\<close>, the meta data exchange and the transfer metrics.
  \<^item> \<open>Session_Pool\<close>: \<open>src/dtp.c\<close>, the five static sessions, their options, errors and hooks; \<open>pool_reachable\<close>
    is the set of states the public operations can lead to.
  \<^item> \<open>Log\<close>: \<open>src/dtp_log.c\<close>, its three colour strings and what it prints.
  \<^item> \<open>Poll\<close>: the polling loop of \<open>src/dtp_os_hal.c\<close>, for POSIX and for FreeRTOS, and that both keep the period.
  \<^item> \<open>Server\<close>, \<open>Server_Correct\<close>: \<open>src/dtp_server.c\<close>, polled by the POSIX loop.
    \<open>spec_packets\<close> is the specification of what is sent for a byte range; the locale \<open>payload_source\<close> is what
    the server relies on of a payload.
  \<^item> \<open>Client\<close>, \<open>Client_Correct\<close>, \<open>Client_Sessions\<close>: \<open>src/dtp_client.c\<close>; the locale \<open>data_hook\<close> is what the
    receive loop relies on of a data hook.
  \<^item> \<open>Client_Outcomes\<close>: what the results of a transfer mean to its caller: success, silence, a stop by another task.
  \<^item> \<open>Stdio\<close>, \<open>Hooks\<close>, \<open>Hooks_Correct\<close>, \<open>Hooks_Resume\<close>: \<open>src/dtp_client_posix_session_hooks.c\<close> on
    files, streams and heap: the data file, the record, the meta file and resuming.
  \<^item> \<open>Resumption\<close>: an interrupted download from its first packet to the complete file, through the hooks, the
    meta file, the request for the missing ranges and the server that sends them.
  \<^item> \<open>Payload\<close>, \<open>Payload_Correct\<close>: \<open>src/dtp_file_payload.c\<close> and \<open>src/payload_api.c\<close>, where the server's
    payloads come from; a registered file is an instance of \<open>payload_source\<close>.
  \<^item> \<open>Vmem\<close>, \<open>Vmem_Correct\<close>: \<open>src/dtp_vmem_client.c\<close> and \<open>src/dtp_vmem_server.c\<close>, downloads of memory, with
    the requests as arrays of bytes.
  \<^item> \<open>Vmem_System\<close>: handler and sending task of the memory server as steps of one system (\<open>vmem_step\<close>,
    \<open>vmem_reachable\<close>), its type safety, and the stop request that comes too early.
  \<^item> this theory: the properties that span the components, from a file or a memory region on the server to
    the copy on the client.

  \<^bold>\<open>What is shown.\<close> The segment list records exactly the packets that arrived in order, never one that did not
  arrive, and its operations are those on sets of intervals; the metrics are defined for every servable
  request and count packets as the theorems state; the server's transfer ends and sends exactly the packets of
  the requested ranges, at most at its rate; the client ends complete and scheduled transfers with \<open>DTP_OK\<close>, and
  \<open>DTP_OK\<close> means that as many bytes as the server announced were counted, which is the whole payload when no packet came
  again after another one (\<open>repeated_packet_hides_loss\<close> shows that the condition is needed); silence and a stop by another
  task end a transfer and keep what arrived; sessions are handed out once and given back; received data lies in the file
  at its place in whatever order it came; a saved session is restored, the server sends what it then asks for, and this
  completes the file; registered files are served; requests for memory survive the way through the packet bytes, and
  the messages the memory server queues are well formed. Where
  the code does not do what it means to, the theorem states what it does: payloads that end at a
  packet boundary, a missing last packet, fast transfers, repeated packets, readers that fail, reused contexts, oversized
  requests, stop requests that are forgotten, reads across the end of a file.

  \<^bold>\<open>State and effects.\<close> Operations take and return the state they change. Function pointers are identities, and
  the functions behind them are arguments. The clock, the network, packet buffers and other tasks are
  environments: sequences of readings and events, with changes by other tasks at the beginning of a loop
  iteration. The byte order of the host is the argument \<open>le\<close>.

  \<^bold>\<open>Loops and fuel.\<close> Loops over lists in the heap and over packets take fuel, and \<open>Diverges\<close> is the result when it
  runs out. A heap loop gets as much as the heap has nodes; the search for a round needs ten steps; the
  packet loop gets one step more than a round has packets; the polling loop and the receive
  loop take it as an argument, and the theorems say how much is enough (the payload's size
  plus one for the server, the number of packets or of silent rounds for the client). Fuel only
  matters where the code itself may not end, as \<open>failing_reader_polls_forever\<close> shows.

  \<^bold>\<open>Parameters.\<close> CSP (connections, packets, clock), the message queue, the header of memory requests and the memory
  access belong to other libraries: they are arguments of the definitions, and what is relied on is a
  hypothesis (\<open>header_ok\<close>, \<open>queue_laws\<close> or a queue that gives back its message, a buffer of the size asked for). The
  text \<open>vprintf\<close> makes of a format is an argument of the log functions, and FreeRTOS's \<open>xTaskDelayUntil\<close> is an argument of its
  polling loop.

  \<^bold>\<open>Not modelled.\<close> The log output of the other parts (theory \<open>Log\<close> has the functions they call); the failure
  of small allocations the code does not check (two context objects, registry entries) and the storage of the segment
  contexts themselves, which are values; the server's
  readers are functions of the registry's state, whose only change by a read is the opened stream
  (\<open>file_payload_served\<close> shows that it does not matter); \<open>utils/session-meta.c\<close>, which does not compile
  against the library; tests.
\<close>

section \<open>Whole downloads\<close>

text \<open>
  The packets of a server arrive at a client: port 8 can be bound, the clock does not wrap around during
  the expected duration, and the packets come in their order and on schedule.
\<close>

definition received_in_time :: "xfer_env \<Rightarrow> dtp_meta_req_t \<Rightarrow> u32 \<Rightarrow> data_packet list \<Rightarrow> bool" where
  "received_in_time xe req psize ps \<longleftrightarrow> xe_bind xe \<and>
     (\<exists>metric. compute_dtp_metrics req psize = Inr metric \<and>
        unat (xe_now xe) + unat (total_duration_ms metric) + 2 * unat (round_time_ms metric) < 4294967296) \<and>
     on_schedule (unat (mtu req) - 8) (length ps) (xe_rx xe) (xe_now xe) ps"

text \<open>A client session that is ready to store a payload under a path, and the world its hooks act on.\<close>

definition ready_to_store :: "apm_session \<Rightarrow> hook_world \<Rightarrow> string \<Rightarrow> bool" where
  "ready_to_store s w path \<longleftrightarrow> ready_for_file path s w \<and> servable (request_meta s) \<and> whole (request_meta s)"

lemma stored_download:
  assumes "ready_to_store s w path" and "unat (payload_size s) = length content" and "length content < 4294967295"
    and "length content mod chunk (request_meta s) \<noteq> 0"
    and "ps = spec_packets (chunk (request_meta s)) sid content 0 (length content)"
    and "received_in_time xe (request_meta s) (payload_size s) ps" and "length content < fuel"
  shows "\<exists>s' w'. start_receiving_data fuel (apm_hook le) apm_data_hook xe s w = Inr ((s', w'), DTP_OK) \<and>
    contents (hw_files w') path = Some content"
proof -
  obtain metric where mt: "compute_dtp_metrics (request_meta s) (payload_size s) = Inr metric"
      "unat (xe_now xe) + unat (total_duration_ms metric) + 2 * unat (round_time_ms metric) < 4294967296"
    and x: "xe_bind xe" "on_schedule (unat (mtu (request_meta s)) - 8) (length ps) (xe_rx xe) (xe_now xe) ps"
    using assms(6) by (auto simp: received_in_time_def)
  have c: "chunk (request_meta s) = unat (mtu (request_meta s)) - 8" by (simp add: chunk_def)
  from assms(1) have r: "on_start (hooks s) = Some 6" "on_data_packet (hooks s) = Some 7" "on_end (hooks s) = Some 8"
      "hook_ctx (hooks s) = None" "bytes_received s = 0" "user_context s = Some path" "length path < 1024"
      "may_open (hw_files w) path" "plenty (hw_heap w)" "servable (request_meta s)" "whole (request_meta s)"
    by (simp_all add: ready_to_store_def ready_for_file_def)
  from download_to_file [OF r refl assms(2,3) _ mt(1) x(1) mt(2) _ x(2) assms(7), of sid le] assms(4,5) c
  show ?thesis by auto
qed

subsection \<open>A file\<close>

text \<open>One turn of the server for a request of a whole payload.\<close>

lemma server_turn_whole:
  assumes "payload_source (readers f) (payload_id req) content"
    and "\<And>meta. get_meta meta (payload_id req) = (meta\<lparr>pm_size := of_nat (length content), pm_read := Some f\<rparr>, True)"
    and "servable req" and "whole req"
    and "steady env (req\<lparr>keep_alive_interval := keep_alive_from_wire le (keep_alive_interval req)\<rparr>)" and "length content < fuel"
  shows "\<exists>sv'. server_turn fuel clock le get_meta readers env True (Request src dst req) sv =
      Inr (sv', Some \<lparr>resp_size_in_bytes = of_nat (length content), resp_total_payload_size = of_nat (length content)\<rparr>, True) \<and>
    sv_sent sv' = sv_sent sv @ map (\<lambda>p. (dst, src, p)) (spec_packets (chunk req) (session_id req) content 0 (length content))"
proof -
  let ?req = "req\<lparr>keep_alive_interval := keep_alive_from_wire le (keep_alive_interval req)\<rparr>"
  let ?ctx = "(sv_ctx sv)\<lparr>request := ?req, srv_node := dst, dest_port := src,
    payload_meta := (payload_meta (sv_ctx sv))\<lparr>pm_size := of_nat (length content), pm_read := Some f\<rparr>\<rparr>"
  let ?sz = "of_nat (length content) :: u32"
  let ?sv = "sv\<lparr>sv_ctx := ?ctx\<lparr>size_in_bytes := ?sz, keep_running := True\<rparr>\<rparr>"
  have len: "unat ?sz = length content" using payload_source.content_size [OF assms(1)] by (simp add: unat_of_nat)
  have ivs: "requested_ivs ?req = [\<lparr>iv_start = 0, iv_end = UINT32_MAX\<rparr>]"
    using assms(3,4) by (cases "intervals req") (simp_all add: requested_ivs_def servable_def whole_def)
  have sz: "compute_transfer_size ?ctx = Inr ?sz"
    using assms(3,4) by (simp add: compute_transfer_size_def size_step_def Let_def servable_def whole_def)
  have req: "servable ?req" "chunk ?req = chunk req" using assms(3) by (simp_all add: servable_def chunk_def)
  obtain sv' where s: "start_sending_data fuel clock (readers f) env ?sv = Inr (sv', DTP_OK)"
      "sv_sent sv' = sv_sent ?sv @ map (tag ?sv) (spec_packets (chunk req) (session_id req) content 0 (length content))"
    using payload_source.start_sending_data_ok [OF assms(1) req(1), of ?sv env fuel clock] assms(5,6) ivs len req(2)
    by (auto simp: range_lo_def range_hi_def iv_ok_def)
  show ?thesis using s sz assms(2)
    by (intro exI [of _ "sv'\<lparr>sv_ctx := (sv_ctx sv')\<lparr>keep_running := False\<rparr>\<rparr>"])
       (simp add: setup_server_transfer_def Let_def tag_def [abs_def])
qed

text \<open>The session \<open>dtp_prepare_session\<close> makes of a free slot when it does not resume a download.\<close>

definition fresh_session :: "'c dtp_opt_session_hooks_cfg \<Rightarrow> prepare_args \<Rightarrow> 'c dtp_t \<Rightarrow> 'c dtp_t" where
  "fresh_session dh a s0 = (let s = acquired_session dh s0 in
     s\<lparr>user_context := pa_ctx a, remote_node := ucast (pa_server a), timeout := pa_timeout a,
       request_meta := (request_meta s)\<lparr>throughput := pa_max_throughput a, payload_id := pa_payload_id a, mtu := pa_mtu a,
         session_id := pa_session_id a, keep_alive_interval := ucast (pa_keep_alive a)\<rparr>\<rparr>)"

lemma prepared_session:
  assumes "free_slot (static_sessions g) = Some i" and "\<not> pa_resume a"
  shows "\<exists>g'. dtp_prepare_session dh hf a g = Inr (g', Some i) \<and> world g' = world g \<and>
    deref g' (Some i) = Inr (fresh_session dh a (ss_session (static_sessions g ! i)))"
proof -
  have "i < length (static_sessions g)" using free_slot_Some [OF assms(1)] by simp
  then show ?thesis using assms
    by (simp add: dtp_prepare_session_def dtp_acquire_session_def fresh_download_eq start_download_def Let_def
        dtp_session_set_user_ctx_def fresh_session_def deref_def put_session_def)
qed

text \<open>A session slot that was never used, or was given back in order.\<close>

definition unused_slot :: "(hook_ctx_t, 'w) dtp_globals \<Rightarrow> nat \<Rightarrow> bool" where
  "unused_slot g i \<longleftrightarrow> free_slot (static_sessions g) = Some i \<and>
     hook_ctx (hooks (ss_session (static_sessions g ! i))) = None \<and>
     length (intervals (request_meta (ss_session (static_sessions g ! i)))) = 8"

abbreviation client_args :: "prepare_args \<Rightarrow> prepare_args" where
  "client_args a \<equiv> a\<lparr>pa_session_id := 0x900dface\<rparr>"

text \<open>The request of a fresh session.\<close>

lemma fresh_request:
  assumes "unused_slot g i" and "0 < pa_max_throughput a" and "8 < pa_mtu a"
    and "req = request_meta (fresh_session dh (client_args a) (ss_session (static_sessions g ! i)))"
  shows "servable req" "whole req" "payload_id req = pa_payload_id a" "session_id req = 0x900dface" "mtu req = pa_mtu a"
    "chunk req = unat (pa_mtu a) - 8"
  using assms by (auto simp: fresh_session_def acquired_session_def Let_def servable_def whole_def chunk_def unused_slot_def)

lemma client_main_stores:
  assumes "unused_slot g i" and "\<not> pa_resume a" and "0 < pa_max_throughput a" and "8 < pa_mtu a"
    and "pa_ctx a = Some path" and "length path < 1024" and "may_open (hw_files (world g)) path" and "plenty (hw_heap (world g))"
    and "s = fresh_session apm_session_hooks (client_args a) (ss_session (static_sessions g ! i))"
    and "length content < 4294967295" and "length content mod (unat (pa_mtu a) - 8) \<noteq> 0" and "length content < fuel"
    and "xe_conn xe = Some cn" and "xe_buffer xe" and "xe_resp xe = Some \<lparr>resp_size_in_bytes = n, resp_total_payload_size = of_nat (length content)\<rparr>"
    and "received_in_time xe (request_meta s) (of_nat (length content)) (spec_packets (unat (pa_mtu a) - 8) sid content 0 (length content))"
  shows "\<exists>g'. dtp_client_main fuel le apm_session_hooks (apm_hook le) apm_data_hook xe a True g = Inr (g', DTP_OK, Some i) \<and>
    contents (hw_files (world g')) path = Some content"
proof -
  let ?psz = "of_nat (length content) :: u32" and ?ps = "spec_packets (unat (pa_mtu a) - 8) sid content 0 (length content)"
  obtain g1 where g1: "dtp_prepare_session apm_session_hooks (apm_hook le) (client_args a) g = Inr (g1, Some i)"
      "world g1 = world g" "deref g1 (Some i) = Inr s"
    using prepared_session [of g i "client_args a" apm_session_hooks "apm_hook le"] assms(1,2,9) by (auto simp: unused_slot_def)
  let ?s2 = "s\<lparr>conn := Some cn, payload_size := ?psz\<rparr>"
  have rq: "servable (request_meta s)" "whole (request_meta s)" "chunk (request_meta s) = unat (pa_mtu a) - 8"
    unfolding assms(9) using fresh_request [OF assms(1,3,4) refl, of apm_session_hooks] by simp_all
  then have rd: "ready_to_store ?s2 (world g1) path"
    using assms(1,5-9) g1(2)
    by (simp add: ready_to_store_def ready_for_file_def unused_slot_def fresh_session_def acquired_session_def Let_def apm_session_hooks_def copy_hooks_def)
  obtain s' w' where r: "start_receiving_data fuel (apm_hook le) apm_data_hook xe ?s2 (world g1) = Inr ((s', w'), DTP_OK)"
      "contents (hw_files w') path = Some content"
    using stored_download [OF rd _ assms(10), of ?ps sid xe fuel le] assms(10-12,16) rq(3) by (auto simp: unat_of_nat)
  have "dtp_start_transfer fuel le (apm_hook le) apm_data_hook xe s (world g1) = Inr ((s', w'), DTP_OK, [Some cn])"
    using assms(13-15) r(1) by (simp add: dtp_start_transfer_def send_remote_meta_req_def read_remote_meta_resp_def Let_def)
  then show ?thesis using g1 r(2) by (simp add: dtp_client_main_def)
qed

text \<open>
  C1. The download of a file, from the registration of the file on the server to the copy on the client. A readable
  file that does not end at a packet boundary is registered; the client prepares a session and sends its request; the server's
  turn on this request ends, with a response and the packets of the file; and whatever client gets this
  response and these packets, in order and on schedule, ends \<open>dtp_client_main\<close> with \<open>DTP_OK\<close> and a copy of
  the file, byte by byte.\<close>

theorem file_download_end_to_end:
  assumes "payload_reachable w0" and "pid \<noteq> 255" and "may_open (pw_files w0) spath"
    and "contents (pw_files w0) spath = Some content" and "length content < 4294967295"
    and "length content mod (unat (pa_mtu a) - 8) \<noteq> 0" and "length content < fuel"
    and "\<forall>k. ev_buffer (env k) \<and> \<not> ev_stop (env k) \<and> (le \<or> ev_alive (env k) = Some (ev_now (env k)))"
    and "unused_slot g i" and "\<not> pa_resume a" and "pa_payload_id a = pid" and "0 < pa_max_throughput a" and "8 < pa_mtu a"
    and "pa_ctx a = Some path" and "length path < 1024" and "may_open (hw_files (world g)) path" and "plenty (hw_heap (world g))"
  shows "\<exists>wp g1 s req sv' resp ps.
    dtp_file_payload_add pid (Some spath) w0 = Inr (wp, True) \<and>
    dtp_prepare_session apm_session_hooks (apm_hook le) (client_args a) g = Inr (g1, Some i) \<and>
    deref g1 (Some i) = Inr s \<and> send_remote_meta_req le True s = (DTP_OK, Some req) \<and>
    server_turn fuel clock le (\<lambda>meta p. dtp_file_payload_get_meta meta p wp) (\<lambda>_. file_reader wp) env True
      (Request src dst req) sv = Inr (sv', Some resp, True) \<and>
    sv_sent sv' = sv_sent sv @ map (\<lambda>p. (dst, src, p)) ps \<and>
    ps = spec_packets (unat (pa_mtu a) - 8) 0x900dface content 0 (length content) \<and>
    (\<forall>xe cn. xe_conn xe = Some cn \<and> xe_buffer xe \<and> xe_resp xe = Some resp \<and>
      received_in_time xe (request_meta s) (of_nat (length content)) ps \<longrightarrow>
      (\<exists>g'. dtp_client_main fuel le apm_session_hooks (apm_hook le) apm_data_hook xe a True g = Inr (g', DTP_OK, Some i) \<and>
        contents (hw_files (world g')) path = Some content))"
proof -
  let ?c = "unat (pa_mtu a) - 8" and ?psz = "of_nat (length content) :: u32"
  have less: "length content < 4294967296" using assms(5) by simp
  obtain wp where wp: "dtp_file_payload_add pid (Some spath) w0 = Inr (wp, True)" "registered wp pid spath content"
    using add_registers [OF payload_reachable_inv [OF assms(1)] assms(2), of "Some spath"] assms(3,4) less
    by (auto simp: registered_def)
  define s where "s = fresh_session apm_session_hooks (client_args a) (ss_session (static_sessions g ! i))"
  obtain g1 where g1: "dtp_prepare_session apm_session_hooks (apm_hook le) (client_args a) g = Inr (g1, Some i)"
      "deref g1 (Some i) = Inr s"
    using prepared_session [of g i "client_args a" apm_session_hooks "apm_hook le"] assms(9,10) by (auto simp: unused_slot_def s_def)
  define req where "req = (request_meta s)\<lparr>keep_alive_interval := keep_alive_to_wire le (keep_alive_interval (request_meta s))\<rparr>"
  have snd: "send_remote_meta_req le True s = (DTP_OK, Some req)" by (simp add: send_remote_meta_req_def req_def)
  have rq: "servable req" "whole req" "payload_id req = pid" "session_id req = 0x900dface" "chunk req = ?c"
    using fresh_request [OF assms(9,12,13) refl, of apm_session_hooks] assms(11)
    by (simp_all add: req_def s_def servable_def whole_def chunk_def)
  let ?ps = "spec_packets ?c 0x900dface content 0 (length content)"
  let ?resp = "\<lparr>resp_size_in_bytes = ?psz, resp_total_payload_size = ?psz\<rparr>"
  have "keep_alive_from_wire True (keep_alive_interval req) = 0"
    by (simp add: keep_alive_from_wire_def be32toh_def bswap32_low)
  then have st: "steady env (req\<lparr>keep_alive_interval := keep_alive_from_wire le (keep_alive_interval req)\<rparr>)"
    using assms(8) by (cases le) (simp_all add: steady_def)
  obtain sv' where sv': "server_turn fuel clock le (\<lambda>meta p. dtp_file_payload_get_meta meta p wp) (\<lambda>_. file_reader wp) env True
      (Request src dst req) sv = Inr (sv', Some ?resp, True)" "sv_sent sv' = sv_sent sv @ map (\<lambda>p. (dst, src, p)) ?ps"
    using server_turn_whole [of "\<lambda>_. file_reader wp" payload_read_hook req content "\<lambda>meta p. dtp_file_payload_get_meta meta p wp",
        OF _ _ rq(1,2) st assms(7), of clock src dst sv] registered_source [OF wp(2)] registered_meta [OF wp(2)]
    unfolding rq(3-5) by blast
  have client: "\<exists>g'. dtp_client_main fuel le apm_session_hooks (apm_hook le) apm_data_hook xe a True g = Inr (g', DTP_OK, Some i) \<and>
      contents (hw_files (world g')) path = Some content"
    if "xe_conn xe = Some cn" "xe_buffer xe" "xe_resp xe = Some ?resp" "received_in_time xe (request_meta s) ?psz ?ps" for xe cn
    by (rule client_main_stores [OF assms(9,10,12-17) s_def assms(5-7) that])
  show ?thesis
    by (rule exI [of _ wp], rule exI [of _ g1], rule exI [of _ s], rule exI [of _ req], rule exI [of _ sv'],
        rule exI [of _ ?resp], rule exI [of _ ?ps]) (intro conjI wp(1) g1 snd sv' refl allI impI, elim conjE, rule client)
qed

text \<open>The example: 1500 bytes in two packets.\<close>

definition server_files :: file_system where
  "server_files = example_files\<lparr>contents := (contents example_files)(''b'' \<mapsto> replicate 1500 1)\<rparr>"

definition arriving :: "dtp_meta_resp_t \<Rightarrow> data_packet list \<Rightarrow> xfer_env" where
  "arriving resp ps = example_env\<lparr>xe_resp := Some resp, xe_rx := packets_then_silence ps\<rparr>"

lemma compute_dtp_metrics_cong:
  "throughput r = throughput q \<Longrightarrow> mtu r = mtu q \<Longrightarrow> nof_intervals r = nof_intervals q \<Longrightarrow> intervals r = intervals q \<Longrightarrow>
   compute_dtp_metrics r psize = compute_dtp_metrics q psize"
  by (simp add: compute_dtp_metrics_def count_step_def [abs_def])

lemma example_in_time:
  assumes "throughput req = 1000" and "mtu req = 1032" and "nof_intervals req = 1"
    and "intervals req = intervals (whole_request 1000 1032)" and "length content = 1500"
  shows "received_in_time (arriving resp (spec_packets 1024 sid content 0 1500)) req 1500 (spec_packets 1024 sid content 0 1500)"
proof -
  let ?ps = "spec_packets 1024 sid content 0 1500"
  obtain r where r: "compute_dtp_metrics req 1500 = Inr (example_metric r)"
    using example_metrics compute_dtp_metrics_cong [of req "whole_request 1000 1032" 1500] assms(1-4) by (auto simp: whole_request_def)
  have len: "length ?ps = 2" using arg_cong [OF spec_packets_numbers [of 1024 1500 sid content 0], of length] by simp
  have "on_schedule 1024 (length ?ps) (packets_then_silence ?ps) 0 ?ps"
    unfolding on_schedule_def len by (auto simp: packets_then_silence_def len less_2_cases_iff)
  then show ?thesis using r assms(2) by (simp add: received_in_time_def arriving_def example_env_def example_metric_def)
qed

theorem file_download_end_to_end_witness:
  "\<exists>resp g'. dtp_client_main 1501 True apm_session_hooks (apm_hook True) apm_data_hook
      (arriving resp (spec_packets 1024 0x900dface (replicate 1500 1) 0 1500)) example_args True (initial_globals example_world) =
      Inr (g', DTP_OK, Some 0) \<and> contents (hw_files (world g')) ''f'' = Some (replicate 1500 1)"
proof -
  let ?g = "initial_globals example_world :: (hook_ctx_t, hook_world) dtp_globals" and ?d = "replicate 1500 (1::u8)"
  have "free_slot (replicate 5 x) = Some 0" if "\<not> in_use x" for x :: "hook_ctx_t dtp_static_session_t"
    using that by (simp add: numeral_eq_Suc)
  then have slot: "unused_slot ?g 0"
    by (simp add: unused_slot_def initial_globals_def DTP_NOF_STATIC_SESSIONS_def zero_session_def zero_hooks_def zero_request_def)
  have srv: "payload_reachable (initial_payloads server_files)" "may_open (pw_files (initial_payloads server_files)) ''b''"
      "contents (pw_files (initial_payloads server_files)) ''b'' = Some ?d"
    by (rule payload_reachable.start, simp_all add: initial_payloads_def server_files_def example_files_def)
  have args: "\<not> pa_resume example_args" "pa_payload_id example_args = 1" "0 < pa_max_throughput example_args" "8 < pa_mtu example_args"
      "pa_ctx example_args = Some ''f''" "unat (pa_mtu example_args) - 8 = 1024"
      "may_open (hw_files (world ?g)) ''f''" "plenty (hw_heap (world ?g))"
    by (simp_all add: example_args_def initial_globals_def example_world_def plenty_empty_heap)
  obtain g1 s resp where r: "dtp_prepare_session apm_session_hooks (apm_hook True) (client_args example_args) ?g = Inr (g1, Some 0)"
      "deref g1 (Some 0) = Inr s" 
      "\<forall>xe. (\<exists>cn. xe_conn xe = Some cn) \<and> xe_buffer xe \<and> xe_resp xe = Some resp \<and>
        received_in_time xe (request_meta s) 1500 (spec_packets 1024 0x900dface ?d 0 1500) \<longrightarrow>
        (\<exists>g'. dtp_client_main 1501 True apm_session_hooks (apm_hook True) apm_data_hook xe example_args True ?g = Inr (g', DTP_OK, Some 0) \<and>
          contents (hw_files (world g')) ''f'' = Some ?d)"
    using file_download_end_to_end [OF srv(1) _ srv(2,3) _ _ _ _ slot args(1,2,3,4,5) _ args(7,8), of 1501 quiet True "\<lambda>_. 0" 1 2 idle_server]
    by (simp add: args(6) quiet_def del: server_turn.simps) blast
  have "s = fresh_session apm_session_hooks (client_args example_args) (ss_session (static_sessions ?g ! 0))"
    using prepared_session [of ?g 0 "client_args example_args" apm_session_hooks "apm_hook True"] slot args(1) r(1,2)
    by (auto simp: unused_slot_def)
  moreover have "(replicate 8 x)[0 := y] = y # replicate 7 x" for x y :: interval_t by (simp add: numeral_eq_Suc)
  ultimately have "received_in_time (arriving resp (spec_packets 1024 0x900dface ?d 0 1500)) (request_meta s) 1500 (spec_packets 1024 0x900dface ?d 0 1500)"
    by (intro example_in_time) (simp_all add: fresh_session_def acquired_session_def Let_def example_args_def initial_globals_def
      DTP_NOF_STATIC_SESSIONS_def zero_session_def zero_request_def whole_request_def)
  with r(3) [rule_format, of "arriving resp (spec_packets 1024 0x900dface ?d 0 1500)"] show ?thesis
    by (intro exI [of _ resp]) (simp add: arriving_def example_env_def)
qed

subsection \<open>Memory\<close>

text \<open>The message a request for a whole region becomes.\<close>

lemma whole_message:
  assumes "servable req" and "whole req" and "length (intervals (msg_meta msg0)) = 8"
    and "m = message_of msg0 dst src req sid va sz pid ka"
  shows "msg m = 1" "servable (msg_meta m)" "nof_intervals (msg_meta m) = 1"
    "intervals (msg_meta m) ! 0 = \<lparr>iv_start = 0, iv_end = UINT32_MAX\<rparr>" "msg_size m = sz" "msg_srv_node m = dst"
    "msg_dest_port m = src" "session_id (msg_meta m) = sid" "chunk (msg_meta m) = chunk req"
    "mem_content mem m = mem_read mem va sz" "keep_alive_interval (msg_meta m) = ka"
  using assms by (auto simp: message_of_def Let_def servable_def whole_def clamped_intervals_def chunk_def nth_append
      mem_content_def mem_read_def)

text \<open>
  C2. The download of a memory region, from the client's request to the copy on the client: the request is
  sent, the handler on the other node posts it, the task takes it from the queue and sends the region, and
  the client that receives these packets in order and on schedule ends \<open>dtp_vmem_client_main\<close> with \<open>DTP_OK\<close> and the
  region's bytes in its file. The queue is relied on to give back a message that was put into it; the packet buffers may
  hold anything.\<close>

theorem memory_download_end_to_end:
  assumes "header_ok H" and "ve_conn ve = Some c" and "ve_buffer ve = Some buf" and "body H + sizeof_start_req \<le> length buf"
    and "length (intervals (msg_meta msg0)) = 8" and "\<forall>m. fst (mq_receive (mq_send (vc_queue vc) m)) = m"
    and "ready_to_store s w path" and "payload_size s = sz" and "sz \<noteq> UINT32_MAX"
    and "unat sz mod (unat (mtu (request_meta s)) - 8) \<noteq> 0" and "unat sz < fuel"
    and "\<forall>k. ev_buffer (env k) \<and> \<not> ev_stop (env k) \<and> (le \<or> ev_alive (env k) = Some (ev_now (env k)))"
  shows "\<exists>bs vc1 vc2 sv' ps.
    vmem_request_dtp_start_download le H ve s node sid tmo version rdp va sz =
      Inr (0, [Csp_Connect node tmo (rdp \<noteq> 0), Csp_Send c bs, Csp_Close c]) \<and>
    vmem_dtp_request_handler le H mq_send msg0 now buffer dst src (bs @ rest) vc = Inr (vc1, None) \<and> vc_session_id vc1 = sid \<and>
    dtp_vmem_server_task_turn fuel clock mq_receive (mem_read mem) f obj env vc1 sv = Inr (vc2, sv') \<and>
    sv_sent sv' = sv_sent sv @ map (\<lambda>p. (dst, src, p)) ps \<and>
    ps = spec_packets (chunk (request_meta s)) sid (mem_read mem va sz) 0 (unat sz) \<and>
    (\<forall>xe. received_in_time xe (request_meta s) sz ps \<longrightarrow>
      (\<exists>s' w'. dtp_vmem_client_main fuel (apm_hook le) apm_data_hook xe s w = Inr ((s', w'), DTP_OK) \<and>
        contents (hw_files w') path = Some (mem_read mem va sz)))"
proof -
  let ?req = "request_meta s" and ?ka = "if le then 0 else keep_alive_interval (request_meta s)"
  have rd: "servable ?req" "whole ?req" "length (intervals ?req) = 8" using assms(7) by (auto simp: ready_to_store_def servable_def)
  obtain bs pid where b: "vmem_request_dtp_start_download le H ve s node sid tmo version rdp va sz =
      Inr (0, [Csp_Connect node tmo (rdp \<noteq> 0), Csp_Send c bs, Csp_Close c])"
      "vmem_dtp_request_handler le H mq_send msg0 now buffer dst src (bs @ rest) vc =
        Inr (vc\<lparr>vc_session_id := sid, vc_transfer := (vc_transfer vc)\<lparr>client_alive_ts := now\<rparr>,
          vc_queue := mq_send (vc_queue vc) (message_of msg0 dst src ?req sid va sz pid ?ka)\<rparr>, None)"
    using start_request_posted [OF assms(1-4) rd(3) assms(5), of le node sid tmo version rdp va sz le mq_send now buffer dst src vc]
    by auto
  let ?m = "message_of msg0 dst src ?req sid va sz pid ?ka"
  let ?vc1 = "vc\<lparr>vc_session_id := sid, vc_transfer := (vc_transfer vc)\<lparr>client_alive_ts := now\<rparr>, vc_queue := mq_send (vc_queue vc) ?m\<rparr>"
  note m = whole_message [OF rd(1,2) assms(5) refl, where dst = dst and src = src and sid = sid and va = va and sz = sz and pid = pid and ka = ?ka]
  have st: "steady env (msg_meta ?m)" using assms(12) m(11) by (cases le) (simp_all add: steady_def)
  let ?ps = "spec_packets (chunk ?req) sid (mem_read mem va sz) 0 (unat sz)"
  obtain sv' where sv': "vmem_server_turn fuel clock (mem_read mem) f obj env ?m (sv\<lparr>sv_ctx := vc_transfer ?vc1\<rparr>) = Inr sv'"
      "sv_sent sv' = sv_sent sv @ map (\<lambda>p. (dst, src, p)) ?ps"
    using vmem_turn_packets [OF m(1-4) st, of fuel clock mem f obj "sv\<lparr>sv_ctx := vc_transfer ?vc1\<rparr>"] assms(11) unfolding m(5-10) by auto
  obtain q where q: "mq_receive (mq_send (vc_queue vc) ?m) = (?m, q)"
    using assms(6) [rule_format, of ?m] by (cases "mq_receive (mq_send (vc_queue vc) ?m)") simp
  have t: "dtp_vmem_server_task_turn fuel clock mq_receive (mem_read mem) f obj env ?vc1 sv =
      Inr (?vc1\<lparr>vc_queue := q, vc_transfer := sv_ctx sv'\<rparr>, sv')"
    using sv'(1) q by (simp add: dtp_vmem_server_task_turn_def async_recv_def async_vmem_read_def)
  have len: "length (mem_read mem va sz) = unat sz" by (simp add: mem_read_def)
  have mx: "unat sz < 4294967295" using assms(9) unat_lt_u32 [of sz] by (simp add: word_unat_eq_iff)
  have client: "\<exists>s' w'. dtp_vmem_client_main fuel (apm_hook le) apm_data_hook xe s w = Inr ((s', w'), DTP_OK) \<and>
      contents (hw_files w') path = Some (mem_read mem va sz)" if "received_in_time xe ?req sz ?ps" for xe
    using stored_download [OF assms(7), of "mem_read mem va sz" ?ps sid xe fuel le] that assms(8,10,11) len mx
    by (simp add: dtp_vmem_client_main_def chunk_def)
  show ?thesis
    by (rule exI [of _ bs], rule exI [of _ ?vc1], rule exI [of _ "?vc1\<lparr>vc_queue := q, vc_transfer := sv_ctx sv'\<rparr>"],
        rule exI [of _ sv'], rule exI [of _ ?ps]) (intro conjI b t sv'(2) refl allI impI, simp, rule client)
qed

definition region_session :: apm_session where
  "region_session = file_session\<lparr>payload_size := 1500, request_meta := whole_request 1000 1032\<rparr>"

theorem memory_download_end_to_end_witness:
  "\<exists>bs vc1 s' w'. vmem_request_dtp_start_download True example_hdr vmem_client region_session 9 77 1000 2 1 0x2000 1500 =
      Inr (0, [Csp_Connect 9 1000 True, Csp_Send 4 bs, Csp_Close 4]) \<and>
    vmem_dtp_request_handler True example_hdr (\<lambda>q m. q @ [m]) memory_message 55 None 9 10 bs vmem_server = Inr (vc1, None) \<and>
    dtp_vmem_client_main 1501 (apm_hook True) apm_data_hook
      (arriving \<lparr>resp_size_in_bytes = 0, resp_total_payload_size = 0\<rparr> (spec_packets 1024 77 (mem_read (\<lambda>a. ucast a) 0x2000 1500) 0 1500))
      region_session example_world = Inr ((s', w'), DTP_OK) \<and>
    contents (hw_files w') ''f'' = Some (mem_read (\<lambda>a. ucast a) 0x2000 1500)"
proof -
  let ?d = "mem_read (\<lambda>a. ucast a) 0x2000 1500" and ?r = "\<lparr>resp_size_in_bytes = 0, resp_total_payload_size = 0\<rparr>"
  have len: "body example_hdr + sizeof_start_req \<le> length (replicate 256 (170::u8))"
    by (simp add: example_facts sizeof_start_req_def)
  have rd: "ready_to_store region_session example_world ''f''" "payload_size region_session = 1500" "mtu (request_meta region_session) = 1032"
      "chunk (request_meta region_session) = 1024"
    by (simp_all add: ready_to_store_def ready_for_file_def region_session_def file_session_def apm_session_hooks_def zero_session_def example_world_def
        plenty_empty_heap servable_def whole_def whole_request_def chunk_def)
  have fifo: "\<forall>m. fst ((\<lambda>q. (hd q, tl q)) ((\<lambda>q m. q @ [m]) (vc_queue vmem_server) m)) = m" by (simp add: vmem_server_def initial_vmem_context_def)
  have t: "received_in_time (arriving ?r (spec_packets 1024 77 ?d 0 1500)) (request_meta region_session) 1500 (spec_packets 1024 77 ?d 0 1500)"
    by (intro example_in_time) (simp_all add: region_session_def whole_request_def mem_read_def)
  note d = memory_download_end_to_end [where mq_receive = "\<lambda>q. (hd q, tl q)" and mq_send = "\<lambda>q m. q @ [m]" and vc = vmem_server,
      OF example_facts(1-3) len example_facts(6) fifo rd(1,2), where fuel = 1501 and env = quiet and le = True and mem = "\<lambda>a. ucast a"
        and sv = idle_server and clock = "\<lambda>_. 0" and f = 20 and obj = 1 and rest = "[]" and node = 9 and sid = 77 and tmo = 1000
        and version = 2 and rdp = 1 and va = "0x2000" and now = 55 and buffer = None and dst = 9 and src = 10]
  have p: "(1500::u32) \<noteq> UINT32_MAX" "unat (1500::u32) mod (unat (mtu (request_meta region_session)) - 8) \<noteq> 0" "unat (1500::u32) < 1501"
      "\<forall>k. ev_buffer (quiet k) \<and> \<not> ev_stop (quiet k) \<and> (True \<or> ev_alive (quiet k) = Some (ev_now (quiet k)))"
    by (simp_all add: rd(3) quiet_def)
  from d [OF p] obtain bs vc1 ps where o: "vmem_request_dtp_start_download True example_hdr vmem_client region_session 9 77 1000 2 1 0x2000 1500 =
      Inr (0, [Csp_Connect 9 1000 (1 \<noteq> (0::int)), Csp_Send 4 bs, Csp_Close 4])"
      "vmem_dtp_request_handler True example_hdr (\<lambda>q m. q @ [m]) memory_message 55 None 9 10 (bs @ []) vmem_server = Inr (vc1, None)"
      "ps = spec_packets (chunk (request_meta region_session)) 77 ?d 0 (unat (1500::u32))"
      "\<forall>xe. received_in_time xe (request_meta region_session) 1500 ps \<longrightarrow>
        (\<exists>s' w'. dtp_vmem_client_main 1501 (apm_hook True) apm_data_hook xe region_session example_world = Inr ((s', w'), DTP_OK) \<and>
          contents (hw_files w') ''f'' = Some ?d)" by blast
  have "ps = spec_packets 1024 77 ?d 0 1500" unfolding o(3) rd(4) by simp
  with o(4) t obtain s' w' where "dtp_vmem_client_main 1501 (apm_hook True) apm_data_hook (arriving ?r (spec_packets 1024 77 ?d 0 1500))
      region_session example_world = Inr ((s', w'), DTP_OK)" "contents (hw_files w') ''f'' = Some ?d" by blast
  moreover have "Csp_Connect 9 1000 (1 \<noteq> (0::int)) = Csp_Connect 9 1000 True" "bs @ [] = bs" by simp_all
  ultimately show ?thesis using o(1,2) by (intro exI conjI) simp_all
qed

end
